(* ===== verification/Prelude.thy ===== *)
theory Prelude
  imports Main "HOL-Library.Word"
begin

text \<open>
  What every theory of the development shares: the collections that the component
  proofs pass to the simplifier, the fixed-width integer operations that Rust's
  standard library offers (saturating and checked arithmetic on \<open>u32\<close> and \<open>u64\<close>,
  modelled on \<open>nat\<close> with the bound written out), byte strings, and generic facts on
  lists, options and maps.

  A Rust \<open>String\<close> or \<open>Vec<u8>\<close> is a \<open>string\<close>: one \<open>char\<close> of HOL is one byte.
  A \<open>Result<T, E>\<close> is \<open>E + T\<close>, with \<open>Inl\<close> for the error.
\<close>

section \<open>Collections for the component proofs\<close>

named_theorems frame_simps "fields an operation leaves alone"
named_theorems step_defs "definitions of the handlers, unfolded when an operation is executed"
named_theorems inv_intros "preservation of component invariants"

section \<open>Types shared by the components\<close>

type_synonym byte = char
type_synonym bytes = "char list"
type_synonym port = "16 word"
type_synonym millis = nat

section \<open>Errors as values\<close>

text \<open>The \<open>?\<close> operator and \<open>map_err\<close> on \<open>Result\<close>.\<close>

definition bind_res :: "'e + 'a \<Rightarrow> ('a \<Rightarrow> 'e + 'b) \<Rightarrow> 'e + 'b" where
  "bind_res r f = (case r of Inl e \<Rightarrow> Inl e | Inr x \<Rightarrow> f x)"

definition map_err :: "('e \<Rightarrow> 'f) \<Rightarrow> 'e + 'a \<Rightarrow> 'f + 'a" where
  "map_err g r = (case r of Inl e \<Rightarrow> Inl (g e) | Inr x \<Rightarrow> Inr x)"

definition res_ok :: "'e + 'a \<Rightarrow> 'a option" where
  "res_ok r = (case r of Inl _ \<Rightarrow> None | Inr x \<Rightarrow> Some x)"

definition ok_or :: "'e \<Rightarrow> 'a option \<Rightarrow> 'e + 'a" where
  "ok_or e r = (case r of None \<Rightarrow> Inl e | Some x \<Rightarrow> Inr x)"

lemma bind_res_simps [simp]:
  "bind_res (Inl e) f = Inl e" "bind_res (Inr x) f = f x"
  by (simp_all add: bind_res_def)

lemma map_err_simps [simp]:
  "map_err g (Inl e) = Inl (g e)" "map_err g (Inr x) = Inr x"
  by (simp_all add: map_err_def)

lemma res_ok_simps [simp]:
  "res_ok (Inl e) = None" "res_ok (Inr x) = Some x"
  by (simp_all add: res_ok_def)

lemma ok_or_simps [simp]:
  "ok_or e None = Inl e" "ok_or e (Some x) = Inr x"
  by (simp_all add: ok_or_def)

lemma bind_res_eq_Inr: "bind_res r f = Inr y \<longleftrightarrow> (\<exists>x. r = Inr x \<and> f x = Inr y)"
  by (cases r) auto

lemma map_err_eq_Inr [simp]: "map_err g r = Inr x \<longleftrightarrow> r = Inr x"
  by (cases r) auto

section \<open>Fixed-width arithmetic on \<open>nat\<close>\<close>

definition u32_max :: nat where "u32_max = 4294967295"
definition u64_max :: nat where "u64_max = 18446744073709551615"

definition sat_add32 :: "nat \<Rightarrow> nat \<Rightarrow> nat" where
  "sat_add32 a b = min (a + b) u32_max"

definition sat_mul32 :: "nat \<Rightarrow> nat \<Rightarrow> nat" where
  "sat_mul32 a b = min (a * b) u32_max"

primrec sat_pow32 :: "nat \<Rightarrow> nat \<Rightarrow> nat" where
  "sat_pow32 b 0 = 1"
| "sat_pow32 b (Suc n) = sat_mul32 b (sat_pow32 b n)"

lemma sat_add32_bound: "sat_add32 a b \<le> u32_max"
  by (simp add: sat_add32_def)

lemma sat_add32_le: "sat_add32 a b \<le> a + b"
  by (simp add: sat_add32_def)

lemma sat_add32_exact: "a + b \<le> u32_max \<Longrightarrow> sat_add32 a b = a + b"
  by (simp add: sat_add32_def)

lemma sat_add32_pos: "0 < b \<Longrightarrow> 0 < sat_add32 a b"
  by (simp add: sat_add32_def u32_max_def)

lemma sat_add32_ge: "a \<le> u32_max \<Longrightarrow> a \<le> sat_add32 a b"
  by (simp add: sat_add32_def)

text \<open>Saturating powers are the true powers, capped.\<close>

lemma sat_pow32_eq:
  assumes "1 \<le> b"
  shows "sat_pow32 b n = min (b ^ n) u32_max"
proof (induction n)
  case 0
  show ?case by (simp add: u32_max_def)
next
  case (Suc n)
  have "min (b * min (b ^ n) u32_max) u32_max = min (b * b ^ n) u32_max"
  proof (cases "b ^ n \<le> u32_max")
    case False
    then have "u32_max \<le> b * u32_max" and "u32_max \<le> b * b ^ n"
      using assms by (simp, metis False le_trans mult_le_mono1 nat_le_linear nat_mult_1)
    with False show ?thesis by simp
  qed (simp add: min_def)
  with Suc.IH show ?case by (simp add: sat_mul32_def)
qed

lemma unat_port_of_int: "0 \<le> c \<Longrightarrow> c \<le> 65535 \<Longrightarrow> unat (word_of_int c :: port) = nat c"
  by (simp add: unsigned_of_int take_bit_int_eq_self)

section \<open>Lists and options\<close>

lemma replicate_numeral [simp]: "replicate (numeral k) x = x # replicate (pred_numeral k) x"
  by (simp add: numeral_eq_Suc)

lemma filter_sorted_map: "sorted (map f xs) \<Longrightarrow> sorted (map f (filter P xs))"
  by (rule sorted_filter)

lemma nth_mod_mem: "xs \<noteq> [] \<Longrightarrow> xs ! (n mod length xs) \<in> set xs"
  by simp

lemma take_drop_exact: "n \<le> length xs \<Longrightarrow> length (take n xs) = n"
  by simp

lemma find_Some_mem: "find P xs = Some x \<Longrightarrow> x \<in> set xs \<and> P x"
  by (auto simp: find_Some_iff)

end
