(* ===== verification/RustStr.thy ===== *)
theory RustStr
  imports Prelude
begin

text \<open>
  The methods of Rust's \<open>str\<close> that the program calls, on byte strings: prefix
  stripping, splitting, \<open>trim\<close> (Unicode \<open>White_Space\<close>, spelt out as the UTF-8 byte
  sequences of its members), \<open>lines\<close>, \<open>to_ascii_lowercase\<close>, \<open>contains\<close>, the
  integer parsers, decimal printing, and \<open>String::from_utf8_lossy\<close>.
\<close>

section \<open>Characters\<close>

definition is_digit :: "char \<Rightarrow> bool" where
  "is_digit c \<longleftrightarrow> 48 \<le> (of_char c :: nat) \<and> (of_char c :: nat) \<le> 57"

definition digit_val :: "char \<Rightarrow> nat" where
  "digit_val c = of_char c - 48"

definition ascii_lower :: "char \<Rightarrow> char" where
  "ascii_lower c =
     (if 65 \<le> (of_char c :: nat) \<and> (of_char c :: nat) \<le> 90
      then char_of ((of_char c :: nat) + 32) else c)"

definition to_ascii_lowercase :: "string \<Rightarrow> string" where
  "to_ascii_lowercase s = List.map ascii_lower s"

text \<open>\<open>char::is_ascii_whitespace\<close>: space, tab, line feed, form feed, carriage return.\<close>

definition is_ascii_ws :: "char \<Rightarrow> bool" where
  "is_ascii_ws c \<longleftrightarrow> (of_char c :: nat) \<in> {32, 9, 10, 12, 13}"

text \<open>The UTF-8 forms of the characters with Unicode property \<open>White_Space\<close>.\<close>

definition ws_seqs :: "string list" where
  "ws_seqs =
     [[CHR 0x09], [CHR 0x0A], [CHR 0x0B], [CHR 0x0C], [CHR 0x0D], [CHR 0x20],
      [CHR 0xC2, CHR 0x85], [CHR 0xC2, CHR 0xA0], [CHR 0xE1, CHR 0x9A, CHR 0x80],
      [CHR 0xE2, CHR 0x80, CHR 0x80], [CHR 0xE2, CHR 0x80, CHR 0x81],
      [CHR 0xE2, CHR 0x80, CHR 0x82], [CHR 0xE2, CHR 0x80, CHR 0x83],
      [CHR 0xE2, CHR 0x80, CHR 0x84], [CHR 0xE2, CHR 0x80, CHR 0x85],
      [CHR 0xE2, CHR 0x80, CHR 0x86], [CHR 0xE2, CHR 0x80, CHR 0x87],
      [CHR 0xE2, CHR 0x80, CHR 0x88], [CHR 0xE2, CHR 0x80, CHR 0x89],
      [CHR 0xE2, CHR 0x80, CHR 0x8A], [CHR 0xE2, CHR 0x80, CHR 0xA8],
      [CHR 0xE2, CHR 0x80, CHR 0xA9], [CHR 0xE2, CHR 0x80, CHR 0xAF],
      [CHR 0xE2, CHR 0x81, CHR 0x9F], [CHR 0xE3, CHR 0x80, CHR 0x80]]"

section \<open>Prefixes and splitting\<close>

fun strip_prefix :: "string \<Rightarrow> string \<Rightarrow> string option" where
  "strip_prefix [] s = Some s"
| "strip_prefix (p # ps) [] = None"
| "strip_prefix (p # ps) (c # cs) = (if p = c then strip_prefix ps cs else None)"

definition starts_with :: "string \<Rightarrow> string \<Rightarrow> bool" where
  "starts_with p s \<longleftrightarrow> strip_prefix p s \<noteq> None"

fun contains_str :: "string \<Rightarrow> string \<Rightarrow> bool" where
  "contains_str p [] = (p = [])"
| "contains_str p (c # cs) = (starts_with p (c # cs) \<or> contains_str p cs)"

fun split_once :: "char \<Rightarrow> string \<Rightarrow> (string \<times> string) option" where
  "split_once d [] = None"
| "split_once d (c # cs) =
     (if c = d then Some ([], cs)
      else map_option (\<lambda>(a, b). (c # a, b)) (split_once d cs))"

definition rsplit_once :: "char \<Rightarrow> string \<Rightarrow> (string \<times> string) option" where
  "rsplit_once d s = map_option (\<lambda>(a, b). (rev b, rev a)) (split_once d (rev s))"

text \<open>\<open>s.split(d)\<close> collected: one piece more than there are delimiters.\<close>

fun split_on :: "char \<Rightarrow> string \<Rightarrow> string list" where
  "split_on d [] = [[]]"
| "split_on d (c # cs) =
     (if c = d then [] # split_on d cs
      else (case split_on d cs of [] \<Rightarrow> [[c]] | p # ps \<Rightarrow> (c # p) # ps))"

text \<open>\<open>join\<close> of the slices of strings.\<close>

fun join_with :: "string \<Rightarrow> string list \<Rightarrow> string" where
  "join_with sep [] = []"
| "join_with sep [x] = x"
| "join_with sep (x # y # xs) = x @ sep @ join_with sep (y # xs)"

lemma strip_prefix_Some: "strip_prefix p s = Some r \<longleftrightarrow> s = p @ r"
  by (induction p s rule: strip_prefix.induct) auto

lemma starts_with_iff: "starts_with p s \<longleftrightarrow> (\<exists>r. s = p @ r)"
  by (auto simp: starts_with_def strip_prefix_Some)

lemma split_once_Some: "split_once d s = Some (a, b) \<longleftrightarrow> s = a @ d # b \<and> d \<notin> set a"
proof (induction s arbitrary: a)
  case (Cons c cs)
  show ?case
  proof (cases a)
    case Nil
    then show ?thesis by (auto split: option.splits)
  next
    case (Cons x xs)
    with Cons.IH [of xs] show ?thesis by (cases "split_once d cs") (auto split: option.splits)
  qed
qed simp

lemma split_once_None: "split_once d s = None \<longleftrightarrow> d \<notin> set s"
  by (induction s) auto

lemma rsplit_once_Some: "rsplit_once d s = Some (a, b) \<longleftrightarrow> s = a @ d # b \<and> d \<notin> set b"
proof -
  have "rsplit_once d s = Some (a, b) \<longleftrightarrow> split_once d (rev s) = Some (rev b, rev a)"
    by (auto simp: rsplit_once_def)
  also have "\<dots> \<longleftrightarrow> s = a @ d # b \<and> d \<notin> set b"
    by (simp add: split_once_Some rev_swap)
  finally show ?thesis .
qed

lemma split_on_nonempty [simp]: "split_on d s \<noteq> []"
  by (induction s) (auto split: list.splits)

lemma split_on_segment: "s \<in> set (split_on d p) \<Longrightarrow> d \<notin> set s"
  by (induction p arbitrary: s) (auto split: list.splits if_splits)

lemma hd_split_on: "d \<notin> set p \<Longrightarrow> hd (split_on d (p @ d # r)) = p"
  by (induction p) (auto split: list.splits)

lemma split_on_none: "d \<notin> set p \<Longrightarrow> split_on d p = [p]"
  by (induction p) auto

lemma split_on_append: "split_on d (p @ d # q) = split_on d p @ split_on d q"
proof (induction p)
  case (Cons c p)
  then show ?case by (cases "split_on d p") auto
qed simp

section \<open>Trimming\<close>

definition ws_prefix :: "string \<Rightarrow> string option" where
  "ws_prefix s = find (\<lambda>w. starts_with w s) ws_seqs"

lemma ws_prefix_nonempty: "ws_prefix s = Some w \<Longrightarrow> 0 < length w \<and> (\<exists>r. s = w @ r)"
  by (auto simp: ws_prefix_def find_Some_iff starts_with_iff dest!: nth_mem)
     (auto simp: ws_seqs_def)

function trim_start :: "string \<Rightarrow> string" where
  "trim_start s = (case ws_prefix s of None \<Rightarrow> s | Some w \<Rightarrow> trim_start (drop (length w) s))"
  by pat_completeness auto
termination
  by (relation "measure length") (auto dest!: ws_prefix_nonempty)

declare trim_start.simps [simp del]

definition ws_suffix :: "string \<Rightarrow> string option" where
  "ws_suffix s = find (\<lambda>w. starts_with (rev w) (rev s)) ws_seqs"

lemma ws_suffix_nonempty: "ws_suffix s = Some w \<Longrightarrow> 0 < length w \<and> (\<exists>r. s = r @ w)"
proof -
  assume "ws_suffix s = Some w"
  then have "w \<in> set ws_seqs \<and> starts_with (rev w) (rev s)"
    unfolding ws_suffix_def by (rule find_Some_mem)
  then show ?thesis by (auto simp: starts_with_iff ws_seqs_def rev_swap)
qed

function trim_end :: "string \<Rightarrow> string" where
  "trim_end s =
     (case ws_suffix s of None \<Rightarrow> s | Some w \<Rightarrow> trim_end (take (length s - length w) s))"
  by pat_completeness auto
termination
proof (relation "measure length")
  fix s w
  assume "ws_suffix s = Some w"
  then show "(take (length s - length w) s, s) \<in> measure length"
    using ws_suffix_nonempty [of s w] by (cases s) auto
qed simp

declare trim_end.simps [simp del]

definition trim_str :: "string \<Rightarrow> string" where
  "trim_str s = trim_end (trim_start s)"

text \<open>\<open>trim_start_matches\<close> and \<open>trim_end_matches\<close> with a predicate or one character.\<close>

definition trim_end_matches :: "(char \<Rightarrow> bool) \<Rightarrow> string \<Rightarrow> string" where
  "trim_end_matches p s = rev (dropWhile p (rev s))"

text \<open>\<open>split_whitespace().next()\<close>: the first maximal run without white space.\<close>

fun take_word :: "string \<Rightarrow> string" where
  "take_word [] = []"
| "take_word (c # cs) = (if ws_prefix (c # cs) = None then c # take_word cs else [])"

definition first_word :: "string \<Rightarrow> string option" where
  "first_word s = (let t = trim_start s in if t = [] then None else Some (take_word t))"

section \<open>Lines\<close>

text \<open>\<open>str::lines\<close>: pieces ended by a line feed, without it and without one carriage
  return before it; the last piece is a line when it is not empty, and keeps its carriage
  return.\<close>

definition strip_cr :: "string \<Rightarrow> string" where
  "strip_cr l = (if l \<noteq> [] \<and> last l = CHR 0x0D then butlast l else l)"

definition str_lines :: "string \<Rightarrow> string list" where
  "str_lines s =
     (let ps = split_on (CHR 0x0A) s
      in List.map strip_cr (butlast ps) @ (if last ps = [] then [] else [last ps]))"

section \<open>Integers in text\<close>

fun parse_digits :: "nat \<Rightarrow> nat \<Rightarrow> string \<Rightarrow> nat option" where
  "parse_digits lim acc [] = Some acc"
| "parse_digits lim acc (c # cs) =
     (if is_digit c then
        (let v = acc * 10 + digit_val c in if v \<le> lim then parse_digits lim v cs else None)
      else None)"

text \<open>\<open>parse::<uN>()\<close>: an optional plus sign, then at least one digit, no overflow.\<close>

definition parse_uint :: "nat \<Rightarrow> string \<Rightarrow> nat option" where
  "parse_uint lim s =
     (case s of
        [] \<Rightarrow> None
      | c # cs \<Rightarrow>
          if c = CHR ''+'' then (if cs = [] then None else parse_digits lim 0 cs)
          else parse_digits lim 0 s)"

abbreviation parse_u8 :: "string \<Rightarrow> nat option" where "parse_u8 \<equiv> parse_uint 255"
abbreviation parse_u16 :: "string \<Rightarrow> nat option" where "parse_u16 \<equiv> parse_uint 65535"
abbreviation parse_u32 :: "string \<Rightarrow> nat option" where "parse_u32 \<equiv> parse_uint u32_max"

lemma parse_digits_bound: "acc \<le> lim \<Longrightarrow> parse_digits lim acc s = Some v \<Longrightarrow> v \<le> lim"
  by (induction lim acc s rule: parse_digits.induct) (auto simp: Let_def split: if_splits)

lemma parse_uint_bound: "parse_uint lim s = Some v \<Longrightarrow> v \<le> lim"
  by (auto simp: parse_uint_def simp del: parse_digits.simps split: list.splits if_splits
      intro: parse_digits_bound [of 0])

fun show_nat :: "nat \<Rightarrow> string" where
  "show_nat n =
     (if n < 10 then [char_of (48 + n)] else show_nat (n div 10) @ [char_of (48 + n mod 10)])"

declare show_nat.simps [simp del]

definition show_int :: "int \<Rightarrow> string" where
  "show_int i = (if i < 0 then CHR ''-'' # show_nat (nat (- i)) else show_nat (nat i))"

section \<open>Lossy UTF-8 decoding\<close>

text \<open>
  \<open>String::from_utf8_lossy\<close> replaces every maximal ill-formed prefix of a code point by
  U+FFFD (three bytes) and keeps the well-formed code points. \<open>utf8_step\<close> looks at the
  front of the input: \<open>Inr n\<close> is a well-formed code point of \<open>n\<close> bytes, \<open>Inl n\<close> an
  ill-formed sequence of \<open>n\<close> bytes to be replaced once.
\<close>

definition cont_byte :: "nat \<Rightarrow> nat \<Rightarrow> byte \<Rightarrow> bool" where
  "cont_byte lo hi c \<longleftrightarrow> lo \<le> (of_char c :: nat) \<and> (of_char c :: nat) \<le> hi"

fun utf8_tail :: "(nat \<times> nat) list \<Rightarrow> nat \<Rightarrow> bytes \<Rightarrow> nat + nat" where
  "utf8_tail [] n cs = Inr n"
| "utf8_tail ((lo, hi) # rs) n [] = Inl n"
| "utf8_tail ((lo, hi) # rs) n (c # cs) =
     (if cont_byte lo hi c then utf8_tail rs (Suc n) cs else Inl n)"

definition utf8_ranges :: "nat \<Rightarrow> (nat \<times> nat) list option" where
  "utf8_ranges b =
     (if b < 128 then Some []
      else if 194 \<le> b \<and> b \<le> 223 then Some [(128, 191)]
      else if b = 224 then Some [(160, 191), (128, 191)]
      else if (225 \<le> b \<and> b \<le> 236) \<or> b = 238 \<or> b = 239 then Some [(128, 191), (128, 191)]
      else if b = 237 then Some [(128, 159), (128, 191)]
      else if b = 240 then Some [(144, 191), (128, 191), (128, 191)]
      else if 241 \<le> b \<and> b \<le> 243 then Some [(128, 191), (128, 191), (128, 191)]
      else if b = 244 then Some [(128, 143), (128, 191), (128, 191)]
      else None)"

definition utf8_step :: "byte \<Rightarrow> bytes \<Rightarrow> nat + nat" where
  "utf8_step c cs =
     (case utf8_ranges (of_char c) of None \<Rightarrow> Inl 1 | Some rs \<Rightarrow> utf8_tail rs 1 cs)"

definition replacement :: bytes where
  "replacement = [CHR 0xEF, CHR 0xBF, CHR 0xBD]"

lemma utf8_tail_pos: "1 \<le> n \<Longrightarrow> (case utf8_tail rs n cs of Inl k \<Rightarrow> 1 \<le> k | Inr k \<Rightarrow> 1 \<le> k)"
  by (induction rs n cs rule: utf8_tail.induct) auto

lemma utf8_step_pos: "utf8_step c cs = Inl n \<or> utf8_step c cs = Inr n \<Longrightarrow> 1 \<le> n"
  using utf8_tail_pos [of 1 "the (utf8_ranges (of_char c))" cs]
  by (auto simp: utf8_step_def split: option.splits sum.splits)

function from_utf8_lossy :: "bytes \<Rightarrow> string" where
  "from_utf8_lossy [] = []"
| "from_utf8_lossy (c # cs) =
     (case utf8_step c cs of
        Inr n \<Rightarrow> take n (c # cs) @ from_utf8_lossy (drop n (c # cs))
      | Inl n \<Rightarrow> replacement @ from_utf8_lossy (drop n (c # cs)))"
  by pat_completeness auto
termination
  by (relation "measure length") (auto dest: utf8_step_pos [OF disjI1] utf8_step_pos [OF disjI2])

declare from_utf8_lossy.simps(2) [simp del]

text \<open>\<open>String::from_utf8(..).ok()\<close>: the strict decoder accepts exactly the byte strings
  with no ill-formed sequence.\<close>

function valid_utf8 :: "bytes \<Rightarrow> bool" where
  "valid_utf8 [] = True"
| "valid_utf8 (c # cs) =
     (case utf8_step c cs of Inr n \<Rightarrow> valid_utf8 (drop n (c # cs)) | Inl _ \<Rightarrow> False)"
  by pat_completeness auto
termination
  by (relation "measure length") (auto dest: utf8_step_pos [OF disjI2])

declare valid_utf8.simps(2) [simp del]

lemma lossy_valid: "valid_utf8 s \<Longrightarrow> from_utf8_lossy s = s"
proof (induction s rule: valid_utf8.induct)
  case (2 c cs)
  then show ?case
    by (auto simp: valid_utf8.simps(2) [of c cs] from_utf8_lossy.simps(2) [of c cs] split: sum.splits)
qed simp

definition is_ascii :: "bytes \<Rightarrow> bool" where
  "is_ascii s = list_all (\<lambda>c. (of_char c :: nat) < 128) s"

lemma ascii_valid: "is_ascii s \<Longrightarrow> valid_utf8 s"
  by (induction s) (auto simp: is_ascii_def valid_utf8.simps(2) utf8_step_def utf8_ranges_def)

lemma lossy_ascii: "is_ascii s \<Longrightarrow> from_utf8_lossy s = s"
  by (simp add: ascii_valid lossy_valid)

text \<open>\<open>HeaderValue::to_str\<close>: visible ASCII, space and tab.\<close>

definition header_str :: "bytes \<Rightarrow> string option" where
  "header_str v =
     (if list_all (\<lambda>c. (32 \<le> (of_char c :: nat) \<and> of_char c < (127 :: nat)) \<or> of_char c = (9 :: nat)) v
      then Some v else None)"

section \<open>Visible ASCII\<close>

definition graphic :: "string \<Rightarrow> bool" where
  "graphic s \<longleftrightarrow> list_all (\<lambda>c. 33 \<le> (of_char c :: nat) \<and> of_char c < (127 :: nat)) s"

lemma graphic_no_ws: "graphic s \<Longrightarrow> w \<in> set ws_seqs \<Longrightarrow> set w \<subseteq> set s \<Longrightarrow> False"
proof -
  assume g: "graphic s" and w: "w \<in> set ws_seqs" "set w \<subseteq> set s"
  have "list_all (\<lambda>w. list_ex (\<lambda>c. \<not> (33 \<le> (of_char c :: nat) \<and> of_char c < (127 :: nat))) w) ws_seqs"
    by code_simp
  with w(1) obtain c where "c \<in> set w" "\<not> (33 \<le> (of_char c :: nat) \<and> of_char c < (127 :: nat))"
    by (auto simp: list_all_iff list_ex_iff)
  with g w(2) show False by (auto simp: graphic_def list_all_iff)
qed

lemma trim_graphic_start: "graphic s \<Longrightarrow> trim_start s = s"
proof -
  assume g: "graphic s"
  have "ws_prefix s = None"
    using graphic_no_ws [OF g] by (fastforce simp: ws_prefix_def find_None_iff starts_with_iff)
  then show ?thesis by (simp add: trim_start.simps)
qed

lemma trim_graphic: "graphic s \<Longrightarrow> trim_str s = s"
proof -
  assume g: "graphic s"
  note p = trim_graphic_start [OF g]
  have "ws_suffix s = None"
  proof (rule ccontr)
    assume "ws_suffix s \<noteq> None"
    then obtain w where w: "ws_suffix s = Some w" by blast
    then have "w \<in> set ws_seqs" by (auto simp: ws_suffix_def dest: find_Some_mem)
    moreover obtain r where "s = r @ w" using ws_suffix_nonempty [OF w] by blast
    ultimately show False using graphic_no_ws [OF g] by auto
  qed
  then show ?thesis by (simp add: trim_str_def p trim_end.simps)
qed

lemma trim_graphic_newline:
  assumes "graphic s"
  shows "trim_str (s @ [CHR 0x0A]) = s"
proof (cases s)
  case Nil
  then show ?thesis by simp code_simp
next
  case (Cons c cs)
  have heads: "w \<in> set ws_seqs \<Longrightarrow> w \<noteq> [] \<and> \<not> (33 \<le> (of_char (hd w) :: nat) \<and> of_char (hd w) < (127 :: nat))" for w
    by (auto simp: ws_seqs_def)
  have "\<not> starts_with w (s @ [CHR 0x0A])" if "w \<in> set ws_seqs" for w
    using heads [OF that] assms by (cases w) (auto simp: Cons graphic_def starts_with_iff)
  then have "ws_prefix (s @ [CHR 0x0A]) = None" by (simp add: ws_prefix_def find_None_iff)
  then have p: "trim_start (s @ [CHR 0x0A]) = s @ [CHR 0x0A]" by (simp add: trim_start.simps)
  have "ws_suffix (s @ [CHR 0x0A]) = Some [CHR 0x0A]" by (simp add: ws_suffix_def ws_seqs_def starts_with_def)
  then have "trim_end (s @ [CHR 0x0A]) = trim_end s" by (simp add: trim_end.simps [of "s @ [CHR 0x0A]"])
  moreover have "trim_start s = s" "trim_str s = s"
    using trim_graphic [OF assms] trim_graphic_start [OF assms] by simp_all
  ultimately show ?thesis by (simp add: trim_str_def p)
qed

end
