(* ===== verification/Instance.thy ===== *)
theory Instance
  imports RustStr
begin

text \<open>
  \<open>src/runtime/instance.rs\<close> and the port constants of \<open>src/config.rs\<close>: typed
  instance ids and the one function that computes an instance's internal port.
  \<open>InstanceId\<close> wraps an \<open>i64\<close>; the model keeps the integer and the range is a
  hypothesis where it matters.
\<close>

section \<open>Ports of the container\<close>

definition web_port :: nat where "web_port = 9000"
definition socks5_port :: nat where "socks5_port = 11080"
definition http_port :: nat where "http_port = 18080"
definition first_warp_port :: nat where "first_warp_port = 40000"
definition max_instances :: nat where "max_instances = 65535 - first_warp_port"

definition reserved_ports :: "nat list" where
  "reserved_ports = [web_port, socks5_port, http_port]"

definition is_reserved_port :: "nat \<Rightarrow> bool" where
  "is_reserved_port p \<longleftrightarrow> p \<in> set reserved_ports"

lemmas port_defs =
  web_port_def socks5_port_def http_port_def first_warp_port_def max_instances_def
  reserved_ports_def is_reserved_port_def

section \<open>Instance ids\<close>

type_synonym instance_id = int

datatype instance_id_error = Negative int | OutOfRange int | Reserved int

fun show_id_error :: "instance_id_error \<Rightarrow> string" where
  "show_id_error (Negative v) = ''instance id must be >= 0, got '' @ show_int v"
| "show_id_error (OutOfRange v) =
     ''instance id '' @ show_int v @ '' out of range: internal port would exceed u16::MAX''"
| "show_id_error (Reserved v) = ''instance id '' @ show_int v @ '' collides with reserved port range''"

definition i64_max :: int where "i64_max = 9223372036854775807"

definition id_from_db :: "int \<Rightarrow> instance_id_error + instance_id" where
  "id_from_db v = (if v < 0 then Inl (Negative v) else Inr v)"

definition checked_add_i64 :: "int \<Rightarrow> int \<Rightarrow> int option" where
  "checked_add_i64 a b =
     (if - i64_max - 1 \<le> a + b \<and> a + b \<le> i64_max then Some (a + b) else None)"

text \<open>\<open>candidate as u16\<close> keeps the low 16 bits; the check before it makes that exact.\<close>

definition instance_port :: "instance_id \<Rightarrow> instance_id_error + port" where
  "instance_port i =
     (case checked_add_i64 (int first_warp_port) i of
        None \<Rightarrow> Inl (OutOfRange i)
      | Some c \<Rightarrow>
          if 65535 < c then Inl (OutOfRange i)
          else if is_reserved_port (unat (word_of_int c :: port)) then Inl (Reserved i)
          else Inr (word_of_int c))"

lemma instance_port_too_big:
  "int max_instances < i \<Longrightarrow> instance_port i = Inl (OutOfRange i)"
  by (auto simp: instance_port_def checked_add_i64_def i64_max_def port_defs)

lemma instance_port_valid:
  assumes "0 \<le> i" and "i \<le> int max_instances"
  shows "instance_port i = Inr (word_of_int (40000 + i))"
    and "unat (word_of_int (40000 + i) :: port) = nat (40000 + i)"
proof -
  show u: "unat (word_of_int (40000 + i) :: port) = nat (40000 + i)"
    using assms by (intro unat_port_of_int) (simp_all add: port_defs)
  show "instance_port i = Inr (word_of_int (40000 + i))"
    using assms u
    by (simp add: instance_port_def checked_add_i64_def i64_max_def port_defs nat_add_distrib
        del: of_int_add)
qed

lemma instance_port_inj:
  assumes "0 \<le> i" "0 \<le> j" "instance_port i = Inr p" "instance_port j = Inr p"
  shows "i = j"
proof -
  have "i \<le> int max_instances" "j \<le> int max_instances"
    using assms instance_port_too_big [of i] instance_port_too_big [of j] by force+
  then have "nat (40000 + i) = unat p" and "nat (40000 + j) = unat p"
    using assms instance_port_valid [of i] instance_port_valid [of j] by simp_all
  then have "nat (40000 + i) = nat (40000 + j)" by simp
  then show ?thesis using assms(1,2) by simp
qed

section \<open>Properties\<close>

text \<open>For every id the database can hold, \<open>instance_port\<close> succeeds exactly on
  \<open>0 .. MAX_INSTANCES\<close>; the port is then \<open>FIRST_WARP_PORT + id\<close> without wrap-around,
  never a reserved port, and different ids get different ports.\<close>

theorem instance_port_correct:
  assumes "id_from_db v = Inr i"
  shows "(i \<le> int max_instances \<longrightarrow>
           (\<exists>p. instance_port i = Inr p \<and> unat p = first_warp_port + nat i \<and>
                \<not> is_reserved_port (unat p))) \<and>
         (int max_instances < i \<longrightarrow> instance_port i = Inl (OutOfRange i)) \<and>
         (\<forall>j p. 0 \<le> j \<longrightarrow> instance_port i = Inr p \<longrightarrow> instance_port j = Inr p \<longrightarrow> i = j)"
proof -
  have i: "0 \<le> i"
    using assms by (auto simp: id_from_db_def split: if_splits)
  have "\<not> is_reserved_port (first_warp_port + nat i)"
    by (simp add: port_defs)
  with i instance_port_valid [of i] have "i \<le> int max_instances \<longrightarrow>
      (\<exists>p. instance_port i = Inr p \<and> unat p = first_warp_port + nat i \<and> \<not> is_reserved_port (unat p))"
    by (simp add: first_warp_port_def nat_add_distrib del: of_int_add)
  with i instance_port_too_big instance_port_inj show ?thesis by blast
qed

theorem instance_port_correct_witness:
  "id_from_db 7 = Inr 7 \<and> (\<exists>p. instance_port 7 = Inr p \<and> unat p = 40007)"
proof -
  have h: "id_from_db 7 = Inr 7" by (simp add: id_from_db_def)
  show ?thesis using instance_port_correct [OF h] h by (auto simp: port_defs)
qed

end
