(* ===== verification/Database.thy ===== *)
theory Database
  imports RustStr Instance
begin

text \<open>
  The SQLite tables of \<open>migrations/\<close> and what a statement can do to them. A table is the
  list of its rows in \<open>rowid\<close> order. The schema's constraints are checked by the operations
  that write: \<open>UNIQUE\<close> on profile names, the foreign keys from instances and secrets to
  profiles (\<open>db/mod.rs\<close> turns them on), and the cascade from a profile to its secrets. A new
  \<open>rowid\<close> is one more than the largest in use, which is what SQLite does for an
  \<open>INTEGER PRIMARY KEY\<close> that is not \<open>AUTOINCREMENT\<close>. Time stamps that no operation reads
  are left out.

  Any statement can fail for reasons outside the program (a full disk, a lock that is not
  released in time). The state carries the outcomes of the next statements: \<open>Some msg\<close> in
  \<open>st_faults\<close> makes a statement fail with that message; \<open>st_draws\<close> counts the random nonces
  and identifiers drawn, and \<open>st_trigger\<close> is the permit of the \<open>Notify\<close> that wakes the reconciler. An operation is a function from the
  state to a result and a new state; \<open>tx\<close> is a transaction, which restores the tables when
  its body or the commit fails.
\<close>

section \<open>Tables\<close>

record instance_row =
  wi_id :: int
  wi_name :: string
  wi_enabled :: int
  wi_desired :: string
  wi_auto :: int
  wi_profile :: "int option"
  wi_pending :: int
  wi_cmd :: int
  wi_observed :: int
  wi_last_failure :: "string option"
  wi_next_retry :: "string option"

record profile_row =
  ap_id :: int
  ap_name :: string
  ap_mode :: string
  ap_org :: "string option"

record secret_row =
  sr_kind :: string
  sr_profile :: "int option"
  sr_cipher :: bytes
  sr_nonce :: bytes
  sr_version :: int

record proxy_row =
  px_socks5 :: int
  px_http :: int
  px_auth :: int
  px_username :: "string option"
  px_allowed :: "string option"
  px_max_conn :: int
  px_max_rps :: int

record user_row =
  us_id :: int
  us_name :: string
  us_hash :: string

record session_row =
  se_id :: string
  se_user :: int
  se_csrf :: string
  se_expires :: string

record database =
  db_instances :: "instance_row list"
  db_profiles :: "profile_row list"
  db_secrets :: "secret_row list"
  db_proxy :: "proxy_row option"
  db_account :: "(string \<times> string option) option"
  db_users :: "user_row list"
  db_sessions :: "session_row list"

text \<open>The tables after the migrations: the built-in profile and nothing else.\<close>

definition db_migrated :: database where
  "db_migrated =
     \<lparr>db_instances = [], db_profiles = [\<lparr>ap_id = 1, ap_name = ''free'', ap_mode = ''free'', ap_org = None\<rparr>],
      db_secrets = [], db_proxy = None, db_account = None, db_users = [], db_sessions = []\<rparr>"

section \<open>Statements\<close>

datatype sql_error = SqlDatabase string string | SqlOther string

fun show_sql :: "sql_error \<Rightarrow> string" where
  "show_sql (SqlDatabase code msg) = ''error returned from database: (code: '' @ code @ '') '' @ msg"
| "show_sql (SqlOther msg) = msg"

definition unique_error :: "string \<Rightarrow> sql_error" where
  "unique_error col = SqlDatabase ''2067'' (''UNIQUE constraint failed: '' @ col)"

definition fk_error :: sql_error where
  "fk_error = SqlDatabase ''787'' ''FOREIGN KEY constraint failed''"

record store =
  st_db :: database
  st_faults :: "string option list"
  st_draws :: nat
  st_trigger :: bool

type_synonym ('e, 'a) op = "store \<Rightarrow> ('e + 'a) \<times> store"

definition stmt :: "(database \<Rightarrow> sql_error + 'a \<times> database) \<Rightarrow> (sql_error, 'a) op" where
  "stmt f s =
     (let s1 = s\<lparr>st_faults := tl (st_faults s)\<rparr>;
          go = (case f (st_db s) of Inl e \<Rightarrow> (Inl e, s1) | Inr (x, d) \<Rightarrow> (Inr x, s1\<lparr>st_db := d\<rparr>))
      in case st_faults s of Some msg # _ \<Rightarrow> (Inl (SqlOther msg), s1) | _ \<Rightarrow> go)"

definition select_stmt :: "(database \<Rightarrow> 'a) \<Rightarrow> (sql_error, 'a) op" where
  "select_stmt f = stmt (\<lambda>d. Inr (f d, d))"

section \<open>Sequencing\<close>

definition ret :: "'a \<Rightarrow> ('e, 'a) op" where
  "ret x s = (Inr x, s)"

definition raise :: "'e \<Rightarrow> ('e, 'a) op" where
  "raise e s = (Inl e, s)"

definition andthen :: "('e, 'a) op \<Rightarrow> ('a \<Rightarrow> ('e, 'b) op) \<Rightarrow> ('e, 'b) op" where
  "andthen m k s = (case m s of (Inl e, s1) \<Rightarrow> (Inl e, s1) | (Inr x, s1) \<Rightarrow> k x s1)"

definition mapping_err :: "('d \<Rightarrow> 'e) \<Rightarrow> ('d, 'a) op \<Rightarrow> ('e, 'a) op" where
  "mapping_err g m s = (case m s of (r, s1) \<Rightarrow> (map_err g r, s1))"

definition from_result :: "'e + 'a \<Rightarrow> ('e, 'a) op" where
  "from_result r s = (r, s)"

definition unwrap_or :: "'a \<Rightarrow> ('e, 'a) op \<Rightarrow> ('f, 'a) op" where
  "unwrap_or dflt m s = (case m s of (Inl _, s1) \<Rightarrow> (Inr dflt, s1) | (Inr x, s1) \<Rightarrow> (Inr x, s1))"

definition tx :: "(sql_error \<Rightarrow> 'e) \<Rightarrow> ('e, 'a) op \<Rightarrow> ('e, 'a) op" where
  "tx er body s =
     (case select_stmt (\<lambda>_. ()) s of
        (Inl e, s1) \<Rightarrow> (Inl (er e), s1)
      | (Inr _, s1) \<Rightarrow>
          (case body s1 of
             (Inl e, s2) \<Rightarrow> (Inl e, s2\<lparr>st_db := st_db s1\<rparr>)
           | (Inr x, s2) \<Rightarrow>
               (case select_stmt (\<lambda>_. ()) s2 of
                  (Inl e, s3) \<Rightarrow> (Inl (er e), s3\<lparr>st_db := st_db s1\<rparr>)
                | (Inr _, s3) \<Rightarrow> (Inr x, s3))))"

section \<open>Writing rows\<close>

definition next_rowid :: "int list \<Rightarrow> int" where
  "next_rowid ids = foldr max ids 0 + 1"

definition profile_exists :: "database \<Rightarrow> int option \<Rightarrow> bool" where
  "profile_exists d p = (case p of None \<Rightarrow> True | Some q \<Rightarrow> q \<in> ap_id ` set (db_profiles d))"

text \<open>\<open>INSERT INTO warp_instances (name, account_profile_id)\<close> with the schema's defaults.\<close>

definition default_instance :: "int \<Rightarrow> string \<Rightarrow> int option \<Rightarrow> instance_row" where
  "default_instance i name p =
     \<lparr>wi_id = i, wi_name = name, wi_enabled = 1, wi_desired = ''running'', wi_auto = 1,
      wi_profile = p, wi_pending = 0, wi_cmd = 0, wi_observed = 0,
      wi_last_failure = None, wi_next_retry = None\<rparr>"

definition insert_instance :: "string \<Rightarrow> int option \<Rightarrow> database \<Rightarrow> sql_error + int \<times> database" where
  "insert_instance name p d =
     (let i = next_rowid (List.map wi_id (db_instances d))
      in if profile_exists d p
         then Inr (i, d\<lparr>db_instances := db_instances d @ [default_instance i name p]\<rparr>)
         else Inl fk_error)"

text \<open>\<open>UPDATE warp_instances SET .. WHERE ..\<close>, with the foreign key checked; the result is the
  number of rows.\<close>

definition update_instances :: "(instance_row \<Rightarrow> bool) \<Rightarrow> (instance_row \<Rightarrow> instance_row) \<Rightarrow> database
    \<Rightarrow> sql_error + nat \<times> database" where
  "update_instances P f d =
     (let rows = List.map (\<lambda>r. if P r then f r else r) (db_instances d)
      in if list_all (\<lambda>r. profile_exists d (wi_profile r)) (List.map f (filter P (db_instances d)))
         then Inr (length (filter P (db_instances d)), d\<lparr>db_instances := rows\<rparr>)
         else Inl fk_error)"

definition delete_instances :: "(instance_row \<Rightarrow> bool) \<Rightarrow> database \<Rightarrow> sql_error + unit \<times> database" where
  "delete_instances P d = Inr ((), d\<lparr>db_instances := filter (\<lambda>r. \<not> P r) (db_instances d)\<rparr>)"

section \<open>Facts\<close>

lemma andthen_Inl [simp]: "m s = (Inl e, s1) \<Longrightarrow> andthen m k s = (Inl e, s1)"
  by (simp add: andthen_def)

lemma andthen_Inr [simp]: "m s = (Inr x, s1) \<Longrightarrow> andthen m k s = k x s1"
  by (simp add: andthen_def)

lemma andthen_eq_Inr:
  "andthen m k s = (Inr y, s') \<longleftrightarrow> (\<exists>x s1. m s = (Inr x, s1) \<and> k x s1 = (Inr y, s'))"
  by (auto simp: andthen_def split: prod.splits sum.splits)

lemma mapping_err_eq_Inr: "mapping_err g m s = (Inr y, s') \<longleftrightarrow> m s = (Inr y, s')"
  by (cases "m s"; cases "fst (m s)") (auto simp: mapping_err_def)

lemma case_option_op:
  "(case x of None \<Rightarrow> f | Some y \<Rightarrow> g y) s = r \<longleftrightarrow> x = None \<and> f s = r \<or> (\<exists>y. x = Some y \<and> g y s = r)"
  by (cases x) auto

lemma ret_simp [simp]: "ret x s = (Inr x, s)"
  by (simp add: ret_def)

lemma raise_simp [simp]: "raise e s = (Inl e, s)"
  by (simp add: raise_def)

lemma from_result_simp [simp]: "from_result r s = (r, s)"
  by (simp add: from_result_def)

lemma stmt_Inr:
  "stmt f s = (Inr x, s') \<Longrightarrow> \<exists>d. f (st_db s) = Inr (x, d) \<and> st_db s' = d \<and> st_draws s' = st_draws s"
  by (auto simp: stmt_def Let_def split: list.splits option.splits sum.splits prod.splits)

lemma stmt_Inl: "stmt f s = (Inl e, s') \<Longrightarrow> st_db s' = st_db s \<and> st_draws s' = st_draws s"
  by (auto simp: stmt_def Let_def split: list.splits option.splits sum.splits prod.splits)

lemma stmt_ok [simp]:
  "st_faults s = [] \<Longrightarrow> stmt f s =
     (case f (st_db s) of Inl e \<Rightarrow> (Inl e, s) | Inr (x, d) \<Rightarrow> (Inr x, s\<lparr>st_db := d\<rparr>))"
  by (simp add: stmt_def split: sum.splits prod.splits)

lemma select_ok [simp]: "st_faults s = [] \<Longrightarrow> select_stmt f s = (Inr (f (st_db s)), s)"
  by (simp add: select_stmt_def)

lemma select_db: "select_stmt f s = (r, s') \<Longrightarrow> st_db s' = st_db s"
  by (cases r) (auto simp: select_stmt_def dest: stmt_Inr stmt_Inl)

lemma select_Inr: "select_stmt f s = (Inr x, s') \<Longrightarrow> x = f (st_db s) \<and> st_db s' = st_db s \<and> st_draws s' = st_draws s"
  by (auto simp: select_stmt_def dest!: stmt_Inr)

text \<open>A transaction that does not succeed leaves the tables alone, whatever failed.\<close>

lemma tx_atomic: "tx er body s = (Inl e, s') \<Longrightarrow> st_db s' = st_db s"
  by (auto simp: tx_def dest!: select_db split: prod.splits sum.splits)

lemma tx_Inr:
  assumes "tx er body s = (Inr x, s')"
  obtains s1 s2 where "body s1 = (Inr x, s2)" "st_db s1 = st_db s" "st_db s' = st_db s2"
    "st_draws s1 = st_draws s" "st_draws s' = st_draws s2"
  using assms
  by (auto simp: tx_def dest!: select_Inr split: prod.splits sum.splits)

lemma tx_ok [simp]:
  "st_faults s = [] \<Longrightarrow> tx er body s =
     (case body s of
        (Inl e, s2) \<Rightarrow> (Inl e, s2\<lparr>st_db := st_db s\<rparr>)
      | (Inr x, s2) \<Rightarrow> (case select_stmt (\<lambda>_. ()) s2 of
            (Inl e, s3) \<Rightarrow> (Inl (er e), s3\<lparr>st_db := st_db s\<rparr>)
          | (Inr _, s3) \<Rightarrow> (Inr x, s3)))"
  by (simp add: tx_def split: prod.splits sum.splits)

section \<open>Triples\<close>

text \<open>\<open>triple P m Q E\<close>: from tables that satisfy \<open>P\<close>, the operation ends well with \<open>Q\<close> of its
  result and the tables, or with an error and tables that satisfy \<open>E\<close>, whatever faults occur.\<close>

definition triple :: "(database \<Rightarrow> bool) \<Rightarrow> ('e, 'a) op \<Rightarrow> ('a \<Rightarrow> database \<Rightarrow> bool) \<Rightarrow> (database \<Rightarrow> bool) \<Rightarrow> bool" where
  "triple P m Q E \<longleftrightarrow>
     (\<forall>s. P (st_db s) \<longrightarrow>
        (case m s of (Inl _, s') \<Rightarrow> E (st_db s') | (Inr x, s') \<Rightarrow> Q x (st_db s')))"

definition keeps :: "(database \<Rightarrow> bool) \<Rightarrow> ('e, 'a) op \<Rightarrow> bool" where
  "keeps I m \<longleftrightarrow> triple I m (\<lambda>_. I) I"

lemma tripleI:
  assumes "\<And>s x s'. P (st_db s) \<Longrightarrow> m s = (Inr x, s') \<Longrightarrow> Q x (st_db s')"
    and "\<And>s e s'. P (st_db s) \<Longrightarrow> m s = (Inl e, s') \<Longrightarrow> E (st_db s')"
  shows "triple P m Q E"
  using assms by (auto simp: triple_def split: prod.splits sum.splits)

lemma triple_Inr: "triple P m Q E \<Longrightarrow> P (st_db s) \<Longrightarrow> m s = (Inr x, s') \<Longrightarrow> Q x (st_db s')"
  by (drule spec [of _ s, OF triple_def [THEN iffD1]]) simp

lemma triple_Inl: "triple P m Q E \<Longrightarrow> P (st_db s) \<Longrightarrow> m s = (Inl e, s') \<Longrightarrow> E (st_db s')"
  by (drule spec [of _ s, OF triple_def [THEN iffD1]]) simp

lemma triple_ret [inv_intros]: "(\<And>d. P d \<Longrightarrow> Q x d) \<Longrightarrow> triple P (ret x) Q E"
  by (simp add: triple_def)

lemma triple_raise [inv_intros]: "(\<And>d. P d \<Longrightarrow> E d) \<Longrightarrow> triple P (raise e) Q E"
  by (simp add: triple_def)

lemma triple_from_result [inv_intros]:
  "(\<And>d x. P d \<Longrightarrow> r = Inr x \<Longrightarrow> Q x d) \<Longrightarrow> (\<And>d e. P d \<Longrightarrow> r = Inl e \<Longrightarrow> E d) \<Longrightarrow> triple P (from_result r) Q E"
  by (cases r) (simp_all add: triple_def)

lemma triple_stmt [inv_intros]:
  assumes "\<And>d x d'. P d \<Longrightarrow> f d = Inr (x, d') \<Longrightarrow> Q x d'" and "\<And>d. P d \<Longrightarrow> E d"
  shows "triple P (stmt f) Q E"
  using assms by (intro tripleI) (auto dest!: stmt_Inr stmt_Inl)

lemma triple_select [inv_intros]:
  "(\<And>d. P d \<Longrightarrow> Q (f d) d) \<Longrightarrow> (\<And>d. P d \<Longrightarrow> E d) \<Longrightarrow> triple P (select_stmt f) Q E"
  by (auto simp: select_stmt_def intro: triple_stmt)

lemma triple_mapping_err [inv_intros]: "triple P m Q E \<Longrightarrow> triple P (mapping_err g m) Q E"
  by (rule tripleI)
     (auto simp: mapping_err_def map_err_def split: prod.splits sum.splits dest: triple_Inr triple_Inl)

lemma triple_unwrap_or:
  "triple P m Q E \<Longrightarrow> (\<And>d. E d \<Longrightarrow> Q dflt d) \<Longrightarrow> triple P (unwrap_or dflt m) Q F"
  by (rule tripleI)
     (auto simp: unwrap_or_def split: prod.splits sum.splits dest: triple_Inr triple_Inl)

lemma triple_andthen:
  assumes "triple P m R E" and "\<And>x. triple (R x) (k x) Q E"
  shows "triple P (andthen m k) Q E"
  using assms
  by (intro tripleI)
     (auto simp: andthen_def split: prod.splits sum.splits dest: triple_Inr triple_Inl)

lemma triple_tx:
  assumes "triple P body Q (\<lambda>_. True)" and "\<And>d. P d \<Longrightarrow> E d"
  shows "triple P (tx er body) Q E"
proof (rule tripleI)
  fix s :: store and x s'
  assume P: "P (st_db s)" and t: "tx er body s = (Inr x, s')"
  from t obtain s1 s2 where "body s1 = (Inr x, s2)" "st_db s1 = st_db s" "st_db s' = st_db s2"
    by (elim tx_Inr)
  with P triple_Inr [OF assms(1), of s1 x s2] show "Q x (st_db s')" by simp
qed (simp add: assms(2) tx_atomic)

lemma triple_conseq:
  "triple P' m Q' E' \<Longrightarrow> (\<And>d. P d \<Longrightarrow> P' d) \<Longrightarrow> (\<And>x d. Q' x d \<Longrightarrow> Q x d) \<Longrightarrow> (\<And>d. E' d \<Longrightarrow> E d)
     \<Longrightarrow> triple P m Q E"
  by (rule tripleI) (blast dest: triple_Inr triple_Inl)+

lemma triple_conj_pure: "triple P m Q E \<Longrightarrow> triple (\<lambda>d. P d \<and> b) m (\<lambda>x d. Q x d \<and> b) E"
  by (rule tripleI) (auto dest: triple_Inr triple_Inl)

lemma keepsI: "triple I m (\<lambda>_. I) I \<Longrightarrow> keeps I m"
  by (simp add: keeps_def)

lemma keepsD: "keeps I m \<Longrightarrow> I (st_db s) \<Longrightarrow> I (st_db (snd (m s)))"
  by (cases "m s"; cases "fst (m s)") (auto simp: keeps_def dest: triple_Inr triple_Inl)

lemma keeps_andthen [inv_intros]: "keeps I m \<Longrightarrow> (\<And>x. keeps I (k x)) \<Longrightarrow> keeps I (andthen m k)"
  unfolding keeps_def by (rule triple_andthen)

lemma keeps_tx [inv_intros]: "keeps I m \<Longrightarrow> keeps I (tx er m)"
  unfolding keeps_def by (rule triple_tx) (auto elim: triple_conseq)

lemma keeps_mapping_err [inv_intros]: "keeps I m \<Longrightarrow> keeps I (mapping_err g m)"
  unfolding keeps_def by (rule triple_mapping_err)

lemma keeps_unwrap_or [inv_intros]: "keeps I m \<Longrightarrow> keeps I (unwrap_or dflt m)"
  unfolding keeps_def by (rule triple_unwrap_or)

lemma keeps_simple [inv_intros]:
  "keeps I (ret x)" "keeps I (raise e)" "keeps I (from_result r)" "keeps I (select_stmt f)"
  unfolding keeps_def by (auto intro: inv_intros)

lemma keeps_stmt [inv_intros]: "(\<And>d x d'. I d \<Longrightarrow> f d = Inr (x, d') \<Longrightarrow> I d') \<Longrightarrow> keeps I (stmt f)"
  unfolding keeps_def by (rule triple_stmt) auto

section \<open>Row numbers\<close>

lemma foldr_max_ge: "i \<in> set ids \<Longrightarrow> i \<le> foldr max ids (0 :: int)"
  by (induction ids) auto

lemma next_rowid_fresh: "i \<in> set ids \<Longrightarrow> i < next_rowid ids"
  using foldr_max_ge [of i ids] by (simp add: next_rowid_def)

lemma next_rowid_pos: "0 < next_rowid ids"
  by (induction ids) (auto simp: next_rowid_def)

end
