(* ===== verification/Repo.thy ===== *)
theory Repo
  imports Database
begin

text \<open>
  \<open>src/db/repo.rs\<close>: desired state. Instances and the proxy configuration as the database
  keeps them, and the operations of \<open>WarpInstanceRepository\<close> and
  \<open>ProxyConfigRepository\<close> on the tables of \<open>Database\<close>.
\<close>

section \<open>Desired state\<close>

datatype desired_state = DesiredRunning | DesiredStopped

fun desired_str :: "desired_state \<Rightarrow> string" where
  "desired_str DesiredRunning = ''running''"
| "desired_str DesiredStopped = ''stopped''"

definition desired_parse :: "string \<Rightarrow> string + desired_state" where
  "desired_parse v =
     (if v = ''running'' then Inr DesiredRunning
      else if v = ''stopped'' then Inr DesiredStopped
      else Inl (''invalid desired state `'' @ v @ ''`''))"

record instance_spec =
  sp_id :: instance_id
  sp_name :: string
  sp_enabled :: bool
  sp_desired :: desired_state
  sp_auto_restart :: bool
  sp_profile :: "int option"
  sp_restart_pending :: bool
  sp_command_gen :: int
  sp_observed_gen :: int
  sp_last_failure :: "string option"
  sp_next_retry :: "string option"

definition should_run :: "instance_spec \<Rightarrow> bool" where
  "should_run sp \<longleftrightarrow> sp_enabled sp \<and> sp_desired sp = DesiredRunning"

datatype repo_error = RepoDb string | CorruptDesiredState string | ProfileAlreadyBound int

definition repo_sql :: "sql_error \<Rightarrow> repo_error" where
  "repo_sql e = RepoDb (show_sql e)"

definition row_to_spec :: "instance_row \<Rightarrow> repo_error + instance_spec" where
  "row_to_spec r =
     (case desired_parse (wi_desired r) of
        Inl e \<Rightarrow> Inl (CorruptDesiredState (''id='' @ show_int (wi_id r) @ '': '' @ e))
      | Inr ds \<Rightarrow>
          (case id_from_db (wi_id r) of
             Inl e \<Rightarrow> Inl (RepoDb (show_id_error e))
           | Inr i \<Rightarrow> Inr
               \<lparr>sp_id = i, sp_name = wi_name r, sp_enabled = (wi_enabled r \<noteq> 0), sp_desired = ds,
                sp_auto_restart = (wi_auto r \<noteq> 0), sp_profile = wi_profile r,
                sp_restart_pending = (wi_pending r \<noteq> 0), sp_command_gen = wi_cmd r,
                sp_observed_gen = wi_observed r, sp_last_failure = wi_last_failure r,
                sp_next_retry = wi_next_retry r\<rparr>))"

section \<open>Instances\<close>

definition find_instance :: "database \<Rightarrow> int \<Rightarrow> instance_row option" where
  "find_instance d i = find (\<lambda>r. wi_id r = i) (db_instances d)"

definition repo_get :: "instance_id \<Rightarrow> (repo_error, instance_spec option) op" where
  "repo_get i =
     andthen (mapping_err repo_sql (select_stmt (\<lambda>d. find_instance d i)))
       (\<lambda>row. from_result (case row of None \<Rightarrow> Inr None | Some r \<Rightarrow> map_sum id Some (row_to_spec r)))"

text \<open>\<open>rows.iter().map(row_to_spec).collect()\<close> stops at the first bad row.\<close>

fun collect_specs :: "instance_row list \<Rightarrow> repo_error + instance_spec list" where
  "collect_specs [] = Inr []"
| "collect_specs (r # rs) =
     bind_res (row_to_spec r) (\<lambda>sp. bind_res (collect_specs rs) (\<lambda>sps. Inr (sp # sps)))"

definition repo_list :: "(repo_error, instance_spec list) op" where
  "repo_list =
     andthen (mapping_err repo_sql (select_stmt db_instances)) (\<lambda>rows. from_result (collect_specs rows))"

definition insert_row :: "string \<Rightarrow> int option \<Rightarrow> (repo_error, int) op" where
  "insert_row name p = mapping_err repo_sql (stmt (insert_instance name p))"

definition repo_create :: "string \<Rightarrow> int option \<Rightarrow> (repo_error, instance_spec) op" where
  "repo_create name p =
     andthen (insert_row name p)
       (\<lambda>i. andthen (from_result (map_err (\<lambda>e. RepoDb (show_id_error e)) (id_from_db i)))
       (\<lambda>i. andthen (repo_get i)
       (\<lambda>r. from_result (ok_or (RepoDb ''row vanished after insert'') r))))"

definition update_where :: "(instance_row \<Rightarrow> bool) \<Rightarrow> (instance_row \<Rightarrow> instance_row) \<Rightarrow> (repo_error, nat) op" where
  "update_where P f = mapping_err repo_sql (stmt (update_instances P f))"

definition update_id :: "instance_id \<Rightarrow> (instance_row \<Rightarrow> instance_row) \<Rightarrow> (repo_error, unit) op" where
  "update_id i f = andthen (update_where (\<lambda>r. wi_id r = i) f) (\<lambda>_. ret ())"

definition repo_set_desired :: "instance_id \<Rightarrow> bool \<Rightarrow> desired_state \<Rightarrow> (repo_error, unit) op" where
  "repo_set_desired i enabled ds =
     update_id i (\<lambda>r. r\<lparr>wi_enabled := (if enabled then 1 else 0), wi_desired := desired_str ds\<rparr>)"

definition repo_delete :: "instance_id \<Rightarrow> (repo_error, unit) op" where
  "repo_delete i = mapping_err repo_sql (stmt (delete_instances (\<lambda>r. wi_id r = i)))"

definition repo_record_backoff :: "instance_id \<Rightarrow> string \<Rightarrow> string option \<Rightarrow> (repo_error, unit) op" where
  "repo_record_backoff i last_at next_at =
     update_id i (\<lambda>r. r\<lparr>wi_last_failure := Some last_at, wi_next_retry := next_at\<rparr>)"

definition repo_clear_backoff :: "instance_id \<Rightarrow> (repo_error, unit) op" where
  "repo_clear_backoff i = update_id i (\<lambda>r. r\<lparr>wi_last_failure := None, wi_next_retry := None\<rparr>)"

definition repo_mark_restart_pending :: "int \<Rightarrow> (repo_error, nat) op" where
  "repo_mark_restart_pending p =
     update_where (\<lambda>r. wi_profile r = Some p \<and> wi_enabled r = 1 \<and> wi_desired r = ''running'')
       (\<lambda>r. r\<lparr>wi_pending := 1\<rparr>)"

definition repo_clear_restart_pending :: "instance_id \<Rightarrow> (repo_error, unit) op" where
  "repo_clear_restart_pending i = update_id i (\<lambda>r. r\<lparr>wi_pending := 0\<rparr>)"

definition repo_rebind_profile :: "instance_id \<Rightarrow> int option \<Rightarrow> (repo_error, unit) op" where
  "repo_rebind_profile i p = update_id i (\<lambda>r. r\<lparr>wi_profile := p, wi_pending := 1\<rparr>)"

definition bound_count :: "(instance_row \<Rightarrow> bool) \<Rightarrow> int \<Rightarrow> database \<Rightarrow> nat" where
  "bound_count P p d = length (filter (\<lambda>r. wi_profile r = Some p \<and> P r) (db_instances d))"

definition repo_count_bound :: "int \<Rightarrow> (repo_error, nat) op" where
  "repo_count_bound p = mapping_err repo_sql (select_stmt (bound_count (\<lambda>_. True) p))"

text \<open>\<open>UPDATE .. RETURNING restart_command_generation\<close>; no row gives 0.\<close>

definition repo_request_restart :: "instance_id \<Rightarrow> (repo_error, int) op" where
  "repo_request_restart i =
     mapping_err repo_sql
       (stmt (\<lambda>d. bind_res (update_instances (\<lambda>r. wi_id r = i) (\<lambda>r. r\<lparr>wi_cmd := wi_cmd r + 1\<rparr>) d)
          (\<lambda>(_, d'). Inr (case find_instance d' i of None \<Rightarrow> 0 | Some r \<Rightarrow> wi_cmd r, d'))))"

definition repo_acknowledge_restart :: "instance_id \<Rightarrow> int \<Rightarrow> (repo_error, unit) op" where
  "repo_acknowledge_restart i g = update_id i (\<lambda>r. r\<lparr>wi_observed := max (wi_observed r) g\<rparr>)"

section \<open>Guarded binding\<close>

definition find_profile :: "database \<Rightarrow> int \<Rightarrow> profile_row option" where
  "find_profile d p = find (\<lambda>r. ap_id r = p) (db_profiles d)"

definition ensure_warp_plus_bindable :: "int option \<Rightarrow> int option \<Rightarrow> (repo_error, unit) op" where
  "ensure_warp_plus_bindable p excl =
     (case p of
        None \<Rightarrow> ret ()
      | Some pid \<Rightarrow>
          andthen (mapping_err repo_sql (select_stmt (\<lambda>d. map_option ap_mode (find_profile d pid))))
            (\<lambda>mode. if mode \<noteq> Some ''warp_plus'' then ret ()
               else andthen (mapping_err repo_sql (select_stmt
                      (bound_count (\<lambda>r. case excl of None \<Rightarrow> True | Some self \<Rightarrow> wi_id r \<noteq> self) pid)))
                 (\<lambda>bound. if 0 < bound then raise (ProfileAlreadyBound pid) else ret ())))"

definition repo_rebind_profile_guarded :: "instance_id \<Rightarrow> int option \<Rightarrow> (repo_error, unit) op" where
  "repo_rebind_profile_guarded i p =
     tx repo_sql (andthen (ensure_warp_plus_bindable p (Some i)) (\<lambda>_. repo_rebind_profile i p))"

text \<open>The row is read back inside the transaction, and a row that does not decode does not stop
  the commit.\<close>

definition repo_create_guarded :: "string \<Rightarrow> int option \<Rightarrow> (repo_error, instance_spec) op" where
  "repo_create_guarded name p =
     andthen
       (tx repo_sql
          (andthen (ensure_warp_plus_bindable p None)
            (\<lambda>_. andthen (insert_row name p)
            (\<lambda>i. andthen (mapping_err repo_sql (select_stmt (\<lambda>d. find_instance d i)))
            (\<lambda>row. ret (bind_res (ok_or (RepoDb ''row vanished after insert'') row) row_to_spec))))))
       from_result"

section \<open>Proxy configuration\<close>

record proxy_config =
  pc_socks5 :: bool
  pc_http :: bool
  pc_auth :: bool
  pc_username :: "string option"
  pc_allowed_ips :: "string list"
  pc_max_connections :: "nat option"
  pc_max_rps :: "nat option"

definition proxy_default_enabled :: proxy_config where
  "proxy_default_enabled =
     \<lparr>pc_socks5 = True, pc_http = True, pc_auth = False, pc_username = None, pc_allowed_ips = [],
      pc_max_connections = None, pc_max_rps = None\<rparr>"

text \<open>\<open>Some(v as u32).filter(|&v| v != 0)\<close>\<close>

definition stored_limit :: "int \<Rightarrow> nat option" where
  "stored_limit v = (let n = nat (v mod 2 ^ 32) in if n \<noteq> 0 then Some n else None)"

definition split_allowed :: "string \<Rightarrow> string list" where
  "split_allowed s = filter (\<lambda>p. p \<noteq> []) (List.map trim_str (split_on (CHR '','') s))"

definition row_to_proxy_config :: "proxy_row \<Rightarrow> proxy_config" where
  "row_to_proxy_config r =
     \<lparr>pc_socks5 = (px_socks5 r \<noteq> 0), pc_http = (px_http r \<noteq> 0), pc_auth = (px_auth r \<noteq> 0),
      pc_username = px_username r,
      pc_allowed_ips = (case px_allowed r of None \<Rightarrow> [] | Some s \<Rightarrow> split_allowed s),
      pc_max_connections = stored_limit (px_max_conn r), pc_max_rps = stored_limit (px_max_rps r)\<rparr>"

definition limit_column :: "nat option \<Rightarrow> int" where
  "limit_column l = (case l of None \<Rightarrow> 0 | Some n \<Rightarrow> int n)"

definition proxy_config_row :: "proxy_config \<Rightarrow> proxy_row" where
  "proxy_config_row c =
     \<lparr>px_socks5 = (if pc_socks5 c then 1 else 0), px_http = (if pc_http c then 1 else 0),
      px_auth = (if pc_auth c then 1 else 0), px_username = pc_username c,
      px_allowed = (if pc_allowed_ips c = [] then None else Some (join_with '','' (pc_allowed_ips c))),
      px_max_conn = limit_column (pc_max_connections c), px_max_rps = limit_column (pc_max_rps c)\<rparr>"

definition proxy_repo_get :: "(repo_error, proxy_config) op" where
  "proxy_repo_get =
     andthen (mapping_err repo_sql (select_stmt db_proxy))
       (\<lambda>row. ret (case row of Some r \<Rightarrow> row_to_proxy_config r | None \<Rightarrow> proxy_default_enabled))"

definition upsert_proxy :: "proxy_config \<Rightarrow> database \<Rightarrow> sql_error + unit \<times> database" where
  "upsert_proxy c d = Inr ((), d\<lparr>db_proxy := Some (proxy_config_row c)\<rparr>)"

definition proxy_repo_update :: "proxy_config \<Rightarrow> (repo_error, unit) op" where
  "proxy_repo_update c = mapping_err repo_sql (stmt (upsert_proxy c))"

section \<open>Invariants\<close>

text \<open>What the schema and the operations keep: distinct ids, references that resolve, states the
  parser accepts, and a restart counter that the acknowledged one never passes.\<close>

definition desired_valid :: "string \<Rightarrow> bool" where
  "desired_valid v \<longleftrightarrow> v \<in> {''running'', ''stopped''}"

definition db_wf :: "database \<Rightarrow> bool" where
  "db_wf d \<longleftrightarrow>
     distinct (List.map wi_id (db_instances d)) \<and> distinct (List.map ap_id (db_profiles d)) \<and>
     list_all (\<lambda>r. 0 < wi_id r \<and> desired_valid (wi_desired r) \<and>
                   profile_exists d (wi_profile r)) (db_instances d)"

definition warp_plus_single :: "database \<Rightarrow> bool" where
  "warp_plus_single d \<longleftrightarrow>
     list_all (\<lambda>p. ap_mode p = ''warp_plus'' \<longrightarrow> bound_count (\<lambda>_. True) (ap_id p) d \<le> 1) (db_profiles d)"

definition desired_ok :: "database \<Rightarrow> bool" where
  "desired_ok d \<longleftrightarrow> db_wf d \<and> warp_plus_single d"

lemma profile_exists_upd [simp]: "profile_exists (d\<lparr>db_instances := x\<rparr>) p = profile_exists d p"
  by (simp add: profile_exists_def split: option.splits)

lemma update_instances_Inr:
  "update_instances P f d = Inr (n, d') \<longleftrightarrow>
     (\<forall>r\<in>set (db_instances d). P r \<longrightarrow> profile_exists d (wi_profile (f r))) \<and>
     n = length (filter P (db_instances d)) \<and>
     d' = d\<lparr>db_instances := List.map (\<lambda>r. if P r then f r else r) (db_instances d)\<rparr>"
  by (auto simp: update_instances_def Let_def list_all_iff)

lemma update_keeps_wf:
  assumes "db_wf d" "update_instances P f d = Inr (n, d')"
    and "\<And>r. wi_id (f r) = wi_id r"
    and "\<And>r. desired_valid (wi_desired r) \<Longrightarrow> desired_valid (wi_desired (f r))"
  shows "db_wf d'"
proof -
  have "wi_id \<circ> (\<lambda>r. if P r then f r else r) = wi_id" using assms(3) by auto
  with assms show ?thesis by (auto simp: db_wf_def update_instances_Inr list_all_iff)
qed

lemma filter_map_profile_le:
  assumes "\<And>r. P r \<Longrightarrow> wi_profile (f r) = Some q \<Longrightarrow> wi_profile r = Some q"
  shows "length (filter (\<lambda>r. wi_profile r = Some q) (List.map (\<lambda>r. if P r then f r else r) rs))
         \<le> length (filter (\<lambda>r. wi_profile r = Some q) rs)"
  using assms by (induction rs) (auto simp: le_SucI)

lemma filter_rebind_count:
  assumes "distinct (List.map wi_id rs)" and "\<And>r. wi_profile (f r) = Some q"
  shows "length (filter (\<lambda>r. wi_profile r = Some q) (List.map (\<lambda>r. if wi_id r = i then f r else r) rs))
         \<le> Suc (length (filter (\<lambda>r. wi_profile r = Some q \<and> wi_id r \<noteq> i) rs))"
proof -
  have same: "List.map (\<lambda>r. if wi_id r = i then f r else r) xs = xs"
    "filter (\<lambda>r. wi_profile r = Some q \<and> wi_id r \<noteq> i) xs = filter (\<lambda>r. wi_profile r = Some q) xs"
    if "i \<notin> wi_id ` set xs" for xs
    using that by (induction xs) auto
  show ?thesis using assms(1)
  proof (induction rs)
    case (Cons r rs)
    show ?case
    proof (cases "wi_id r = i")
      case True
      with Cons.prems have "i \<notin> wi_id ` set rs" by auto
      from same [OF this] True assms(2) show ?thesis by simp
    qed (use Cons in auto)
  qed simp
qed

lemma update_keeps_single:
  assumes "warp_plus_single d" "update_instances P f d = Inr (n, d')"
    and "\<And>r q. P r \<Longrightarrow> wi_profile (f r) = Some q \<Longrightarrow> wi_profile r = Some q"
  shows "warp_plus_single d'"
  using assms filter_map_profile_le [of P f _ "db_instances d"]
  by (fastforce simp: warp_plus_single_def update_instances_Inr list_all_iff bound_count_def
      intro: order_trans)

text \<open>An update that leaves ids and bindings alone keeps everything.\<close>

lemma update_where_keeps:
  assumes "\<And>r. wi_id (f r) = wi_id r"
    and "\<And>r q. wi_profile (f r) = Some q \<Longrightarrow> wi_profile r = Some q"
    and "\<And>r. desired_valid (wi_desired r) \<Longrightarrow> desired_valid (wi_desired (f r))"
  shows "keeps desired_ok (update_where P f)"
  unfolding update_where_def
proof (intro inv_intros)
  fix d x d'
  assume d: "desired_ok d" and u: "update_instances P f d = Inr (x, d')"
  from d u assms have "db_wf d'" by (auto simp: desired_ok_def intro: update_keeps_wf)
  moreover from d u assms(2) have "warp_plus_single d'"
    by (auto simp: desired_ok_def intro: update_keeps_single)
  ultimately show "desired_ok d'" by (simp add: desired_ok_def)
qed

lemma update_id_keeps:
  assumes "\<And>r. wi_id (f r) = wi_id r"
    and "\<And>r q. wi_profile (f r) = Some q \<Longrightarrow> wi_profile r = Some q"
    and "\<And>r. desired_valid (wi_desired r) \<Longrightarrow> desired_valid (wi_desired (f r))"
  shows "keeps desired_ok (update_id i f)"
  unfolding update_id_def
proof (rule keeps_andthen)
  show "keeps desired_ok (update_where (\<lambda>r. wi_id r = i) f)"
    by (rule update_where_keeps) (fact assms)+
qed (rule keeps_simple)

lemma desired_str_valid [simp]: "desired_valid (desired_str ds)"
  by (cases ds) (auto simp: desired_valid_def)

lemma repo_updates_keep [inv_intros]:
  "keeps desired_ok (repo_set_desired i en ds)"
  "keeps desired_ok (repo_record_backoff i a b)"
  "keeps desired_ok (repo_clear_backoff i)"
  "keeps desired_ok (repo_mark_restart_pending p)"
  "keeps desired_ok (repo_clear_restart_pending i)"
  "keeps desired_ok (repo_acknowledge_restart i g)"
  unfolding repo_set_desired_def repo_record_backoff_def repo_clear_backoff_def
    repo_mark_restart_pending_def repo_clear_restart_pending_def repo_acknowledge_restart_def
  by (intro update_id_keeps update_where_keeps; simp)+

lemma repo_reads_keep [inv_intros]:
  "keeps I (repo_get i)" "keeps I repo_list" "keeps I (repo_count_bound p)" "keeps I proxy_repo_get"
  unfolding repo_get_def repo_list_def repo_count_bound_def proxy_repo_get_def
  by (intro inv_intros)+

lemma repo_request_restart_keeps [inv_intros]: "keeps desired_ok (repo_request_restart i)"
  unfolding repo_request_restart_def
proof (intro inv_intros)
  fix d x d'
  assume d: "desired_ok d"
    and "bind_res (update_instances (\<lambda>r. wi_id r = i) (\<lambda>r. r\<lparr>wi_cmd := wi_cmd r + 1\<rparr>) d)
      (\<lambda>(_, d'). Inr (case find_instance d' i of None \<Rightarrow> 0 | Some r \<Rightarrow> wi_cmd r, d')) = Inr (x, d')"
  then obtain n where u: "update_instances (\<lambda>r. wi_id r = i) (\<lambda>r. r\<lparr>wi_cmd := wi_cmd r + 1\<rparr>) d = Inr (n, d')"
    by (auto simp: bind_res_eq_Inr)
  from d have "db_wf d" "warp_plus_single d" by (simp_all add: desired_ok_def)
  with u show "desired_ok d'"
    by (auto simp: desired_ok_def intro: update_keeps_wf [OF _ u] update_keeps_single [OF _ u])
qed

lemma repo_delete_keeps [inv_intros]: "keeps desired_ok (repo_delete i)"
  unfolding repo_delete_def
proof (intro inv_intros)
  fix d x d'
  assume d: "desired_ok d" and "delete_instances (\<lambda>r. wi_id r = i) d = Inr (x, d')"
  then have d': "d' = d\<lparr>db_instances := filter (\<lambda>r. wi_id r \<noteq> i) (db_instances d)\<rparr>"
    by (simp add: delete_instances_def)
  have "bound_count P q d' \<le> bound_count P q d" for P q
  proof -
    have "length (filter (\<lambda>r. wi_profile r = Some q \<and> P r) (filter (\<lambda>r. wi_id r \<noteq> i) rs))
        \<le> length (filter (\<lambda>r. wi_profile r = Some q \<and> P r) rs)" for rs
      by (induction rs) auto
    then show ?thesis by (simp add: d' bound_count_def)
  qed
  with d have "warp_plus_single d'"
    by (fastforce simp: desired_ok_def warp_plus_single_def list_all_iff d' intro: order_trans)
  moreover from d have "db_wf d'"
    by (auto simp: d' desired_ok_def db_wf_def list_all_iff distinct_map inj_on_def)
  ultimately show "desired_ok d'" by (simp add: desired_ok_def)
qed

lemma find_profile_mem:
  assumes "db_wf d" "pr \<in> set (db_profiles d)"
  shows "find_profile d (ap_id pr) = Some pr"
proof -
  have "distinct (List.map ap_id rs) \<Longrightarrow> pr \<in> set rs \<Longrightarrow> find (\<lambda>r. ap_id r = ap_id pr) rs = Some pr" for rs
    by (induction rs) auto
  with assms show ?thesis by (simp add: db_wf_def find_profile_def)
qed

lemma rebind_keeps_single:
  assumes d: "desired_ok d"
    and u: "update_instances (\<lambda>r. wi_id r = i) (\<lambda>r. r\<lparr>wi_profile := p, wi_pending := 1\<rparr>) d = Inr (n, d')"
    and free: "\<And>q. p = Some q \<Longrightarrow> map_option ap_mode (find_profile d q) = Some ''warp_plus''
                 \<Longrightarrow> bound_count (\<lambda>r. wi_id r \<noteq> i) q d = 0"
  shows "warp_plus_single d'"
  unfolding warp_plus_single_def list_all_iff
proof (intro ballI impI)
  fix pr
  assume "pr \<in> set (db_profiles d')" and wp: "ap_mode pr = ''warp_plus''"
  from u have d': "d' = d\<lparr>db_instances := List.map (\<lambda>r. if wi_id r = i then r\<lparr>wi_profile := p, wi_pending := 1\<rparr> else r)
      (db_instances d)\<rparr>"
    by (simp add: update_instances_Inr)
  with \<open>pr \<in> set (db_profiles d')\<close> have pr: "pr \<in> set (db_profiles d)" by simp
  show "bound_count (\<lambda>_. True) (ap_id pr) d' \<le> 1"
  proof (cases "p = Some (ap_id pr)")
    case True
    have "find_profile d (ap_id pr) = Some pr"
      using d pr by (simp add: desired_ok_def find_profile_mem)
    with True free wp have "bound_count (\<lambda>r. wi_id r \<noteq> i) (ap_id pr) d = 0" by simp
    moreover have "distinct (List.map wi_id (db_instances d))" using d by (simp add: desired_ok_def db_wf_def)
    ultimately show ?thesis
      using filter_rebind_count [of "db_instances d" "\<lambda>r. r\<lparr>wi_profile := p, wi_pending := 1\<rparr>" "ap_id pr" i] True
      by (simp add: bound_count_def d')
  next
    case False
    have "warp_plus_single d" using d by (simp add: desired_ok_def)
    with pr wp have "bound_count (\<lambda>_. True) (ap_id pr) d \<le> 1"
      by (simp add: warp_plus_single_def list_all_iff)
    with False filter_map_profile_le [of "\<lambda>r. wi_id r = i" "\<lambda>r. r\<lparr>wi_profile := p, wi_pending := 1\<rparr>" "ap_id pr" "db_instances d"]
    show ?thesis by (simp add: bound_count_def d')
  qed
qed

text \<open>What the guard establishes, for as long as the tables stay as they are.\<close>

definition bindable :: "int option \<Rightarrow> int option \<Rightarrow> database \<Rightarrow> bool" where
  "bindable p excl d \<longleftrightarrow>
     (\<forall>q. p = Some q \<longrightarrow> map_option ap_mode (find_profile d q) = Some ''warp_plus''
        \<longrightarrow> bound_count (\<lambda>r. case excl of None \<Rightarrow> True | Some self \<Rightarrow> wi_id r \<noteq> self) q d = 0)"

lemma ensure_bindable:
  "triple I (ensure_warp_plus_bindable p excl) (\<lambda>_ d. I d \<and> bindable p excl d) I"
proof (cases p)
  case None
  then show ?thesis by (simp add: ensure_warp_plus_bindable_def bindable_def triple_def)
next
  case (Some q)
  show ?thesis
    unfolding ensure_warp_plus_bindable_def Some option.case
  proof (rule triple_andthen)
    show "triple I (mapping_err repo_sql (select_stmt (\<lambda>d. map_option ap_mode (find_profile d q))))
        (\<lambda>m d. I d \<and> m = map_option ap_mode (find_profile d q)) I"
      by (intro inv_intros) simp_all
    fix m
    show "triple (\<lambda>d. I d \<and> m = map_option ap_mode (find_profile d q))
       (if m \<noteq> Some ''warp_plus'' then ret ()
        else andthen (mapping_err repo_sql (select_stmt
               (bound_count (\<lambda>r. case excl of None \<Rightarrow> True | Some self \<Rightarrow> wi_id r \<noteq> self) q)))
             (\<lambda>bound. if 0 < bound then raise (ProfileAlreadyBound q) else ret ()))
       (\<lambda>_ d. I d \<and> bindable (Some q) excl d) I"
    proof (cases "m = Some ''warp_plus''")
      case True
      show ?thesis unfolding True simp_thms if_False
      proof (rule triple_andthen)
        show "triple (\<lambda>d. I d \<and> Some ''warp_plus'' = map_option ap_mode (find_profile d q))
            (mapping_err repo_sql (select_stmt
               (bound_count (\<lambda>r. case excl of None \<Rightarrow> True | Some self \<Rightarrow> wi_id r \<noteq> self) q)))
            (\<lambda>b d. I d \<and> b = bound_count (\<lambda>r. case excl of None \<Rightarrow> True | Some self \<Rightarrow> wi_id r \<noteq> self) q d) I"
          by (intro inv_intros) simp_all
      qed (simp add: triple_def bindable_def)
    qed (auto simp: triple_def bindable_def)
  qed
qed

lemma guarded_rebind_keeps [inv_intros]: "keeps desired_ok (repo_rebind_profile_guarded i p)"
proof -
  have "triple (\<lambda>d. desired_ok d \<and> bindable p (Some i) d) (repo_rebind_profile i p) (\<lambda>_. desired_ok) (\<lambda>_. True)"
    unfolding repo_rebind_profile_def update_id_def update_where_def
  proof (rule triple_andthen [where R = "\<lambda>_. desired_ok"], intro inv_intros)
    fix d x d'
    assume d: "desired_ok d \<and> bindable p (Some i) d"
      and u: "update_instances (\<lambda>r. wi_id r = i) (\<lambda>r. r\<lparr>wi_profile := p, wi_pending := 1\<rparr>) d = Inr (x, d')"
    then have "warp_plus_single d'" by (intro rebind_keeps_single [OF _ u]) (auto simp: bindable_def)
    moreover from d have "db_wf d'" by (intro update_keeps_wf [OF _ u]) (auto simp: desired_ok_def)
    ultimately show "desired_ok d'" by (simp add: desired_ok_def)
  qed (auto intro: triple_ret)
  then have "triple desired_ok (andthen (ensure_warp_plus_bindable p (Some i)) (\<lambda>_. repo_rebind_profile i p))
      (\<lambda>_. desired_ok) (\<lambda>_. True)"
    by (intro triple_andthen) (auto intro: triple_conseq [OF ensure_bindable])
  then show ?thesis unfolding repo_rebind_profile_guarded_def keeps_def by (rule triple_tx)
qed

lemma insert_keeps:
  assumes d: "desired_ok d" "bindable p None d" and u: "insert_instance name p d = Inr (i, d')"
  shows "desired_ok d'"
proof -
  let ?i = "next_rowid (List.map wi_id (db_instances d))"
  from u have d': "d' = d\<lparr>db_instances := db_instances d @ [default_instance ?i name p]\<rparr>"
    and p: "profile_exists d p"
    by (auto simp: insert_instance_def Let_def split: if_splits)
  have fresh: "?i \<notin> wi_id ` set (db_instances d)"
    using next_rowid_fresh [of _ "List.map wi_id (db_instances d)"] by fastforce
  have "db_wf d'"
    using d(1) p fresh
    by (auto simp: d' desired_ok_def db_wf_def list_all_iff default_instance_def next_rowid_pos desired_valid_def)
  moreover have "warp_plus_single d'"
    unfolding warp_plus_single_def list_all_iff
  proof (intro ballI impI)
    fix pr
    assume "pr \<in> set (db_profiles d')" and wp: "ap_mode pr = ''warp_plus''"
    then have pr: "pr \<in> set (db_profiles d)" by (simp add: d')
    with d(1) have "find_profile d (ap_id pr) = Some pr"
      by (simp add: desired_ok_def find_profile_mem)
    with d pr wp show "bound_count (\<lambda>_. True) (ap_id pr) d' \<le> 1"
      by (auto simp: d' bound_count_def bindable_def default_instance_def desired_ok_def
          warp_plus_single_def list_all_iff)
  qed
  ultimately show ?thesis by (simp add: desired_ok_def)
qed

lemma guarded_create_keeps [inv_intros]: "keeps desired_ok (repo_create_guarded name p)"
proof -
  have "triple (\<lambda>d. desired_ok d \<and> bindable p None d) (insert_row name p) (\<lambda>_. desired_ok) (\<lambda>_. True)"
    unfolding insert_row_def by (intro inv_intros) (auto dest: insert_keeps)
  then have "triple desired_ok (andthen (ensure_warp_plus_bindable p None)
      (\<lambda>_. andthen (insert_row name p)
      (\<lambda>i. andthen (mapping_err repo_sql (select_stmt (\<lambda>d. find_instance d i)))
      (\<lambda>row. ret (bind_res (ok_or (RepoDb ''row vanished after insert'') row) row_to_spec)))))
      (\<lambda>_. desired_ok) (\<lambda>_. True)"
    by (intro triple_andthen [where R = "\<lambda>_. desired_ok"]
        triple_andthen [where R = "\<lambda>_ d. desired_ok d \<and> bindable p None d"])
       (auto intro: inv_intros triple_conseq [OF ensure_bindable])
  then show ?thesis
    unfolding repo_create_guarded_def
    by (intro keeps_andthen keepsI triple_tx) (auto intro: inv_intros)
qed

section \<open>Proxy configuration: round trip\<close>

definition clean_entry :: "string \<Rightarrow> bool" where
  "clean_entry p \<longleftrightarrow> p \<noteq> [] \<and> CHR '','' \<notin> set p \<and> trim_str p = p"

definition storable :: "proxy_config \<Rightarrow> bool" where
  "storable c \<longleftrightarrow>
     list_all clean_entry (pc_allowed_ips c) \<and>
     pc_max_connections c \<noteq> Some 0 \<and> pc_max_rps c \<noteq> Some 0 \<and>
     (\<forall>n. pc_max_connections c = Some n \<longrightarrow> n \<le> u32_max) \<and> (\<forall>n. pc_max_rps c = Some n \<longrightarrow> n \<le> u32_max)"

lemma split_on_cons: "d \<notin> set p \<Longrightarrow> split_on d (p @ d # r) = p # split_on d r"
  by (induction p) auto

lemma split_join: "list_all clean_entry ps \<Longrightarrow> ps \<noteq> [] \<Longrightarrow> split_on (CHR '','') (join_with '','' ps) = ps"
proof (induction ps)
  case (Cons p ps)
  then show ?case by (cases ps) (auto simp: clean_entry_def split_on_none split_on_cons)
qed simp

lemma split_allowed_join: "list_all clean_entry ps \<Longrightarrow> ps \<noteq> [] \<Longrightarrow> split_allowed (join_with '','' ps) = ps"
  by (simp add: split_allowed_def split_join)
     (simp add: list_all_iff clean_entry_def filter_id_conv cong: map_cong)

lemma stored_limit_column: "l \<noteq> Some 0 \<Longrightarrow> (\<And>n. l = Some n \<Longrightarrow> n \<le> u32_max) \<Longrightarrow> stored_limit (limit_column l) = l"
  by (cases l) (auto simp: stored_limit_def limit_column_def u32_max_def Let_def)

lemma proxy_row_roundtrip: "storable c \<Longrightarrow> row_to_proxy_config (proxy_config_row c) = c"
  by (cases c)
     (auto simp: row_to_proxy_config_def proxy_config_row_def storable_def split_allowed_join stored_limit_column)

section \<open>Restart commands\<close>

definition pending_command :: "database \<Rightarrow> instance_id \<Rightarrow> bool" where
  "pending_command d i \<longleftrightarrow> (\<exists>r. find_instance d i = Some r \<and> wi_observed r < wi_cmd r)"

lemma find_update:
  assumes "\<And>r. wi_id (f r) = wi_id r"
  shows "find (\<lambda>r. wi_id r = j) (List.map (\<lambda>r. if wi_id r = i then f r else r) rs) =
         (if j = i then map_option f (find (\<lambda>r. wi_id r = i) rs) else find (\<lambda>r. wi_id r = j) rs)"
  using assms by (induction rs) auto

lemma update_id_Inr:
  assumes "update_id i f s = (Inr (), s')" and "\<And>r. wi_id (f r) = wi_id r"
  shows "find_instance (st_db s') j =
         (if j = i then map_option f (find_instance (st_db s) i) else find_instance (st_db s) j)"
proof -
  from assms(1) obtain n s1 where "update_where (\<lambda>r. wi_id r = i) f s = (Inr n, s1)" and "s' = s1"
    by (auto simp: update_id_def andthen_eq_Inr)
  then have "st_db s' = st_db s\<lparr>db_instances := List.map (\<lambda>r. if wi_id r = i then f r else r) (db_instances (st_db s))\<rparr>"
    by (auto simp: update_where_def mapping_err_eq_Inr update_instances_Inr dest!: stmt_Inr)
  then show ?thesis by (simp add: find_instance_def find_update assms(2))
qed

lemma request_restart_Inr:
  assumes "repo_request_restart i s = (Inr g, s')"
  shows "find_instance (st_db s') j =
           (if j = i then map_option (\<lambda>r. r\<lparr>wi_cmd := wi_cmd r + 1\<rparr>) (find_instance (st_db s) i)
            else find_instance (st_db s) j)"
    and "g = (case find_instance (st_db s) i of None \<Rightarrow> 0 | Some r \<Rightarrow> wi_cmd r + 1)"
proof -
  from assms obtain n d' where u: "update_instances (\<lambda>r. wi_id r = i) (\<lambda>r. r\<lparr>wi_cmd := wi_cmd r + 1\<rparr>) (st_db s) = Inr (n, d')"
    and d': "st_db s' = d'" and g: "g = (case find_instance d' i of None \<Rightarrow> 0 | Some r \<Rightarrow> wi_cmd r)"
    by (auto simp: repo_request_restart_def mapping_err_eq_Inr bind_res_eq_Inr dest!: stmt_Inr)
  from u d' show *: "find_instance (st_db s') j =
           (if j = i then map_option (\<lambda>r. r\<lparr>wi_cmd := wi_cmd r + 1\<rparr>) (find_instance (st_db s) i)
            else find_instance (st_db s) j)" for j
    by (simp add: update_instances_Inr find_instance_def find_update)
  from g * [of i] d' show "g = (case find_instance (st_db s) i of None \<Rightarrow> 0 | Some r \<Rightarrow> wi_cmd r + 1)"
    by (auto split: option.splits)
qed

section \<open>Properties\<close>

text \<open>A proxy configuration whose allowlist entries are trimmed, non-empty and free of
  commas, and whose limits are positive \<open>u32\<close> values, is read back exactly as it was written,
  through the comma-joined column and the integer columns where 0 means no limit.\<close>

theorem proxy_config_roundtrip:
  assumes "storable c" and "proxy_repo_update c s = (Inr (), s1)" and "proxy_repo_get s1 = (Inr c', s2)"
  shows "c' = c"
proof -
  from assms(2) have "st_db s1 = st_db s\<lparr>db_proxy := Some (proxy_config_row c)\<rparr>"
    by (auto simp: proxy_repo_update_def mapping_err_eq_Inr upsert_proxy_def dest!: stmt_Inr)
  then have "db_proxy (st_db s1) = Some (proxy_config_row c)" by simp
  with assms(3) have "c' = row_to_proxy_config (proxy_config_row c)"
    by (auto simp: proxy_repo_get_def andthen_eq_Inr mapping_err_eq_Inr dest!: select_Inr)
  with assms(1) show ?thesis by (simp add: proxy_row_roundtrip)
qed

definition demo_store :: "database \<Rightarrow> store" where
  "demo_store d = \<lparr>st_db = d, st_faults = [], st_draws = 0, st_trigger = False\<rparr>"

definition demo_proxy :: proxy_config where
  "demo_proxy = \<lparr>pc_socks5 = True, pc_http = False, pc_auth = True, pc_username = Some ''u'',
     pc_allowed_ips = [''10.0.0.0/8'', ''::1/128''], pc_max_connections = Some 7, pc_max_rps = None\<rparr>"

lemma demo_proxy_storable: "storable demo_proxy"
proof -
  have "trim_str ''10.0.0.0/8'' = ''10.0.0.0/8''" "trim_str ''::1/128'' = ''::1/128''"
    by code_simp+
  then show ?thesis by (simp add: storable_def demo_proxy_def clean_entry_def u32_max_def)
qed

theorem proxy_config_roundtrip_witness:
  "\<exists>s1 s2. proxy_repo_update demo_proxy (demo_store db_migrated) = (Inr (), s1) \<and>
     proxy_repo_get s1 = (Inr demo_proxy, s2)"
proof -
  let ?s1 = "(demo_store db_migrated)\<lparr>st_db := db_migrated\<lparr>db_proxy := Some (proxy_config_row demo_proxy)\<rparr>\<rparr>"
  have u: "proxy_repo_update demo_proxy (demo_store db_migrated) = (Inr (), ?s1)"
    by (simp add: proxy_repo_update_def mapping_err_def upsert_proxy_def demo_store_def)
  have g: "proxy_repo_get ?s1 = (Inr (row_to_proxy_config (proxy_config_row demo_proxy)), ?s1)"
    by (simp add: proxy_repo_get_def andthen_def mapping_err_def demo_store_def)
  show ?thesis using proxy_config_roundtrip [OF demo_proxy_storable u g] u g by auto
qed

text \<open>A restart command is never lost to a restart that was already under way. If the
  reconciler acknowledges a generation it read before the command was recorded, the command is
  still pending afterwards, and the acknowledged generation does not go back.\<close>

theorem restart_command_kept:
  assumes "find_instance (st_db s) i = Some r" and "g \<le> wi_cmd r" and "wi_observed r \<le> wi_cmd r"
    and "repo_request_restart i s = (Inr n, s1)" and "repo_acknowledge_restart i g s1 = (Inr (), s2)"
  shows "pending_command (st_db s2) i \<and> n = wi_cmd r + 1 \<and>
         (\<exists>r2. find_instance (st_db s2) i = Some r2 \<and> wi_observed r \<le> wi_observed r2)"
proof -
  from assms(1) have 1: "find_instance (st_db s1) i = Some (r\<lparr>wi_cmd := wi_cmd r + 1\<rparr>)" "n = wi_cmd r + 1"
    using request_restart_Inr [OF assms(4)] by simp_all
  from assms(5) have "find_instance (st_db s2) i =
      map_option (\<lambda>r. r\<lparr>wi_observed := max (wi_observed r) g\<rparr>) (find_instance (st_db s1) i)"
    using update_id_Inr [of i "\<lambda>r. r\<lparr>wi_observed := max (wi_observed r) g\<rparr>" s1 s2 i]
    by (simp add: repo_acknowledge_restart_def)
  with 1 assms(2,3) show ?thesis by (auto simp: pending_command_def)
qed

theorem restart_command_kept_witness:
  "\<exists>s1 s2 n. repo_request_restart 1 (demo_store (db_migrated\<lparr>db_instances := [default_instance 1 ''a'' None]\<rparr>)) = (Inr n, s1) \<and>
     repo_acknowledge_restart 1 0 s1 = (Inr (), s2) \<and> pending_command (st_db s2) 1"
proof -
  let ?d = "\<lambda>c. db_migrated\<lparr>db_instances := [(default_instance 1 ''a'' None)\<lparr>wi_cmd := c\<rparr>]\<rparr>"
  have e: "(default_instance 1 ''a'' None)\<lparr>wi_cmd := 0\<rparr> = default_instance 1 ''a'' None"
    by (simp add: default_instance_def)
  have f: "find_instance (st_db (demo_store (?d 0))) 1 = Some (default_instance 1 ''a'' None)"
    by (simp add: demo_store_def find_instance_def default_instance_def)
  have r: "repo_request_restart 1 (demo_store (?d 0)) = (Inr 1, demo_store (?d 1))"
    by (simp add: repo_request_restart_def mapping_err_def demo_store_def update_instances_def
        default_instance_def profile_exists_def find_instance_def)
  have a: "repo_acknowledge_restart 1 0 (demo_store (?d 1)) = (Inr (), demo_store (?d 1))"
    by (simp add: repo_acknowledge_restart_def update_id_def update_where_def andthen_def mapping_err_def
        demo_store_def update_instances_def default_instance_def profile_exists_def)
  show ?thesis using restart_command_kept [OF f _ _ r a] r a e by (auto simp: default_instance_def)
qed

end
