(* ===== verification/RustNet.thy ===== *)
theory RustNet
  imports RustStr
begin

text \<open>
  The address types and parsers of Rust's \<open>std::net\<close> that the program relies on:
  \<open>Ipv4Addr\<close> as a 32-bit and \<open>Ipv6Addr\<close> as a 128-bit word, \<open>FromStr\<close> for
  \<open>Ipv4Addr\<close>, \<open>Ipv6Addr\<close>, \<open>IpAddr\<close> and \<open>SocketAddr\<close>, and \<open>Display\<close> of
  addresses. The parser is the recursive descent parser of the standard library: every
  \<open>read_\<close> function either consumes a prefix or fails and leaves the input alone.
\<close>

datatype ip_addr = IpV4 "32 word" | IpV6 "128 word"

record socket_addr =
  sa_ip :: ip_addr
  sa_port :: port

definition localhost :: ip_addr where
  "localhost = IpV4 0x7F000001"

section \<open>Numbers\<close>

definition hex_val :: "char \<Rightarrow> nat option" where
  "hex_val c =
     (let n = (of_char c :: nat) in
        if 48 \<le> n \<and> n \<le> 57 then Some (n - 48)
        else if 97 \<le> n \<and> n \<le> 102 then Some (n - 87)
        else if 65 \<le> n \<and> n \<le> 70 then Some (n - 55)
        else None)"

definition digit_of :: "nat \<Rightarrow> char \<Rightarrow> nat option" where
  "digit_of radix c = (case hex_val c of None \<Rightarrow> None | Some d \<Rightarrow> if d < radix then Some d else None)"

text \<open>\<open>read_number\<close>'s loop: value, digits read so far, and failure as soon as the value
  overflows or the digit budget is exceeded.\<close>

fun number_loop :: "nat \<Rightarrow> nat \<Rightarrow> nat \<Rightarrow> nat \<Rightarrow> nat \<Rightarrow> string \<Rightarrow> (nat \<times> nat \<times> string) option" where
  "number_loop radix lim maxd acc n [] = Some (acc, n, [])"
| "number_loop radix lim maxd acc n (c # cs) =
     (case digit_of radix c of
        None \<Rightarrow> Some (acc, n, c # cs)
      | Some d \<Rightarrow>
          if acc * radix + d > lim then None
          else if Suc n > maxd then None
          else number_loop radix lim maxd (acc * radix + d) (Suc n) cs)"

definition read_number :: "nat \<Rightarrow> nat \<Rightarrow> nat \<Rightarrow> bool \<Rightarrow> string \<Rightarrow> (nat \<times> string) option" where
  "read_number radix lim maxd allow_zero_prefix s =
     (case number_loop radix lim maxd 0 0 s of
        None \<Rightarrow> None
      | Some (v, n, rest) \<Rightarrow>
          if n = 0 then None
          else if \<not> allow_zero_prefix \<and> hd s = CHR ''0'' \<and> 1 < n then None
          else Some (v, rest))"

definition read_char :: "char \<Rightarrow> string \<Rightarrow> string option" where
  "read_char c s = (case s of [] \<Rightarrow> None | x # xs \<Rightarrow> if x = c then Some xs else None)"

text \<open>\<open>read_separator(sep, i, inner)\<close>: the separator is required before every item but the
  first.\<close>

definition read_sep :: "char \<Rightarrow> nat \<Rightarrow> (string \<Rightarrow> ('a \<times> string) option) \<Rightarrow> string \<Rightarrow> ('a \<times> string) option" where
  "read_sep sep i p s =
     (if i = 0 then p s else (case read_char sep s of None \<Rightarrow> None | Some r \<Rightarrow> p r))"

section \<open>IPv4\<close>

definition read_octet :: "string \<Rightarrow> (nat \<times> string) option" where
  "read_octet = read_number 10 255 3 False"

text \<open>The loop over the slots \<open>groups.iter_mut().enumerate()\<close>: the first argument lists
  the slot numbers still to fill.\<close>

fun read_octets :: "nat list \<Rightarrow> string \<Rightarrow> (nat list \<times> string) option" where
  "read_octets [] s = Some ([], s)"
| "read_octets (i # is) s =
     (case read_sep (CHR ''.'') i read_octet s of
        None \<Rightarrow> None
      | Some (o1, r) \<Rightarrow>
          (case read_octets is r of None \<Rightarrow> None | Some (os, r') \<Rightarrow> Some (o1 # os, r')))"

definition be_value :: "'a::comm_semiring_1 \<Rightarrow> nat list \<Rightarrow> 'a" where
  "be_value b xs = foldl (\<lambda>acc x. acc * b + of_nat x) 0 xs"

definition read_ipv4 :: "string \<Rightarrow> (32 word \<times> string) option" where
  "read_ipv4 s = map_option (\<lambda>(os, r). (be_value 256 os, r)) (read_octets [0, 1, 2, 3] s)"

text \<open>\<open>parse_with\<close>: the whole input must be consumed.\<close>

definition parse_all :: "(string \<Rightarrow> ('a \<times> string) option) \<Rightarrow> string \<Rightarrow> 'a option" where
  "parse_all p s = (case p s of Some (v, []) \<Rightarrow> Some v | _ \<Rightarrow> None)"

definition parse_ipv4 :: "string \<Rightarrow> 32 word option" where
  "parse_ipv4 s = (if 15 < length s then None else parse_all read_ipv4 s)"

section \<open>IPv6\<close>

definition read_group :: "string \<Rightarrow> (nat \<times> string) option" where
  "read_group = read_number 16 65535 4 True"

text \<open>\<open>read_groups(p, groups)\<close> with \<open>limit\<close> slots and the slot numbers still to fill: the
  groups read and whether they end in an embedded IPv4 address.\<close>

fun read_groups :: "nat \<Rightarrow> nat list \<Rightarrow> string \<Rightarrow> nat list \<times> bool \<times> string" where
  "read_groups limit [] s = ([], False, s)"
| "read_groups limit (i # is) s =
     (case (if i < limit - 1 then read_sep (CHR '':'') i read_ipv4 s else None) of
        Some (v4, r) \<Rightarrow> ([unat (drop_bit 16 v4), unat (take_bit 16 v4)], True, r)
      | None \<Rightarrow>
          (case read_sep (CHR '':'') i read_group s of
             None \<Rightarrow> ([], False, s)
           | Some (g, r) \<Rightarrow>
               (case read_groups limit is r of (gs, e, r') \<Rightarrow> (g # gs, e, r'))))"

definition ipv6_of_groups :: "nat list \<Rightarrow> 128 word" where
  "ipv6_of_groups gs = be_value 65536 gs"

definition read_ipv6 :: "string \<Rightarrow> (128 word \<times> string) option" where
  "read_ipv6 s =
     (case read_groups 8 [0, 1, 2, 3, 4, 5, 6, 7] s of (head, head_v4, r) \<Rightarrow>
        if length head = 8 then Some (ipv6_of_groups head, r)
        else if head_v4 then None
        else (case read_char (CHR '':'') r of
                None \<Rightarrow> None
              | Some r1 \<Rightarrow>
                  (case read_char (CHR '':'') r1 of
                     None \<Rightarrow> None
                   | Some r2 \<Rightarrow>
                       (let limit = 8 - (length head + 1) in
                        case read_groups limit (take limit [0, 1, 2, 3, 4, 5, 6, 7]) r2 of (tail, _, r3) \<Rightarrow>
                          Some (ipv6_of_groups
                                  (head @ replicate (8 - length head - length tail) 0 @ tail),
                                r3)))))"

definition parse_ipv6 :: "string \<Rightarrow> 128 word option" where
  "parse_ipv6 s = parse_all read_ipv6 s"

text \<open>\<open>IpAddr::from_str\<close> tries IPv4 first, without the length check of \<open>Ipv4Addr\<close>.\<close>

definition parse_ip :: "string \<Rightarrow> ip_addr option" where
  "parse_ip s =
     (case parse_all (\<lambda>t. case read_ipv4 t of
                            Some (a, r) \<Rightarrow> Some (IpV4 a, r)
                          | None \<Rightarrow> map_option (\<lambda>(a, r). (IpV6 a, r)) (read_ipv6 t)) s of
        r \<Rightarrow> r)"

section \<open>Socket addresses\<close>

definition read_port :: "string \<Rightarrow> (nat \<times> string) option" where
  "read_port s =
     (case read_char (CHR '':'') s of
        None \<Rightarrow> None
      | Some r \<Rightarrow> read_number 10 65535 (Suc (length r)) True r)"

definition read_scope :: "string \<Rightarrow> string" where
  "read_scope s =
     (case read_char (CHR ''%'') s of
        None \<Rightarrow> s
      | Some r \<Rightarrow> (case read_number 10 u32_max (Suc (length r)) True r of
                     None \<Rightarrow> s | Some (_, r') \<Rightarrow> r'))"

definition read_socket_v4 :: "string \<Rightarrow> (socket_addr \<times> string) option" where
  "read_socket_v4 s =
     (case read_ipv4 s of
        None \<Rightarrow> None
      | Some (a, r) \<Rightarrow>
          map_option (\<lambda>(p, r'). (\<lparr>sa_ip = IpV4 a, sa_port = of_nat p\<rparr>, r')) (read_port r))"

definition read_socket_v6 :: "string \<Rightarrow> (socket_addr \<times> string) option" where
  "read_socket_v6 s =
     (case read_char (CHR ''['') s of
        None \<Rightarrow> None
      | Some r \<Rightarrow>
          (case read_ipv6 r of
             None \<Rightarrow> None
           | Some (a, r1) \<Rightarrow>
               (case read_char (CHR '']'') (read_scope r1) of
                  None \<Rightarrow> None
                | Some r2 \<Rightarrow>
                    map_option (\<lambda>(p, r'). (\<lparr>sa_ip = IpV6 a, sa_port = of_nat p\<rparr>, r'))
                      (read_port r2))))"

definition parse_socket_addr :: "string \<Rightarrow> socket_addr option" where
  "parse_socket_addr =
     parse_all (\<lambda>s. case read_socket_v4 s of Some x \<Rightarrow> Some x | None \<Rightarrow> read_socket_v6 s)"

section \<open>Printing\<close>

definition v4_octets :: "32 word \<Rightarrow> nat list" where
  "v4_octets a =
     (let n = unat a in [n div 16777216, n div 65536 mod 256, n div 256 mod 256, n mod 256])"

definition show_v4 :: "32 word \<Rightarrow> string" where
  "show_v4 a = join_with ''.'' (List.map show_nat (v4_octets a))"

fun to_base :: "nat \<Rightarrow> nat \<Rightarrow> nat \<Rightarrow> nat list" where
  "to_base b 0 n = []"
| "to_base b (Suc k) n = to_base b k (n div b) @ [n mod b]"

definition v6_groups :: "128 word \<Rightarrow> nat list" where
  "v6_groups a = to_base 65536 8 (unat a)"

definition v6_octets :: "128 word \<Rightarrow> nat list" where
  "v6_octets a = to_base 256 16 (unat a)"

definition hex_char :: "nat \<Rightarrow> char" where
  "hex_char d = char_of (if d < 10 then 48 + d else 87 + d)"

fun show_hex :: "nat \<Rightarrow> string" where
  "show_hex n = (if n < 16 then [hex_char n] else show_hex (n div 16) @ [hex_char (n mod 16)])"

declare show_hex.simps [simp del]

text \<open>The longest run of zero groups (the first of equal ones) as start and length.\<close>

fun zero_runs :: "nat \<Rightarrow> nat \<times> nat \<Rightarrow> nat \<times> nat \<Rightarrow> nat list \<Rightarrow> nat \<times> nat" where
  "zero_runs i cur best [] = best"
| "zero_runs i (cs, cl) (bs, bl) (g # gs) =
     (if g = 0 then
        (let cs' = (if cl = 0 then i else cs); cl' = Suc cl in
         zero_runs (Suc i) (cs', cl') (if bl < cl' then (cs', cl') else (bs, bl)) gs)
      else zero_runs (Suc i) (0, 0) (bs, bl) gs)"

definition show_v6 :: "128 word \<Rightarrow> string" where
  "show_v6 a =
     (let gs = v6_groups a in
      if take 5 gs = replicate 5 0 \<and> gs ! 5 = 65535
      then ''::ffff:'' @ show_v4 (of_nat (gs ! 6 * 65536 + gs ! 7))
      else (case zero_runs 0 (0, 0) (0, 0) gs of (st, len) \<Rightarrow>
        if 1 < len
        then join_with '':'' (List.map show_hex (take st gs)) @ ''::'' @
             join_with '':'' (List.map show_hex (drop (st + len) gs))
        else join_with '':'' (List.map show_hex gs)))"

fun show_ip :: "ip_addr \<Rightarrow> string" where
  "show_ip (IpV4 a) = show_v4 a"
| "show_ip (IpV6 a) = show_v6 a"

text \<open>The definitions that evaluate a parser on a literal.\<close>

lemmas parser_defs =
  parse_all_def parse_ipv4_def parse_ipv6_def parse_ip_def read_ipv4_def read_ipv6_def
  read_sep_def read_octet_def read_group_def read_number_def digit_of_def hex_val_def
  read_char_def be_value_def ipv6_of_groups_def

lemma length_to_base [simp]: "length (to_base b k n) = k"
  by (induction k arbitrary: n) auto

lemma length_v4_octets [simp]: "length (v4_octets a) = 4"
  by (simp add: v4_octets_def Let_def)

lemma length_v6_octets [simp]: "length (v6_octets a) = 16"
  by (simp add: v6_octets_def)

lemma to_base_bound: "0 < b \<Longrightarrow> x \<in> set (to_base b k n) \<Longrightarrow> x < b"
  by (induction k arbitrary: n) auto

lemma unat_lt_32: "unat (a :: 32 word) < 4294967296"
  using unsigned_less [of a] by simp

lemma v4_octets_bound: "x \<in> set (v4_octets a) \<Longrightarrow> x < 256"
  using unat_lt_32 [of a]
  by (auto simp: v4_octets_def Let_def)

text \<open>Big-endian digits and their value are inverse to each other.\<close>

lemma be_value_snoc: "be_value b (xs @ [x]) = be_value b xs * b + of_nat x"
  by (simp add: be_value_def)

lemma be_value_to_base: "be_value b (to_base b k n) = n mod (b :: nat) ^ k"
  by (induction k arbitrary: n) (simp add: be_value_def, simp add: be_value_snoc mod_mult2_eq mult.commute)

end
