(* ===== verification/RuntimeEnv.thy ===== *)
theory RuntimeEnv
  imports Instance RustNet
begin

text \<open>
  What the runtime components share: the clock and the world outside the process
  (\<open>src/runtime/clock.rs\<close>), paths and the context of an instance
  (\<open>src/runtime/paths.rs\<close>, \<open>src/runtime/context.rs\<close>), credentials
  (\<open>src/runtime/credentials.rs\<close>) and the control trait
  (\<open>src/runtime/control.rs\<close>).

  The world has a part the model knows, the time in milliseconds, and a part of any type
  \<open>'e\<close> that it does not. An external call takes the unknown part to a result, the time
  the call took, and the new unknown part; a sleep advances the clock by at least what was
  asked for, and being late is time that the next call takes.
\<close>

section \<open>World and clock\<close>

record 'e world =
  w_now :: millis
  w_env :: 'e

type_synonym ('e, 'r) ext = "'e \<Rightarrow> 'r \<times> millis \<times> 'e"

definition call :: "('e, 'r) ext \<Rightarrow> 'e world \<Rightarrow> 'r \<times> 'e world" where
  "call f w = (case f (w_env w) of (r, dt, e) \<Rightarrow> (r, \<lparr>w_now = w_now w + dt, w_env = e\<rparr>))"

definition sleep :: "millis \<Rightarrow> 'e world \<Rightarrow> 'e world" where
  "sleep d w = w\<lparr>w_now := w_now w + d\<rparr>"

lemma call_now: "w_now w \<le> w_now (snd (call f w))"
  by (simp add: call_def split: prod.splits)

lemma call_nowD: "call f w = (r, w') \<Longrightarrow> w_now w \<le> w_now w'"
  using call_now [of w f] by simp

lemma sleep_now [simp]: "w_now (sleep d w) = w_now w + d"
  by (simp add: sleep_def)

section \<open>Paths and context\<close>

text \<open>\<open>Path::join\<close> with a relative second part.\<close>

definition path_join :: "string \<Rightarrow> string \<Rightarrow> string" where
  "path_join p q = (if p = [] then q else if last p = CHR ''/'' then p @ q else p @ ''/'' @ q)"

record instance_paths =
  ip_state_dir :: string
  ip_log_path :: string
  ip_runtime_dir :: string
  ip_dbus_dir :: string
  ip_dbus_socket :: string

definition paths_new :: "string \<Rightarrow> string \<Rightarrow> instance_id \<Rightarrow> instance_paths" where
  "paths_new data_dir runtime_base i =
     (let state_root = path_join (path_join data_dir ''instances'') (show_int i);
          runtime_root = path_join (path_join runtime_base ''instances'') (show_int i)
      in \<lparr>ip_state_dir = path_join state_root ''state'',
          ip_log_path = path_join (path_join data_dir ''logs'') (''instance-'' @ show_int i @ ''.log''),
          ip_runtime_dir = path_join runtime_root ''warp'',
          ip_dbus_dir = path_join runtime_root ''dbus'',
          ip_dbus_socket = path_join (path_join runtime_root ''dbus'') ''system_bus_socket''\<rparr>)"

definition dbus_system_bus_address :: "instance_paths \<Rightarrow> string" where
  "dbus_system_bus_address p =
     ''unix:path='' @ List.map (\<lambda>c. if c = CHR 0x5C then CHR ''/'' else c) (ip_dbus_socket p)"

record instance_context =
  cx_id :: instance_id
  cx_paths :: instance_paths
  cx_port :: port

definition context_new :: "string \<Rightarrow> string \<Rightarrow> instance_id \<Rightarrow> instance_id_error + instance_context" where
  "context_new data_dir runtime_base i =
     (case instance_port i of
        Inl e \<Rightarrow> Inl e
      | Inr p \<Rightarrow> Inr \<lparr>cx_id = i, cx_paths = paths_new data_dir runtime_base i, cx_port = p\<rparr>)"

section \<open>Credentials\<close>

datatype credential_mode = FreeMode | WarpPlus | ZeroTrust

record credentials =
  cd_mode :: credential_mode
  cd_license :: "string option"
  cd_org :: "string option"
  cd_client_id :: "string option"
  cd_client_secret :: "string option"

definition credentials_free :: credentials where
  "credentials_free = \<lparr>cd_mode = FreeMode, cd_license = None, cd_org = None, cd_client_id = None,
     cd_client_secret = None\<rparr>"

section \<open>The control trait\<close>

record cli_status =
  st_connected :: bool
  st_raw :: string

datatype control_error =
    CommandTimeout
  | CommandFailed string
  | NotRegistered int
  | RegistrationRequired int
  | ConnectFailure string

fun show_control_error :: "control_error \<Rightarrow> string" where
  "show_control_error CommandTimeout = ''warp-cli command timed out''"
| "show_control_error (CommandFailed s) = ''warp-cli failed: '' @ s"
| "show_control_error (NotRegistered i) = ''instance '' @ show_int i @ '' is not registered''"
| "show_control_error (RegistrationRequired i) =
     ''instance '' @ show_int i @ '' must be registered before this action''"
| "show_control_error (ConnectFailure s) = ''connect failed: '' @ s"

record 'e control_ops =
  ct_status :: "instance_context \<Rightarrow> ('e, control_error + cli_status) ext"
  ct_register :: "instance_context \<Rightarrow> ('e, control_error + unit) ext"
  ct_apply_account :: "instance_context \<Rightarrow> credentials \<Rightarrow> ('e, control_error + unit) ext"
  ct_set_proxy_mode :: "instance_context \<Rightarrow> ('e, control_error + unit) ext"
  ct_set_proxy_port :: "instance_context \<Rightarrow> port \<Rightarrow> ('e, control_error + unit) ext"
  ct_connect :: "instance_context \<Rightarrow> ('e, control_error + unit) ext"
  ct_disconnect :: "instance_context \<Rightarrow> ('e, control_error + unit) ext"

section \<open>Commands\<close>

record spawn_command =
  sc_program :: string
  sc_args :: "string list"
  sc_envs :: "(string \<times> string) list"
  sc_stderr_log :: "string option"
  sc_stdout_log :: "string option"

section \<open>Lemmas\<close>

lemma show_nat_inj: "show_nat m = show_nat n \<Longrightarrow> m = n"
proof (induction m arbitrary: n rule: show_nat.induct)
  case (1 m)
  show ?case
  proof (cases "m < 10 \<or> n < 10")
    case True
    have len: "show_nat k \<noteq> []" "[] \<noteq> show_nat k" for k by (subst show_nat.simps, simp)+
    from True "1.prems" show ?thesis
      by (subst (asm) (1 2) show_nat.simps) (auto simp: len append_eq_Cons_conv split: if_splits)
  next
    case False
    with "1.prems" have "show_nat (m div 10) @ [char_of (48 + m mod 10)] =
        show_nat (n div 10) @ [char_of (48 + n mod 10)]"
      by (metis show_nat.simps)
    then have d: "show_nat (m div 10) = show_nat (n div 10)"
      and c: "(char_of (48 + m mod 10) :: char) = char_of (48 + n mod 10)" by simp_all
    have small: "(48 + k mod 10) mod 256 = 48 + k mod 10" for k :: nat by simp
    from c have "(of_char (char_of (48 + m mod 10) :: char) :: nat) = of_char (char_of (48 + n mod 10) :: char)"
      by simp
    then have "48 + m mod 10 = 48 + n mod 10" unfolding of_char_of small .
    moreover from "1.IH" [OF _ d] False have "m div 10 = n div 10" by simp
    ultimately show ?thesis by (metis add_left_cancel div_mult_mod_eq)
  qed
qed

lemma show_int_inj: "show_int i = show_int j \<Longrightarrow> 0 \<le> i \<Longrightarrow> 0 \<le> j \<Longrightarrow> i = j"
  by (simp add: show_int_def) (metis eq_nat_nat_iff show_nat_inj)

lemma path_join_cancel:
  "path_join p a = path_join p b \<longleftrightarrow> a = b"
  "a \<noteq> [] \<Longrightarrow> b \<noteq> [] \<Longrightarrow> last a \<noteq> CHR ''/'' \<Longrightarrow> last b \<noteq> CHR ''/'' \<Longrightarrow>
     path_join a q = path_join b q \<longleftrightarrow> a = b"
  by (auto simp: path_join_def)

lemma path_join_last: "q \<noteq> [] \<Longrightarrow> path_join p q \<noteq> [] \<and> last (path_join p q) = last q"
  by (simp add: path_join_def)

lemma digit_not_slash: "(char_of (48 + k mod 10) :: char) \<noteq> CHR ''/''" for k :: nat
proof
  assume "(char_of (48 + k mod 10) :: char) = CHR ''/''"
  then have "(of_char (char_of (48 + k mod 10) :: char) :: nat) = of_char (CHR ''/'')" by simp
  then have "48 + k mod 10 = (47 :: nat)" unfolding of_char_of by simp
  then show False by simp
qed

lemma show_nat_last: "show_nat n \<noteq> [] \<and> last (show_nat n) \<noteq> CHR ''/''"
proof (cases "n < 10")
  case True
  then have "show_nat n = [char_of (48 + n mod 10)]" by (simp add: show_nat.simps)
  then show ?thesis using digit_not_slash by simp
next
  case False
  then have "show_nat n = show_nat (n div 10) @ [char_of (48 + n mod 10)]" by (subst show_nat.simps) simp
  then show ?thesis using digit_not_slash by simp
qed

lemma show_int_last: "0 \<le> i \<Longrightarrow> show_int i \<noteq> [] \<and> last (show_int i) \<noteq> CHR ''/''"
  using show_nat_last by (simp add: show_int_def)

text \<open>Directories under different identifiers are different.\<close>

lemma instance_dir_inj:
  assumes "0 \<le> i" "0 \<le> j"
    and "path_join (path_join base (show_int i)) q = path_join (path_join base (show_int j)) q"
  shows "i = j"
proof -
  have ne: "path_join base (show_int k) \<noteq> []" "last (path_join base (show_int k)) \<noteq> CHR ''/''"
    if "0 \<le> k" for k
    using show_int_last [OF that] path_join_last by auto
  from assms(3) have "path_join base (show_int i) = path_join base (show_int j)"
    using path_join_cancel(2) [OF ne(1) [OF assms(1)] ne(1) [OF assms(2)] ne(2) [OF assms(1)] ne(2) [OF assms(2)]]
    by simp
  then show ?thesis using assms(1,2) show_int_inj by (simp add: path_join_cancel(1))
qed

section \<open>Properties\<close>

text \<open>Two instances share nothing: whenever the contexts of two different identifiers can
  be built, their internal ports, state directories, runtime directories and D-Bus sockets
  are all different.\<close>

theorem instances_isolated:
  assumes "context_new data_dir base i = Inr a" and "context_new data_dir base j = Inr b"
    and "i \<noteq> j" and "0 \<le> i" and "0 \<le> j"
  shows "cx_port a \<noteq> cx_port b \<and> ip_state_dir (cx_paths a) \<noteq> ip_state_dir (cx_paths b) \<and>
    ip_runtime_dir (cx_paths a) \<noteq> ip_runtime_dir (cx_paths b) \<and>
    ip_dbus_socket (cx_paths a) \<noteq> ip_dbus_socket (cx_paths b)"
proof -
  from assms(1,2) have p: "instance_port i = Inr (cx_port a)" "instance_port j = Inr (cx_port b)"
    and c: "cx_paths a = paths_new data_dir base i" "cx_paths b = paths_new data_dir base j"
    by (auto simp: context_new_def split: sum.splits)
  have "cx_port a \<noteq> cx_port b" using p assms(3-5) instance_port_inj by metis
  moreover have "\<And>d q. path_join (path_join d (show_int i)) q \<noteq> path_join (path_join d (show_int j)) q"
    using instance_dir_inj assms(3-5) by blast
  moreover have "path_join (path_join (path_join d (show_int i)) ''dbus'') q \<noteq>
      path_join (path_join (path_join d (show_int j)) ''dbus'') q" for d q
  proof
    assume eq: "path_join (path_join (path_join d (show_int i)) ''dbus'') q =
      path_join (path_join (path_join d (show_int j)) ''dbus'') q"
    have ne: "path_join x ''dbus'' \<noteq> []" "last (path_join x ''dbus'') \<noteq> CHR ''/''" for x
      using path_join_last [of "''dbus''" x] by simp_all
    from eq have "path_join (path_join d (show_int i)) ''dbus'' = path_join (path_join d (show_int j)) ''dbus''"
      by (simp only: path_join_cancel(2) [OF ne(1) ne(1) ne(2) ne(2)])
    then show False using instance_dir_inj [OF assms(4,5)] assms(3) by blast
  qed
  ultimately show ?thesis by (simp add: c paths_new_def Let_def)
qed

theorem instances_isolated_witness:
  "\<exists>a b. context_new ''/d'' ''/r'' 1 = Inr a \<and> context_new ''/d'' ''/r'' 2 = Inr b \<and> cx_port a \<noteq> cx_port b"
proof -
  obtain a b where "context_new ''/d'' ''/r'' 1 = Inr a" "context_new ''/d'' ''/r'' 2 = Inr b"
    using instance_port_valid(1) [of 1] instance_port_valid(1) [of 2]
    by (simp add: context_new_def port_defs)
  with instances_isolated [OF this] show ?thesis by auto
qed

end
