(* ===== verification/Profiles.thy ===== *)
theory Profiles
  imports Repo RuntimeEnv
begin

text \<open>
  Account profiles and their secrets: \<open>src/db/account.rs\<close>, \<open>src/db/profiles.rs\<close>,
  \<open>src/crypto/mod.rs\<close>, \<open>src/crypto/secret_store.rs\<close>, the transactions of
  \<open>src/db/uow.rs\<close>, and \<open>src/db/credentials.rs\<close>, which turns a profile into what an
  instance starts with.

  The cipher and the random source are parameters, \<open>crypto\<close>: what the code relies on is
  that decrypting what was encrypted gives it back, and that a nonce has 24 bytes.
\<close>

section \<open>Account modes\<close>

datatype account_mode = AmFree | AmWarpPlus | AmZeroTrust

fun mode_str :: "account_mode \<Rightarrow> string" where
  "mode_str AmFree = ''free''"
| "mode_str AmWarpPlus = ''warp_plus''"
| "mode_str AmZeroTrust = ''zero_trust''"

definition mode_parse :: "string \<Rightarrow> string + account_mode" where
  "mode_parse v =
     (if v = ''free'' then Inr AmFree
      else if v = ''warp_plus'' then Inr AmWarpPlus
      else if v = ''zero_trust'' then Inr AmZeroTrust
      else Inl (''invalid account mode `'' @ v @ ''` (free|warp_plus|zero_trust)''))"

text \<open>\<open>AccountMode::parse(..).unwrap_or(AccountMode::Free)\<close>\<close>

definition mode_of_column :: "string \<Rightarrow> account_mode" where
  "mode_of_column v = (case mode_parse v of Inr m \<Rightarrow> m | Inl _ \<Rightarrow> AmFree)"

record account_config =
  ac_mode :: account_mode
  ac_org :: "string option"

definition account_get :: "(string, account_config) op" where
  "account_get =
     andthen (mapping_err show_sql (select_stmt db_account))
       (\<lambda>row. ret (case row of
          None \<Rightarrow> \<lparr>ac_mode = AmFree, ac_org = None\<rparr>
        | Some (raw, org) \<Rightarrow> \<lparr>ac_mode = mode_of_column raw, ac_org = org\<rparr>))"

definition account_set_mode :: "account_mode \<Rightarrow> string option \<Rightarrow> (string, unit) op" where
  "account_set_mode mode org =
     mapping_err show_sql (stmt (\<lambda>d. Inr ((), d\<lparr>db_account := Some (mode_str mode, org)\<rparr>)))"

section \<open>Encryption\<close>

record crypto =
  cy_seal :: "bytes \<Rightarrow> bytes \<Rightarrow> bytes option"
  cy_open :: "bytes \<Rightarrow> bytes \<Rightarrow> bytes option"
  cy_random :: "nat \<Rightarrow> bytes"

definition nonce_len :: nat where "nonce_len = 24"

text \<open>\<open>encrypt\<close>: a fresh nonce, then the cipher.\<close>

definition encrypt :: "crypto \<Rightarrow> bytes \<Rightarrow> (string, bytes \<times> bytes) op" where
  "encrypt cy plain s =
     (let nonce = cy_random cy (st_draws s); s1 = s\<lparr>st_draws := Suc (st_draws s)\<rparr>
      in case cy_seal cy nonce plain of
           None \<Rightarrow> (Inl ''encryption failed'', s1)
         | Some c \<Rightarrow> (Inr (c, nonce), s1))"

definition decrypt :: "crypto \<Rightarrow> bytes \<Rightarrow> bytes \<Rightarrow> string + bytes" where
  "decrypt cy cipher nonce =
     ok_or ''decryption failed: ciphertext corrupted or wrong key'' (cy_open cy nonce cipher)"

section \<open>Secrets\<close>

datatype secret_kind = ProxyPassword | WarpPlusLicense | ZeroTrustClientId | ZeroTrustClientSecret

fun kind_str :: "secret_kind \<Rightarrow> string" where
  "kind_str ProxyPassword = ''proxy_password''"
| "kind_str WarpPlusLicense = ''warp_plus_license''"
| "kind_str ZeroTrustClientId = ''zt_client_id''"
| "kind_str ZeroTrustClientSecret = ''zt_client_secret''"

datatype secret_error = SecretDb string | SecretUnavailable string

definition secret_sql :: "sql_error \<Rightarrow> secret_error" where
  "secret_sql e = SecretDb (show_sql e)"

text \<open>Rows are addressed by kind and profile; \<open>None\<close> is \<open>profile_id IS NULL\<close>.\<close>

definition secret_at :: "secret_kind \<Rightarrow> int option \<Rightarrow> secret_row \<Rightarrow> bool" where
  "secret_at k p r \<longleftrightarrow> sr_kind r = kind_str k \<and> sr_profile r = p"

definition delete_secrets :: "(secret_row \<Rightarrow> bool) \<Rightarrow> database \<Rightarrow> sql_error + unit \<times> database" where
  "delete_secrets P d = Inr ((), d\<lparr>db_secrets := filter (\<lambda>r. \<not> P r) (db_secrets d)\<rparr>)"

definition insert_secret :: "secret_row \<Rightarrow> database \<Rightarrow> sql_error + unit \<times> database" where
  "insert_secret r d =
     (if profile_exists d (sr_profile r) then Inr ((), d\<lparr>db_secrets := db_secrets d @ [r]\<rparr>)
      else Inl fk_error)"

text \<open>\<open>INSERT .. ON CONFLICT(kind, profile_id) DO UPDATE\<close> for a profile's secret.\<close>

definition upsert_secret :: "secret_kind \<Rightarrow> int \<Rightarrow> bytes \<Rightarrow> bytes \<Rightarrow> database \<Rightarrow> sql_error + unit \<times> database" where
  "upsert_secret k p cipher nonce d =
     (if list_ex (secret_at k (Some p)) (db_secrets d) then
        Inr ((), d\<lparr>db_secrets := List.map (\<lambda>r. if secret_at k (Some p) r
          then r\<lparr>sr_cipher := cipher, sr_nonce := nonce, sr_version := 1\<rparr> else r) (db_secrets d)\<rparr>)
      else insert_secret \<lparr>sr_kind = kind_str k, sr_profile = Some p, sr_cipher = cipher,
             sr_nonce = nonce, sr_version = 1\<rparr> d)"

definition replace_global :: "(sql_error \<Rightarrow> 'e) \<Rightarrow> secret_kind \<Rightarrow> bytes \<Rightarrow> bytes \<Rightarrow> ('e, unit) op" where
  "replace_global er k cipher nonce =
     andthen (mapping_err er (stmt (delete_secrets (secret_at k None))))
       (\<lambda>_. mapping_err er (stmt (insert_secret
          \<lparr>sr_kind = kind_str k, sr_profile = None, sr_cipher = cipher, sr_nonce = nonce, sr_version = 1\<rparr>)))"

definition secret_set :: "crypto \<Rightarrow> secret_kind \<Rightarrow> string \<Rightarrow> (secret_error, unit) op" where
  "secret_set cy k plain =
     andthen (mapping_err SecretUnavailable (encrypt cy plain))
       (\<lambda>(c, n). tx secret_sql (replace_global secret_sql k c n))"

definition secret_set_for_profile :: "crypto \<Rightarrow> secret_kind \<Rightarrow> int \<Rightarrow> string \<Rightarrow> (secret_error, unit) op" where
  "secret_set_for_profile cy k p plain =
     andthen (mapping_err SecretUnavailable (encrypt cy plain))
       (\<lambda>(c, n). mapping_err secret_sql (stmt (upsert_secret k p c n)))"

definition exists_at :: "secret_kind \<Rightarrow> int option \<Rightarrow> (secret_error, bool) op" where
  "exists_at k p =
     mapping_err secret_sql (select_stmt (\<lambda>d. 0 < length (filter (secret_at k p) (db_secrets d))))"

definition secret_exists :: "secret_kind \<Rightarrow> (secret_error, bool) op" where
  "secret_exists k = exists_at k None"

definition secret_exists_for_profile :: "secret_kind \<Rightarrow> int \<Rightarrow> (secret_error, bool) op" where
  "secret_exists_for_profile k p = exists_at k (Some p)"

definition secret_delete :: "secret_kind \<Rightarrow> (secret_error, unit) op" where
  "secret_delete k = mapping_err secret_sql (stmt (delete_secrets (secret_at k None)))"

definition secret_delete_for_profile :: "secret_kind \<Rightarrow> int \<Rightarrow> (secret_error, unit) op" where
  "secret_delete_for_profile k p = mapping_err secret_sql (stmt (delete_secrets (secret_at k (Some p))))"

definition open_row :: "crypto \<Rightarrow> secret_row \<Rightarrow> secret_error + string" where
  "open_row cy r =
     (if length (sr_nonce r) \<noteq> nonce_len then Inl (SecretUnavailable ''stored nonce has wrong length'')
      else bind_res (map_err SecretUnavailable (decrypt cy (sr_cipher r) (sr_nonce r)))
             (\<lambda>p. Inr (from_utf8_lossy p)))"

definition plaintext_at :: "crypto \<Rightarrow> secret_kind \<Rightarrow> int option \<Rightarrow> (secret_error, string option) op" where
  "plaintext_at cy k p =
     andthen (mapping_err secret_sql (select_stmt (\<lambda>d. find (secret_at k p) (db_secrets d))))
       (\<lambda>row. case row of None \<Rightarrow> ret None
          | Some r \<Rightarrow> from_result (map_sum id Some (open_row cy r)))"

definition secret_get_plaintext :: "crypto \<Rightarrow> secret_kind \<Rightarrow> (secret_error, string option) op" where
  "secret_get_plaintext cy k = plaintext_at cy k None"

definition secret_get_plaintext_for_profile :: "crypto \<Rightarrow> secret_kind \<Rightarrow> int \<Rightarrow> (secret_error, string option) op" where
  "secret_get_plaintext_for_profile cy k p = plaintext_at cy k (Some p)"

section \<open>Profiles\<close>

definition default_profile_id :: int where "default_profile_id = 1"

record account_profile =
  pf_id :: int
  pf_name :: string
  pf_mode :: account_mode
  pf_org :: "string option"

datatype profile_error = ProfileNotFound int | ProfileConflict string | ProfileDb string

definition profile_sql :: "sql_error \<Rightarrow> profile_error" where
  "profile_sql e = ProfileDb (show_sql e)"

definition map_profile_row :: "profile_row \<Rightarrow> account_profile" where
  "map_profile_row r =
     \<lparr>pf_id = ap_id r, pf_name = ap_name r, pf_mode = mode_of_column (ap_mode r), pf_org = ap_org r\<rparr>"

fun is_unique_violation :: "sql_error \<Rightarrow> bool" where
  "is_unique_violation (SqlDatabase code msg) = (code = ''1555'' \<or> contains_str ''UNIQUE constraint failed'' msg)"
| "is_unique_violation (SqlOther _) = False"

text \<open>\<open>is_foreign_key_violation()\<close> looks at the extended code; the message is the fallback.\<close>

fun is_fk_violation :: "sql_error \<Rightarrow> bool" where
  "is_fk_violation (SqlDatabase code msg) = (code = ''787'' \<or> contains_str ''FOREIGN KEY constraint failed'' msg)"
| "is_fk_violation (SqlOther _) = False"

definition insert_profile :: "string \<Rightarrow> string \<Rightarrow> string option \<Rightarrow> database \<Rightarrow> sql_error + int \<times> database" where
  "insert_profile name mode org d =
     (let i = next_rowid (List.map ap_id (db_profiles d))
      in if name \<in> ap_name ` set (db_profiles d) then Inl (unique_error ''account_profiles.name'')
         else Inr (i, d\<lparr>db_profiles := db_profiles d @ [\<lparr>ap_id = i, ap_name = name, ap_mode = mode, ap_org = org\<rparr>]\<rparr>))"

definition update_profile_row :: "int \<Rightarrow> string \<Rightarrow> string \<Rightarrow> string option \<Rightarrow> database \<Rightarrow> sql_error + nat \<times> database" where
  "update_profile_row p name mode org d =
     (if \<exists>r\<in>set (db_profiles d). ap_id r = p \<and> list_ex (\<lambda>q. ap_id q \<noteq> p \<and> ap_name q = name) (db_profiles d)
      then Inl (unique_error ''account_profiles.name'')
      else Inr (length (filter (\<lambda>r. ap_id r = p) (db_profiles d)),
        d\<lparr>db_profiles := List.map (\<lambda>r. if ap_id r = p then r\<lparr>ap_name := name, ap_mode := mode, ap_org := org\<rparr> else r)
            (db_profiles d)\<rparr>))"

text \<open>\<open>DELETE FROM account_profiles\<close>: refused while an instance refers to the profile; its secrets
  go with it.\<close>

definition delete_profile_row :: "int \<Rightarrow> database \<Rightarrow> sql_error + unit \<times> database" where
  "delete_profile_row p d =
     (if p \<in> ap_id ` set (db_profiles d) \<and> list_ex (\<lambda>r. wi_profile r = Some p) (db_instances d) then Inl fk_error
      else Inr ((), d\<lparr>db_profiles := filter (\<lambda>r. ap_id r \<noteq> p) (db_profiles d),
                     db_secrets := filter (\<lambda>r. sr_profile r \<noteq> Some p) (db_secrets d)\<rparr>))"

definition count_mode :: "account_mode \<Rightarrow> (profile_error, nat) op" where
  "count_mode m =
     mapping_err profile_sql (select_stmt (\<lambda>d. length (filter (\<lambda>r. ap_mode r = mode_str m) (db_profiles d))))"

definition profile_get :: "int \<Rightarrow> (profile_error, account_profile) op" where
  "profile_get p =
     andthen (mapping_err profile_sql (select_stmt (\<lambda>d. find_profile d p)))
       (\<lambda>row. case row of None \<Rightarrow> raise (ProfileNotFound p) | Some r \<Rightarrow> ret (map_profile_row r))"

definition profile_list :: "(profile_error, account_profile list) op" where
  "profile_list =
     andthen (mapping_err profile_sql (select_stmt db_profiles)) (\<lambda>rows. ret (List.map map_profile_row rows))"

definition name_conflict :: "string \<Rightarrow> sql_error \<Rightarrow> profile_error" where
  "name_conflict name e =
     (if is_unique_violation e then ProfileConflict (''profile name `'' @ name @ ''` already exists'') else profile_sql e)"

definition profile_create :: "string \<Rightarrow> account_mode \<Rightarrow> string option \<Rightarrow> (profile_error, account_profile) op" where
  "profile_create name mode org =
     andthen (if mode = AmFree then count_mode AmFree else ret 0)
       (\<lambda>n. if mode = AmFree \<and> 0 < n then
              raise (ProfileConflict ''only one free profile is allowed; the default profile already covers it'')
            else andthen (mapping_err (name_conflict name) (stmt (insert_profile name (mode_str mode) org))) profile_get)"

definition profile_update :: "int \<Rightarrow> string \<Rightarrow> account_mode \<Rightarrow> string option \<Rightarrow> (profile_error, account_profile) op" where
  "profile_update p name mode org =
     andthen (profile_get p)
       (\<lambda>before. if pf_mode before = AmFree then
          raise (ProfileConflict ''the free profile is read-only; the built-in default serves as the system's free profile'')
        else andthen (if mode = AmFree then count_mode AmFree else ret 0)
       (\<lambda>n. if mode = AmFree \<and> 0 < n then
          raise (ProfileConflict ''only one free profile is allowed; bind instances to the default profile or upgrade it first'')
        else andthen (mapping_err (name_conflict name) (stmt (update_profile_row p name (mode_str mode) org)))
       (\<lambda>rows. if rows = 0 then raise (ProfileNotFound p)
        else andthen (if pf_mode before \<noteq> mode \<or> pf_org before \<noteq> org
                      then mapping_err profile_sql (stmt (update_instances
                             (\<lambda>r. wi_profile r = Some p \<and> wi_enabled r = 1 \<and> wi_desired r = ''running'')
                             (\<lambda>r. r\<lparr>wi_pending := 1\<rparr>)))
                      else ret 0)
       (\<lambda>_. profile_get p))))"

definition profile_delete :: "int \<Rightarrow> (profile_error, unit) op" where
  "profile_delete p =
     (if p = default_profile_id then
        raise (ProfileConflict ''the built-in default profile cannot be deleted'')
      else andthen (mapping_err profile_sql (stmt (update_instances
                (\<lambda>r. wi_profile r = Some p \<and> wi_enabled r = 0) (\<lambda>r. r\<lparr>wi_profile := None\<rparr>))))
        (\<lambda>_. mapping_err (\<lambda>e. if is_fk_violation e
                 then ProfileConflict (''profile '' @ show_int p @ '' is still used by an enabled instance'')
                 else profile_sql e)
               (stmt (delete_profile_row p))))"

section \<open>Transactions over several tables\<close>

datatype consistency_error = ConsistencyDb string | ConsistencyCrypto string | FreeProfileConflict

definition uow_sql :: "sql_error \<Rightarrow> consistency_error" where
  "uow_sql e = ConsistencyDb (show_sql e)"

definition set_global_secret :: "crypto \<Rightarrow> secret_kind \<Rightarrow> string \<Rightarrow> (consistency_error, unit) op" where
  "set_global_secret cy k plain =
     andthen (mapping_err ConsistencyCrypto (encrypt cy plain)) (\<lambda>(c, n). replace_global uow_sql k c n)"

definition set_profile_secret :: "crypto \<Rightarrow> secret_kind \<Rightarrow> int \<Rightarrow> string \<Rightarrow> (consistency_error, unit) op" where
  "set_profile_secret cy k p plain =
     andthen (mapping_err ConsistencyCrypto (encrypt cy plain))
       (\<lambda>(c, n). mapping_err uow_sql (stmt (upsert_secret k p c n)))"

definition delete_profile_secret :: "secret_kind \<Rightarrow> int \<Rightarrow> (consistency_error, unit) op" where
  "delete_profile_secret k p = mapping_err uow_sql (stmt (delete_secrets (secret_at k (Some p))))"

definition write_password :: "crypto \<Rightarrow> string option \<Rightarrow> (consistency_error, unit) op" where
  "write_password cy password =
     (case password of
        None \<Rightarrow> ret ()
      | Some v \<Rightarrow> if v = '''' then mapping_err uow_sql (stmt (delete_secrets (secret_at ProxyPassword None)))
                 else set_global_secret cy ProxyPassword v)"

definition update_proxy_with_password :: "crypto \<Rightarrow> proxy_config \<Rightarrow> string option \<Rightarrow> (consistency_error, unit) op" where
  "update_proxy_with_password cy cfg password =
     tx uow_sql (andthen (write_password cy password) (\<lambda>_. mapping_err uow_sql (stmt (upsert_proxy cfg))))"

fun set_new_secrets :: "crypto \<Rightarrow> int \<Rightarrow> (secret_kind \<times> string option) list \<Rightarrow> (consistency_error, unit) op" where
  "set_new_secrets cy p [] = ret ()"
| "set_new_secrets cy p ((k, v) # cs) =
     andthen (case v of Some x \<Rightarrow> if x \<noteq> '''' then set_profile_secret cy k p x else ret () | None \<Rightarrow> ret ())
       (\<lambda>_. set_new_secrets cy p cs)"

fun change_secrets :: "crypto \<Rightarrow> int \<Rightarrow> (secret_kind \<times> string option) list \<Rightarrow> (consistency_error, unit) op" where
  "change_secrets cy p [] = ret ()"
| "change_secrets cy p ((k, v) # cs) =
     andthen (case v of
         Some x \<Rightarrow> if x = '''' then delete_profile_secret k p else set_profile_secret cy k p x
       | None \<Rightarrow> ret ())
       (\<lambda>_. change_secrets cy p cs)"

definition create_profile_with_credentials :: "crypto \<Rightarrow> string \<Rightarrow> string \<Rightarrow> string option
    \<Rightarrow> (secret_kind \<times> string option) list \<Rightarrow> (consistency_error, int) op" where
  "create_profile_with_credentials cy name mode org creds =
     tx uow_sql
       (andthen (if mode = ''free''
           then mapping_err uow_sql (select_stmt (\<lambda>d. length (filter (\<lambda>r. ap_mode r = ''free'') (db_profiles d))))
           else ret 0)
       (\<lambda>n. if mode = ''free'' \<and> 0 < n then raise FreeProfileConflict
        else andthen (mapping_err uow_sql (stmt (insert_profile name mode org)))
       (\<lambda>i. andthen (set_new_secrets cy i creds) (\<lambda>_. ret i))))"

definition update_profile_with_credentials :: "crypto \<Rightarrow> int \<Rightarrow> string \<Rightarrow> string \<Rightarrow> string option
    \<Rightarrow> (secret_kind \<times> string option) list \<Rightarrow> (consistency_error, unit) op" where
  "update_profile_with_credentials cy p name mode org creds =
     tx uow_sql
       (andthen (if mode = ''free''
           then mapping_err uow_sql (select_stmt
                  (\<lambda>d. length (filter (\<lambda>r. ap_mode r = ''free'' \<and> ap_id r \<noteq> p) (db_profiles d))))
           else ret 0)
       (\<lambda>n. if mode = ''free'' \<and> 0 < n then raise FreeProfileConflict
        else andthen (mapping_err uow_sql (stmt (update_profile_row p name mode org)))
       (\<lambda>_. change_secrets cy p creds)))"

section \<open>Credentials of an instance\<close>

datatype credential_error =
    Resolution string
  | CredProfileNotFound int
  | MissingCredentials int string

fun show_credential_error :: "credential_error \<Rightarrow> string" where
  "show_credential_error (Resolution e) = ''credential resolution failed: '' @ e"
| "show_credential_error (CredProfileNotFound p) =
     ''profile '' @ show_int p @ '' not found: instance references a deleted account profile''"
| "show_credential_error (MissingCredentials p m) =
     ''profile '' @ show_int p @ '' mode requires credentials that are missing (mode='' @ m @ '')''"

fun show_secret_error :: "secret_error \<Rightarrow> string" where
  "show_secret_error (SecretDb e) = ''secret store db error: '' @ e"
| "show_secret_error (SecretUnavailable e) = ''secret unavailable: '' @ e"

fun profile_err_map :: "profile_error \<Rightarrow> credential_error" where
  "profile_err_map (ProfileNotFound p) = CredProfileNotFound p"
| "profile_err_map (ProfileConflict e) = Resolution (''account profile conflict: '' @ e)"
| "profile_err_map (ProfileDb e) = Resolution (''account profile db error: '' @ e)"

definition cred_err_map :: "secret_error \<Rightarrow> credential_error" where
  "cred_err_map e = Resolution (show_secret_error e)"

definition secret_for :: "crypto \<Rightarrow> secret_kind \<Rightarrow> account_profile \<Rightarrow> (credential_error, string option) op" where
  "secret_for cy k pf =
     andthen (mapping_err cred_err_map (secret_get_plaintext_for_profile cy k (pf_id pf)))
       (\<lambda>v. case v of
          Some x \<Rightarrow> ret (Some x)
        | None \<Rightarrow> if pf_id pf = default_profile_id
                  then mapping_err cred_err_map (secret_get_plaintext cy k) else ret None)"

definition resolve_credentials :: "crypto \<Rightarrow> int option \<Rightarrow> (credential_error, credentials) op" where
  "resolve_credentials cy p =
     andthen (mapping_err profile_err_map (profile_get (case p of None \<Rightarrow> default_profile_id | Some q \<Rightarrow> q)))
       (\<lambda>pf. case pf_mode pf of
          AmFree \<Rightarrow> ret credentials_free
        | AmWarpPlus \<Rightarrow>
            andthen (secret_for cy WarpPlusLicense pf)
              (\<lambda>license. case license of
                 Some l \<Rightarrow> ret (credentials_free\<lparr>cd_mode := WarpPlus, cd_license := Some l\<rparr>)
               | None \<Rightarrow> raise (MissingCredentials (pf_id pf) ''warp_plus (license missing)''))
        | AmZeroTrust \<Rightarrow>
            (case pf_org pf of
               None \<Rightarrow> raise (MissingCredentials (pf_id pf) ''zero_trust (org missing)'')
             | Some org \<Rightarrow>
                 andthen (secret_for cy ZeroTrustClientId pf)
                   (\<lambda>cid. andthen (secret_for cy ZeroTrustClientSecret pf)
                   (\<lambda>csec. case (cid, csec) of
                      (Some a, Some b) \<Rightarrow> ret \<lparr>cd_mode = ZeroTrust, cd_license = None, cd_org = Some org,
                                               cd_client_id = Some a, cd_client_secret = Some b\<rparr>
                    | _ \<Rightarrow> raise (MissingCredentials (pf_id pf) ''zero_trust (client id/secret missing)'')))))"

section \<open>The secret store as a map\<close>

text \<open>What the table stands for: a partial map from a kind and a profile (or none) to what opening
  the row gives. The operations refine the update and the removal of one key.\<close>

type_synonym secret_map = "secret_kind \<times> int option \<Rightarrow> (secret_error + string) option"

definition secrets_of :: "crypto \<Rightarrow> database \<Rightarrow> secret_map" where
  "secrets_of cy d = (\<lambda>(k, p). map_option (open_row cy) (find (secret_at k p) (db_secrets d)))"

definition crypto_ok :: "crypto \<Rightarrow> bool" where
  "crypto_ok cy \<longleftrightarrow>
     (\<forall>n p c. cy_seal cy n p = Some c \<longrightarrow> cy_open cy n c = Some p) \<and>
     (\<forall>i. length (cy_random cy i) = nonce_len)"

lemma kind_str_inj [simp]: "kind_str k = kind_str k' \<longleftrightarrow> k = k'"
  by (cases k; cases k') auto

lemma secret_at_same: "secret_at k p r \<Longrightarrow> secret_at k' p' r \<longleftrightarrow> k = k' \<and> p = p'"
  by (auto simp: secret_at_def)

lemma find_filter_other:
  "(k, p) \<noteq> (k', p') \<Longrightarrow> find (secret_at k' p') (filter (\<lambda>r. \<not> secret_at k p r) rs) = find (secret_at k' p') rs"
  by (induction rs) (auto simp: secret_at_same)

lemma find_filter_same: "find P (filter (\<lambda>r. \<not> P r) rs) = None"
  by (simp add: find_None_iff)

lemma find_append: "find P (xs @ ys) = (case find P xs of None \<Rightarrow> find P ys | Some x \<Rightarrow> Some x)"
  by (induction xs) auto

lemma find_map_keep:
  assumes "\<And>r. P r \<Longrightarrow> P (f r)"
  shows "find P (List.map (\<lambda>r. if P r then f r else r) rs) = map_option f (find P rs)"
  using assms by (induction rs) auto

lemma find_map_other:
  assumes "\<And>r. Q r \<Longrightarrow> \<not> P r \<and> \<not> P (f r)" and "\<And>r. P r \<Longrightarrow> \<not> Q r"
  shows "find P (List.map (\<lambda>r. if Q r then f r else r) rs) = find P rs"
  using assms by (induction rs) auto

lemma delete_secrets_db:
  "delete_secrets P d = Inr ((), d') \<Longrightarrow> db_secrets d' = filter (\<lambda>r. \<not> P r) (db_secrets d)"
  by (auto simp: delete_secrets_def)

lemma delete_secrets_map:
  assumes "delete_secrets (secret_at k p) d = Inr ((), d')"
  shows "secrets_of cy d' = (secrets_of cy d)((k, p) := None)"
proof
  fix key :: "secret_kind \<times> int option"
  obtain k' p' where key: "key = (k', p')" by (cases key)
  from assms have "db_secrets d' = filter (\<lambda>r. \<not> secret_at k p r) (db_secrets d)"
    by (auto simp: delete_secrets_def)
  then show "secrets_of cy d' key = ((secrets_of cy d)((k, p) := None)) key"
    by (auto simp: key secrets_of_def find_filter_other find_filter_same)
qed

lemma insert_secret_map:
  assumes "insert_secret r d = Inr ((), d')" and "secret_at k p r" and "find (secret_at k p) (db_secrets d) = None"
  shows "secrets_of cy d' = (secrets_of cy d)((k, p) \<mapsto> open_row cy r)"
proof
  fix key :: "secret_kind \<times> int option"
  obtain k' p' where key: "key = (k', p')" by (cases key)
  from assms(1) have d': "db_secrets d' = db_secrets d @ [r]"
    by (auto simp: insert_secret_def split: if_splits)
  from assms(2,3) show "secrets_of cy d' key = ((secrets_of cy d)((k, p) \<mapsto> open_row cy r)) key"
    by (auto simp: key secrets_of_def d' find_append secret_at_same [OF assms(2)] split: option.splits)
qed

lemma upsert_secret_map:
  assumes "upsert_secret k p c n d = Inr ((), d')"
  shows "\<exists>r. sr_cipher r = c \<and> sr_nonce r = n \<and> secrets_of cy d' = (secrets_of cy d)((k, Some p) \<mapsto> open_row cy r)"
proof (cases "list_ex (secret_at k (Some p)) (db_secrets d)")
  case True
  let ?f = "\<lambda>r. r\<lparr>sr_cipher := c, sr_nonce := n, sr_version := 1\<rparr>"
  from True assms have d': "db_secrets d' = List.map (\<lambda>r. if secret_at k (Some p) r then ?f r else r) (db_secrets d)"
    by (auto simp: upsert_secret_def)
  from True obtain r where r: "find (secret_at k (Some p)) (db_secrets d) = Some r"
    by (cases "find (secret_at k (Some p)) (db_secrets d)") (auto simp: find_None_iff list_ex_iff)
  have "find (secret_at k (Some p)) (db_secrets d') = Some (?f r)"
    unfolding d' by (subst find_map_keep) (simp_all add: secret_at_def r)
  moreover have "find (secret_at k' p') (db_secrets d') = find (secret_at k' p') (db_secrets d)"
    if "(k', p') \<noteq> (k, Some p)" for k' p'
    unfolding d' using that by (intro find_map_other) (auto simp: secret_at_def)
  ultimately have "secrets_of cy d' = (secrets_of cy d)((k, Some p) \<mapsto> open_row cy (?f r))"
    by (auto simp: secrets_of_def fun_eq_iff)
  then show ?thesis by (intro exI [of _ "?f r"]) simp
next
  case False
  let ?r = "\<lparr>sr_kind = kind_str k, sr_profile = Some p, sr_cipher = c, sr_nonce = n, sr_version = 1\<rparr>"
  from False have "find (secret_at k (Some p)) (db_secrets d) = None"
    by (auto simp: find_None_iff list_ex_iff)
  with False assms insert_secret_map [of ?r d d' k "Some p" cy] show ?thesis
    by (intro exI [of _ ?r]) (simp add: upsert_secret_def secret_at_def)
qed

lemma encrypt_Inr:
  assumes "encrypt cy v s = (Inr (c, n), s')" and "crypto_ok cy" and "valid_utf8 v"
    and "sr_cipher r = c" and "sr_nonce r = n"
  shows "open_row cy r = Inr v"
proof -
  from assms(1) have n: "n = cy_random cy (st_draws s)" and "cy_seal cy n v = Some c"
    by (auto simp: encrypt_def Let_def split: option.splits)
  with assms(2) have "cy_open cy n c = Some v" and "length n = nonce_len" by (auto simp: crypto_ok_def)
  with assms(3-5) show ?thesis by (simp add: open_row_def decrypt_def lossy_valid)
qed

lemma encrypt_db: "encrypt cy v s = (r, s') \<Longrightarrow> st_db s' = st_db s"
  by (auto simp: encrypt_def Let_def split: option.splits)

lemma replace_global_map:
  assumes "replace_global er k c n s = (Inr (), s')"
  shows "\<exists>r. sr_cipher r = c \<and> sr_nonce r = n \<and>
     secrets_of cy (st_db s') = (secrets_of cy (st_db s))((k, None) \<mapsto> open_row cy r)"
proof -
  let ?r = "\<lparr>sr_kind = kind_str k, sr_profile = None, sr_cipher = c, sr_nonce = n, sr_version = 1\<rparr>"
  from assms obtain s1 where "stmt (delete_secrets (secret_at k None)) s = (Inr (), s1)"
    and "stmt (insert_secret ?r) s1 = (Inr (), s')"
    by (auto simp: replace_global_def andthen_eq_Inr mapping_err_eq_Inr)
  then have del: "delete_secrets (secret_at k None) (st_db s) = Inr ((), st_db s1)"
    and ins: "insert_secret ?r (st_db s1) = Inr ((), st_db s')"
    by (auto dest!: stmt_Inr)
  from delete_secrets_db [OF del] have "find (secret_at k None) (db_secrets (st_db s1)) = None" by (simp add: find_filter_same)
  with insert_secret_map [OF ins, of k None cy] delete_secrets_map [OF del, of cy]
  show ?thesis by (intro exI [of _ ?r]) (simp add: secret_at_def)
qed

lemma plaintext_at_Inr:
  assumes "plaintext_at cy k p s = (Inr r, s')"
  shows "secrets_of cy (st_db s) (k, p) = map_option Inr r \<and> st_db s' = st_db s"
proof -
  from assms obtain row s1 where sel: "select_stmt (\<lambda>d. find (secret_at k p) (db_secrets d)) s = (Inr row, s1)"
    and k: "(case row of None \<Rightarrow> ret None | Some x \<Rightarrow> from_result (map_sum id Some (open_row cy x))) s1 = (Inr r, s')"
    unfolding plaintext_at_def andthen_eq_Inr mapping_err_eq_Inr by blast
  from select_Inr [OF sel] have row: "find (secret_at k p) (db_secrets (st_db s)) = row" and db: "st_db s1 = st_db s" by auto
  show ?thesis
  proof (cases row)
    case (Some x)
    with k row db show ?thesis by (cases "open_row cy x") (auto simp: secrets_of_def)
  qed (use k row db in \<open>auto simp: secrets_of_def\<close>)
qed

lemma set_profile_secret_map:
  assumes "andthen (mapping_err er (encrypt cy v)) (\<lambda>(c, n). mapping_err er' (stmt (upsert_secret k p c n))) s = (Inr (), s')"
    and "crypto_ok cy" and "valid_utf8 v"
  shows "secrets_of cy (st_db s') = (secrets_of cy (st_db s))((k, Some p) \<mapsto> Inr v)"
proof -
  from assms(1) obtain c n s1 where e: "encrypt cy v s = (Inr (c, n), s1)"
    and "stmt (upsert_secret k p c n) s1 = (Inr (), s')"
    by (auto simp: andthen_eq_Inr mapping_err_eq_Inr)
  then have "upsert_secret k p c n (st_db s) = Inr ((), st_db s')"
    by (auto dest!: stmt_Inr simp: encrypt_db)
  from upsert_secret_map [OF this, of cy] encrypt_Inr [OF e assms(2,3)] show ?thesis by auto
qed

lemma set_global_secret_map:
  assumes "encrypt cy v s = (Inr (c, n), s1)" and "replace_global er k c n s2 = (Inr (), s')"
    and "st_db s2 = st_db s" and "crypto_ok cy" and "valid_utf8 v"
  shows "secrets_of cy (st_db s') = (secrets_of cy (st_db s))((k, None) \<mapsto> Inr v)"
  using replace_global_map [OF assms(2), of cy] encrypt_Inr [OF assms(1,4,5)] assms(3) by auto

section \<open>Properties\<close>

text \<open>C15: The secret store implements a map. With a cipher that decrypts what it encrypts, writing
  a secret (a UTF-8 string) updates exactly one key, global or of a profile, deleting removes
  exactly that key, and reading returns what the map holds; every other secret, of any kind and
  profile, keeps its value.\<close>

theorem secret_store_refines_map:
  assumes "crypto_ok cy" and "valid_utf8 v"
  shows "(secret_set cy k v s = (Inr (), s') \<longrightarrow>
            secrets_of cy (st_db s') = (secrets_of cy (st_db s))((k, None) \<mapsto> Inr v)) \<and>
         (secret_set_for_profile cy k p v s = (Inr (), s') \<longrightarrow>
            secrets_of cy (st_db s') = (secrets_of cy (st_db s))((k, Some p) \<mapsto> Inr v)) \<and>
         (secret_delete k s = (Inr (), s') \<longrightarrow>
            secrets_of cy (st_db s') = (secrets_of cy (st_db s))((k, None) := None)) \<and>
         (secret_delete_for_profile k p s = (Inr (), s') \<longrightarrow>
            secrets_of cy (st_db s') = (secrets_of cy (st_db s))((k, Some p) := None)) \<and>
         (secret_get_plaintext cy k s = (Inr r, s') \<longrightarrow>
            secrets_of cy (st_db s) (k, None) = map_option Inr r) \<and>
         (secret_get_plaintext_for_profile cy k p s = (Inr r, s') \<longrightarrow>
            secrets_of cy (st_db s) (k, Some p) = map_option Inr r)"
proof (intro conjI impI)
  assume "secret_set cy k v s = (Inr (), s')"
  then obtain c n s1 where e: "encrypt cy v s = (Inr (c, n), s1)"
    and "tx secret_sql (replace_global secret_sql k c n) s1 = (Inr (), s')"
    by (auto simp: secret_set_def andthen_eq_Inr mapping_err_eq_Inr)
  then obtain s2 s3 where "replace_global secret_sql k c n s2 = (Inr (), s3)" "st_db s2 = st_db s1" "st_db s' = st_db s3"
    by (elim tx_Inr)
  with e assms set_global_secret_map [OF e] encrypt_db [OF e] show
    "secrets_of cy (st_db s') = (secrets_of cy (st_db s))((k, None) \<mapsto> Inr v)" by metis
qed (auto simp: secret_set_for_profile_def secret_delete_def secret_delete_for_profile_def
    secret_get_plaintext_def secret_get_plaintext_for_profile_def mapping_err_eq_Inr
    intro: set_profile_secret_map [OF _ assms] delete_secrets_map dest!: stmt_Inr plaintext_at_Inr)

definition demo_crypto :: crypto where
  "demo_crypto = \<lparr>cy_seal = (\<lambda>n p. Some (n @ p)), cy_open = (\<lambda>n c. strip_prefix n c),
     cy_random = (\<lambda>i. replicate 24 (CHR ''n''))\<rparr>"

lemma demo_crypto_ok: "crypto_ok demo_crypto"
  by (auto simp: crypto_ok_def demo_crypto_def nonce_len_def strip_prefix_Some simp del: replicate_numeral)

theorem secret_store_refines_map_witness:
  "\<exists>s'. secret_set demo_crypto ProxyPassword ''pw'' (demo_store db_migrated) = (Inr (), s') \<and>
     secrets_of demo_crypto (st_db s') (ProxyPassword, None) = Some (Inr ''pw'')"
proof -
  have v: "valid_utf8 ''pw''" by (simp add: ascii_valid is_ascii_def)
  obtain s' where s: "secret_set demo_crypto ProxyPassword ''pw'' (demo_store db_migrated) = (Inr (), s')"
    by (simp add: secret_set_def andthen_def mapping_err_def encrypt_def demo_crypto_def demo_store_def
        replace_global_def delete_secrets_def insert_secret_def profile_exists_def)
  show ?thesis using secret_store_refines_map [OF demo_crypto_ok v] s by fastforce
qed

lemma secrets_of_proxy [simp]: "secrets_of cy (d\<lparr>db_proxy := x\<rparr>) = secrets_of cy d"
  by (simp add: secrets_of_def)

text \<open>What a request for the password does to the map: keep, clear or set.\<close>

definition with_password :: "string option \<Rightarrow> secret_map \<Rightarrow> secret_map" where
  "with_password pw m =
     (case pw of None \<Rightarrow> m
      | Some v \<Rightarrow> m((ProxyPassword, None) := (if v = [] then None else Some (Inr v))))"

lemma write_password_map:
  assumes "write_password cy pw s = (Inr (), s')" and "crypto_ok cy" and "\<And>v. pw = Some v \<Longrightarrow> valid_utf8 v"
  shows "secrets_of cy (st_db s') = with_password pw (secrets_of cy (st_db s))"
proof (cases pw)
  case None
  with assms(1) show ?thesis by (simp add: write_password_def with_password_def)
next
  case (Some v)
  show ?thesis
  proof (cases "v = []")
    case True
    with Some assms(1) show ?thesis
      by (auto simp: write_password_def mapping_err_eq_Inr with_password_def intro: delete_secrets_map dest!: stmt_Inr)
  next
    case False
    with Some assms(1) obtain c n s1 where e: "encrypt cy v s = (Inr (c, n), s1)"
      and r: "replace_global uow_sql ProxyPassword c n s1 = (Inr (), s')"
      by (auto simp: write_password_def set_global_secret_def andthen_eq_Inr mapping_err_eq_Inr)
    from set_global_secret_map [OF e r encrypt_db [OF e] assms(2)] Some False assms(3) show ?thesis
      by (simp add: with_password_def)
  qed
qed

text \<open>C17: The proxy configuration and its password change together or not at all, whichever
  statement of the transaction fails: on an error both tables are as before, on success the row is
  the new configuration and the password is kept, removed or replaced as requested, with every
  other secret unchanged.\<close>

theorem proxy_password_atomic:
  assumes "crypto_ok cy" and "\<And>v. pw = Some v \<Longrightarrow> valid_utf8 v"
    and "update_proxy_with_password cy cfg pw s = (r, s')"
  shows "(\<forall>e. r = Inl e \<longrightarrow> st_db s' = st_db s) \<and>
         (r = Inr () \<longrightarrow>
            db_proxy (st_db s') = Some (proxy_config_row cfg) \<and>
            secrets_of cy (st_db s') = with_password pw (secrets_of cy (st_db s)))"
proof (intro conjI allI impI)
  fix e
  assume "r = Inl e"
  with assms(3) show "st_db s' = st_db s" by (auto simp: update_proxy_with_password_def dest: tx_atomic)
next
  assume "r = Inr ()"
  with assms(3) obtain s1 s2 where b: "andthen (write_password cy pw) (\<lambda>_. mapping_err uow_sql (stmt (upsert_proxy cfg))) s1 = (Inr (), s2)"
    and db: "st_db s1 = st_db s" "st_db s' = st_db s2"
    by (auto simp: update_proxy_with_password_def elim: tx_Inr)
  from b obtain s3 where w: "write_password cy pw s1 = (Inr (), s3)" and u: "stmt (upsert_proxy cfg) s3 = (Inr (), s2)"
    by (auto simp: andthen_eq_Inr mapping_err_eq_Inr)
  from stmt_Inr [OF u] have d2: "st_db s2 = st_db s3\<lparr>db_proxy := Some (proxy_config_row cfg)\<rparr>"
    by (auto simp: upsert_proxy_def)
  from d2 db show "db_proxy (st_db s') = Some (proxy_config_row cfg)" by simp
  from write_password_map [OF w assms(1,2)] d2 db
  show "secrets_of cy (st_db s') = with_password pw (secrets_of cy (st_db s))" by simp
qed

theorem proxy_password_atomic_witness:
  "\<exists>r s'. update_proxy_with_password demo_crypto demo_proxy (Some ''pw'')
       ((demo_store db_migrated)\<lparr>st_faults := [None, None, None, Some ''disk full'']\<rparr>) = (r, s') \<and>
     r \<noteq> Inr () \<and> st_db s' = db_migrated"
proof -
  let ?s = "(demo_store db_migrated)\<lparr>st_faults := [None, None, None, Some ''disk full'']\<rparr>"
  have v: "\<And>v. Some ''pw'' = Some v \<Longrightarrow> valid_utf8 v" by (auto simp: ascii_valid is_ascii_def)
  obtain r s' where u: "update_proxy_with_password demo_crypto demo_proxy (Some ''pw'') ?s = (r, s')"
    by (cases "update_proxy_with_password demo_crypto demo_proxy (Some ''pw'') ?s")
  then have "fst (update_proxy_with_password demo_crypto demo_proxy (Some ''pw'') ?s) = r" by simp
  then have "r = Inl (ConsistencyDb ''disk full'')"
    by (simp add: update_proxy_with_password_def tx_def write_password_def set_global_secret_def replace_global_def
        andthen_def mapping_err_def encrypt_def demo_crypto_def demo_store_def select_stmt_def stmt_def
        delete_secrets_def insert_secret_def profile_exists_def uow_sql_def)
  with proxy_password_atomic [OF demo_crypto_ok v u] u show ?thesis by (auto simp: demo_store_def)
qed

section \<open>Resolving credentials\<close>

text \<open>The secrets a profile may use: its own, and for the default profile the global ones when it
  has none of that kind.\<close>

definition usable_secret :: "crypto \<Rightarrow> database \<Rightarrow> int \<Rightarrow> secret_kind \<Rightarrow> string \<Rightarrow> bool" where
  "usable_secret cy d p k v \<longleftrightarrow>
     secrets_of cy d (k, Some p) = Some (Inr v) \<or>
     p = default_profile_id \<and> secrets_of cy d (k, Some p) = None \<and> secrets_of cy d (k, None) = Some (Inr v)"

definition entitled :: "crypto \<Rightarrow> database \<Rightarrow> profile_row \<Rightarrow> credentials \<Rightarrow> bool" where
  "entitled cy d row c \<longleftrightarrow>
     (case mode_of_column (ap_mode row) of
        AmFree \<Rightarrow> c = credentials_free
      | AmWarpPlus \<Rightarrow> \<exists>l. c = credentials_free\<lparr>cd_mode := WarpPlus, cd_license := Some l\<rparr> \<and>
                         usable_secret cy d (ap_id row) WarpPlusLicense l
      | AmZeroTrust \<Rightarrow> \<exists>org a b. ap_org row = Some org \<and>
                         c = \<lparr>cd_mode = ZeroTrust, cd_license = None, cd_org = Some org,
                              cd_client_id = Some a, cd_client_secret = Some b\<rparr> \<and>
                         usable_secret cy d (ap_id row) ZeroTrustClientId a \<and>
                         usable_secret cy d (ap_id row) ZeroTrustClientSecret b)"

lemma profile_get_Inr:
  assumes "profile_get p s = (Inr pf, s')"
  shows "\<exists>row. find_profile (st_db s) p = Some row \<and> pf = map_profile_row row \<and> st_db s' = st_db s"
proof -
  from assms obtain row s1 where sel: "select_stmt (\<lambda>d. find_profile d p) s = (Inr row, s1)"
    and k: "(case row of None \<Rightarrow> raise (ProfileNotFound p) | Some r \<Rightarrow> ret (map_profile_row r)) s1 = (Inr pf, s')"
    unfolding profile_get_def andthen_eq_Inr mapping_err_eq_Inr by blast
  with select_Inr [OF sel] show ?thesis by (auto simp: case_option_op)
qed

lemma secret_for_Inr:
  assumes "secret_for cy k pf s = (Inr r, s')"
  shows "st_db s' = st_db s \<and> (\<forall>v. r = Some v \<longrightarrow> usable_secret cy (st_db s) (pf_id pf) k v)"
proof -
  from assms obtain v s1 where v: "plaintext_at cy k (Some (pf_id pf)) s = (Inr v, s1)"
    and c: "(case v of Some x \<Rightarrow> ret (Some x)
       | None \<Rightarrow> if pf_id pf = default_profile_id then mapping_err cred_err_map (secret_get_plaintext cy k) else ret None) s1
      = (Inr r, s')"
    unfolding secret_for_def andthen_eq_Inr mapping_err_eq_Inr secret_get_plaintext_for_profile_def by blast
  note own = plaintext_at_Inr [OF v]
  show ?thesis
  proof (cases v)
    case None
    show ?thesis
    proof (cases "pf_id pf = default_profile_id")
      case True
      with c None have "plaintext_at cy k None s1 = (Inr r, s')"
        by (simp add: mapping_err_eq_Inr secret_get_plaintext_def)
      from plaintext_at_Inr [OF this] own None True show ?thesis by (auto simp: usable_secret_def)
    qed (use c None own in auto)
  qed (use c own in \<open>auto simp: usable_secret_def\<close>)
qed

text \<open>C16: An instance only ever starts with the credentials of the account it is bound to.
  Resolution succeeds only when the profile exists, in its own mode, with every secret the mode
  needs; those are the profile's own secrets, and the global ones are used for the default profile
  alone. A profile with missing credentials is an error, never a free account.\<close>

theorem credentials_of_own_profile:
  assumes "resolve_credentials cy p s = (Inr c, s')"
  shows "\<exists>row. find_profile (st_db s) (case p of None \<Rightarrow> default_profile_id | Some q \<Rightarrow> q) = Some row \<and>
           entitled cy (st_db s) row c \<and> st_db s' = st_db s"
proof -
  let ?p = "case p of None \<Rightarrow> default_profile_id | Some q \<Rightarrow> q"
  from assms obtain pf s1 where g: "profile_get ?p s = (Inr pf, s1)" and
    k: "(case pf_mode pf of
          AmFree \<Rightarrow> ret credentials_free
        | AmWarpPlus \<Rightarrow>
            andthen (secret_for cy WarpPlusLicense pf)
              (\<lambda>license. case license of
                 Some l \<Rightarrow> ret (credentials_free\<lparr>cd_mode := WarpPlus, cd_license := Some l\<rparr>)
               | None \<Rightarrow> raise (MissingCredentials (pf_id pf) ''warp_plus (license missing)''))
        | AmZeroTrust \<Rightarrow>
            (case pf_org pf of
               None \<Rightarrow> raise (MissingCredentials (pf_id pf) ''zero_trust (org missing)'')
             | Some org \<Rightarrow>
                 andthen (secret_for cy ZeroTrustClientId pf)
                   (\<lambda>cid. andthen (secret_for cy ZeroTrustClientSecret pf)
                   (\<lambda>csec. case (cid, csec) of
                      (Some a, Some b) \<Rightarrow> ret \<lparr>cd_mode = ZeroTrust, cd_license = None, cd_org = Some org,
                                               cd_client_id = Some a, cd_client_secret = Some b\<rparr>
                    | _ \<Rightarrow> raise (MissingCredentials (pf_id pf) ''zero_trust (client id/secret missing)''))))) s1 = (Inr c, s')"
    unfolding resolve_credentials_def andthen_eq_Inr mapping_err_eq_Inr by blast
  from profile_get_Inr [OF g] obtain row where row: "find_profile (st_db s) ?p = Some row"
    and pf: "pf = map_profile_row row" and db: "st_db s1 = st_db s" by blast
  have "entitled cy (st_db s) row c \<and> st_db s' = st_db s"
    using k db
    by (cases "mode_of_column (ap_mode row)")
       (auto simp: entitled_def pf map_profile_row_def andthen_eq_Inr case_option_op dest!: secret_for_Inr)
  with row show ?thesis by blast
qed

definition demo_plus :: "database" where
  "demo_plus = db_migrated\<lparr>db_profiles := db_profiles db_migrated @
     [\<lparr>ap_id = 2, ap_name = ''plus'', ap_mode = ''warp_plus'', ap_org = None\<rparr>],
     db_secrets := [\<lparr>sr_kind = ''warp_plus_license'', sr_profile = Some 2, sr_cipher = replicate 24 (CHR ''n'') @ ''K'',
        sr_nonce = replicate 24 (CHR ''n''), sr_version = 1\<rparr>]\<rparr>"

theorem credentials_of_own_profile_witness:
  "\<exists>c s'. resolve_credentials demo_crypto (Some 2) (demo_store demo_plus) = (Inr c, s') \<and>
     cd_license c = Some ''K'' \<and> (\<exists>row. find_profile demo_plus 2 = Some row \<and> entitled demo_crypto demo_plus row c)"
proof -
  have o: "open_row demo_crypto \<lparr>sr_kind = ''warp_plus_license'', sr_profile = Some 2,
      sr_cipher = replicate 24 (CHR ''n'') @ ''K'', sr_nonce = replicate 24 (CHR ''n''), sr_version = 1\<rparr> = Inr ''K''"
    by (simp add: open_row_def decrypt_def demo_crypto_def nonce_len_def lossy_ascii is_ascii_def)
  have r: "resolve_credentials demo_crypto (Some 2) (demo_store demo_plus) =
      (Inr (credentials_free\<lparr>cd_mode := WarpPlus, cd_license := Some ''K''\<rparr>), demo_store demo_plus)"
    using o
    by (simp add: resolve_credentials_def profile_get_def secret_for_def secret_get_plaintext_for_profile_def plaintext_at_def
        andthen_def mapping_err_def demo_store_def demo_plus_def db_migrated_def find_profile_def map_profile_row_def
        mode_of_column_def mode_parse_def secret_at_def del: replicate_numeral)
  show ?thesis using credentials_of_own_profile [OF r] r by (auto simp: demo_store_def)
qed

section \<open>Deleting a profile\<close>

lemma unbind_disabled:
  "update_instances (\<lambda>r. wi_profile r = Some p \<and> wi_enabled r = 0) (\<lambda>r. r\<lparr>wi_profile := None\<rparr>) d =
     Inr (length (filter (\<lambda>r. wi_profile r = Some p \<and> wi_enabled r = 0) (db_instances d)),
          d\<lparr>db_instances := List.map (\<lambda>r. if wi_profile r = Some p \<and> wi_enabled r = 0 then r\<lparr>wi_profile := None\<rparr> else r)
               (db_instances d)\<rparr>)"
  by (simp add: update_instances_def list_all_iff profile_exists_def)

text \<open>Refusing to delete a profile that an enabled instance uses is not free of effects: the
  statement that unbinds the disabled instances is not part of a transaction with the deletion, so
  after the refusal they are bound to the default profile, while the profile still exists.\<close>

theorem refused_delete_unbinds:
  assumes "p \<noteq> default_profile_id" and "p \<in> ap_id ` set (db_profiles (st_db s))" and "st_faults s = []"
    and "a \<in> set (db_instances (st_db s))" and "wi_profile a = Some p" and "wi_enabled a \<noteq> 0"
    and "b \<in> set (db_instances (st_db s))" and "wi_profile b = Some p" and "wi_enabled b = 0"
  shows "\<exists>s'. profile_delete p s =
            (Inl (ProfileConflict (''profile '' @ show_int p @ '' is still used by an enabled instance'')), s') \<and>
          p \<in> ap_id ` set (db_profiles (st_db s')) \<and> b\<lparr>wi_profile := None\<rparr> \<in> set (db_instances (st_db s'))"
proof -
  let ?f = "\<lambda>r. if wi_profile r = Some p \<and> wi_enabled r = 0 then r\<lparr>wi_profile := None\<rparr> else r"
  let ?d = "st_db s\<lparr>db_instances := List.map ?f (db_instances (st_db s))\<rparr>"
  have "a \<in> set (db_instances ?d)" using assms(4,6) by simp
  with assms(5) have "list_ex (\<lambda>r. wi_profile r = Some p) (db_instances ?d)" unfolding list_ex_iff by blast
  with assms(2) have "delete_profile_row p ?d = Inl fk_error" by (simp add: delete_profile_row_def)
  moreover have "is_fk_violation fk_error" by (simp add: fk_error_def)
  ultimately have "profile_delete p s =
      (Inl (ProfileConflict (''profile '' @ show_int p @ '' is still used by an enabled instance'')), s\<lparr>st_db := ?d\<rparr>)"
    using assms(1,3) by (simp add: profile_delete_def andthen_def mapping_err_def unbind_disabled)
  moreover have "?f b \<in> ?f ` set (db_instances (st_db s))" using assms(7) by (rule imageI)
  ultimately show ?thesis using assms(2,8,9) by (intro exI [of _ "s\<lparr>st_db := ?d\<rparr>"]) simp
qed

definition demo_bound :: database where
  "demo_bound = demo_plus\<lparr>db_instances := [default_instance 1 ''a'' (Some 2),
     (default_instance 2 ''b'' (Some 2))\<lparr>wi_enabled := 0\<rparr>]\<rparr>"

theorem refused_delete_unbinds_witness:
  "\<exists>e s'. profile_delete 2 (demo_store demo_bound) = (Inl e, s') \<and>
     (default_instance 2 ''b'' None)\<lparr>wi_enabled := 0\<rparr> \<in> set (db_instances (st_db s'))"
proof -
  let ?a = "default_instance 1 ''a'' (Some 2)" and ?b = "(default_instance 2 ''b'' (Some 2))\<lparr>wi_enabled := 0\<rparr>"
  have "?b\<lparr>wi_profile := None\<rparr> = (default_instance 2 ''b'' None)\<lparr>wi_enabled := 0\<rparr>"
    by (simp add: default_instance_def)
  moreover have "2 \<noteq> default_profile_id" "2 \<in> ap_id ` set (db_profiles (st_db (demo_store demo_bound)))"
    "st_faults (demo_store demo_bound) = []" "?a \<in> set (db_instances (st_db (demo_store demo_bound)))"
    "?b \<in> set (db_instances (st_db (demo_store demo_bound)))" "wi_profile ?a = Some 2" "wi_enabled ?a \<noteq> 0"
    "wi_profile ?b = Some 2" "wi_enabled ?b = 0"
    by (simp_all add: default_profile_id_def demo_store_def demo_bound_def demo_plus_def default_instance_def)
  ultimately show ?thesis
    using refused_delete_unbinds [of 2 "demo_store demo_bound" ?a ?b] by metis
qed

section \<open>Invariants of the profiles\<close>

text \<open>Names are unique, and the built-in profile is there and is the only free one.\<close>

definition profiles_ok :: "database \<Rightarrow> bool" where
  "profiles_ok d \<longleftrightarrow>
     distinct (List.map ap_name (db_profiles d)) \<and>
     List.map ap_id (filter (\<lambda>r. ap_mode r = ''free'') (db_profiles d)) = [default_profile_id]"

definition db_ok :: "database \<Rightarrow> bool" where
  "db_ok d \<longleftrightarrow> desired_ok d \<and> profiles_ok d"

lemma db_migrated_ok: "db_ok db_migrated"
  by (simp add: db_ok_def desired_ok_def db_wf_def warp_plus_single_def profiles_ok_def db_migrated_def
      default_profile_id_def)

lemma keeps_conj: "keeps I m \<Longrightarrow> keeps J m \<Longrightarrow> keeps (\<lambda>d. I d \<and> J d) m"
  unfolding keeps_def by (rule tripleI) (auto dest: triple_Inr triple_Inl)

lemma db_okI: "keeps desired_ok m \<Longrightarrow> keeps profiles_ok m \<Longrightarrow> keeps db_ok m"
  using keeps_conj [of desired_ok m profiles_ok] by (simp add: db_ok_def [abs_def])

text \<open>What only looks at the profiles survives every operation on instances.\<close>

lemma profiles_ok_cong: "db_profiles d' = db_profiles d \<Longrightarrow> profiles_ok d' = profiles_ok d"
  by (simp add: profiles_ok_def)

lemma update_where_profiles [inv_intros]: "keeps profiles_ok (update_where P f)"
  unfolding update_where_def by (intro inv_intros) (auto simp: update_instances_Inr profiles_ok_def)

lemma update_id_profiles [inv_intros]: "keeps profiles_ok (update_id i f)"
  unfolding update_id_def by (intro inv_intros)

lemma repo_profiles [inv_intros]:
  "keeps profiles_ok (repo_set_desired i en ds)"
  "keeps profiles_ok (repo_record_backoff i a b)"
  "keeps profiles_ok (repo_clear_backoff i)"
  "keeps profiles_ok (repo_mark_restart_pending p)"
  "keeps profiles_ok (repo_clear_restart_pending i)"
  "keeps profiles_ok (repo_acknowledge_restart i g)"
  "keeps profiles_ok (repo_rebind_profile i q)"
  unfolding repo_set_desired_def repo_record_backoff_def repo_clear_backoff_def repo_mark_restart_pending_def
    repo_clear_restart_pending_def repo_acknowledge_restart_def repo_rebind_profile_def
  by (intro inv_intros)+

lemma repo_request_restart_profiles [inv_intros]: "keeps profiles_ok (repo_request_restart i)"
  unfolding repo_request_restart_def
  by (intro inv_intros) (auto simp: bind_res_eq_Inr update_instances_Inr profiles_ok_def)

lemma repo_delete_profiles [inv_intros]: "keeps profiles_ok (repo_delete i)"
  unfolding repo_delete_def by (intro inv_intros) (auto simp: delete_instances_def profiles_ok_def)

lemma ensure_bindable_keeps [inv_intros]: "keeps I (ensure_warp_plus_bindable p excl)"
  unfolding keeps_def by (rule triple_conseq [OF ensure_bindable]) auto

lemma guarded_profiles [inv_intros]:
  "keeps profiles_ok (repo_rebind_profile_guarded i p)" "keeps profiles_ok (repo_create_guarded name p)"
  unfolding repo_rebind_profile_guarded_def repo_create_guarded_def insert_row_def
  by (intro inv_intros; auto simp: insert_instance_def Let_def profiles_ok_def split: if_splits)+

text \<open>Secrets and the proxy row are not part of either invariant.\<close>

lemma db_ok_secrets: "db_ok (d\<lparr>db_secrets := x\<rparr>) = db_ok d" "db_ok (d\<lparr>db_proxy := y\<rparr>) = db_ok d"
  by (simp_all add: db_ok_def desired_ok_def db_wf_def warp_plus_single_def bound_count_def profiles_ok_def
      profile_exists_def list_all_iff split: option.splits)

lemma secret_statements_keep [inv_intros]:
  "keeps db_ok (stmt (delete_secrets P))" "keeps db_ok (stmt (insert_secret r))"
  "keeps db_ok (stmt (upsert_secret k p c n))" "keeps db_ok (stmt (upsert_proxy cfg))"
  by (intro inv_intros; auto simp: delete_secrets_def insert_secret_def upsert_secret_def upsert_proxy_def
      db_ok_secrets split: if_splits)+

lemma encrypt_keeps [inv_intros]: "keeps I (encrypt cy v)"
  unfolding keeps_def by (rule tripleI) (auto dest: encrypt_db)

lemma replace_global_keeps [inv_intros]: "keeps db_ok (replace_global er k c n)"
  unfolding replace_global_def by (intro inv_intros)

lemma profile_secret_keeps [inv_intros]:
  "keeps db_ok (set_profile_secret cy k p v)" "keeps db_ok (set_global_secret cy k v)"
  "keeps db_ok (delete_profile_secret k p)" "keeps db_ok (write_password cy pw)"
proof -
  show "keeps db_ok (set_profile_secret cy k p v)" and g: "keeps db_ok (set_global_secret cy k v)" for k v
    unfolding set_profile_secret_def set_global_secret_def
    by (intro keeps_andthen keeps_mapping_err encrypt_keeps; clarsimp intro!: inv_intros)+
  show d: "keeps db_ok (delete_profile_secret k p)"
    unfolding delete_profile_secret_def by (intro inv_intros)
  show "keeps db_ok (write_password cy pw)"
    using g by (cases pw) (auto simp: write_password_def intro: inv_intros)
qed

lemma set_new_secrets_keeps [inv_intros]: "keeps db_ok (set_new_secrets cy p cs)"
proof (induction cs)
  case (Cons c cs)
  obtain k v where "c = (k, v)" by (cases c)
  with Cons show ?case by (cases v) (auto intro!: inv_intros)
qed (simp only: set_new_secrets.simps keeps_simple)

lemma change_secrets_keeps [inv_intros]: "keeps db_ok (change_secrets cy p cs)"
proof (induction cs)
  case (Cons c cs)
  obtain k v where "c = (k, v)" by (cases c)
  with Cons show ?case by (cases v) (auto intro!: inv_intros)
qed (simp only: change_secrets.simps keeps_simple)

lemma proxy_update_keeps [inv_intros]: "keeps db_ok (update_proxy_with_password cy cfg pw)"
  unfolding update_proxy_with_password_def by (intro inv_intros)

lemma only_default_free:
  assumes "profiles_ok d" and "r \<in> set (db_profiles d)" and "ap_mode r = ''free''"
  shows "ap_id r = default_profile_id"
proof -
  from assms(2,3) have "ap_id r \<in> set (List.map ap_id (filter (\<lambda>r. ap_mode r = ''free'') (db_profiles d)))" by simp
  with assms(1) show ?thesis by (simp add: profiles_ok_def)
qed

lemma free_exists: "profiles_ok d \<Longrightarrow> 0 < length (filter (\<lambda>r. ap_mode r = ''free'') (db_profiles d))"
  unfolding profiles_ok_def by (metis length_map length_greater_0_conv list.distinct(1))

lemma insert_profile_keeps:
  assumes d: "db_ok d" and u: "insert_profile name mode org d = Inr (i, d')" and m: "mode \<noteq> ''free''"
  shows "db_ok d'"
proof -
  let ?i = "next_rowid (List.map ap_id (db_profiles d))"
  from u have d': "d' = d\<lparr>db_profiles := db_profiles d @ [\<lparr>ap_id = ?i, ap_name = name, ap_mode = mode, ap_org = org\<rparr>]\<rparr>"
    and name: "name \<notin> ap_name ` set (db_profiles d)"
    by (auto simp: insert_profile_def Let_def split: if_splits)
  have fresh: "?i \<notin> ap_id ` set (db_profiles d)"
    using next_rowid_fresh [of _ "List.map ap_id (db_profiles d)"] by fastforce
  have refs: "\<forall>r\<in>set (db_instances d). profile_exists d (wi_profile r)"
    using d by (simp add: db_ok_def desired_ok_def db_wf_def list_all_iff)
  have none: "filter (\<lambda>r. wi_profile r = Some ?i) (db_instances d) = []"
    using refs fresh by (auto simp: filter_empty_conv profile_exists_def split: option.splits)
  have "db_wf d'"
    using d refs fresh
    by (auto simp: d' db_ok_def desired_ok_def db_wf_def list_all_iff profile_exists_def split: option.splits)
  moreover have "warp_plus_single d'"
    using d none by (auto simp: d' db_ok_def desired_ok_def warp_plus_single_def bound_count_def)
  moreover have "profiles_ok d'"
    using d name m by (simp add: d' db_ok_def profiles_ok_def)
  ultimately show ?thesis by (simp add: db_ok_def desired_ok_def)
qed

lemma create_profile_keeps [inv_intros]: "keeps db_ok (create_profile_with_credentials cy name mode org creds)"
proof -
  let ?n = "\<lambda>d. length (filter (\<lambda>r. ap_mode r = ''free'') (db_profiles d))"
  have guard: "triple db_ok (if mode = ''free'' then mapping_err uow_sql (select_stmt ?n) else ret 0)
      (\<lambda>n d. db_ok d \<and> (mode = ''free'' \<longrightarrow> 0 < n)) (\<lambda>_. True)"
    by (auto intro!: inv_intros simp: db_ok_def dest: free_exists)
  have ins: "triple (\<lambda>d. db_ok d \<and> mode \<noteq> ''free'') (mapping_err uow_sql (stmt (insert_profile name mode org)))
      (\<lambda>_. db_ok) (\<lambda>_. True)"
    by (intro inv_intros) (auto dest: insert_profile_keeps)
  have secrets: "triple db_ok (andthen (set_new_secrets cy i creds) (\<lambda>_. ret i)) (\<lambda>_. db_ok) (\<lambda>_. True)" for i
    using keeps_andthen [OF set_new_secrets_keeps keeps_simple(1)] by (fastforce simp: keeps_def intro: triple_conseq)
  have rest: "triple (\<lambda>d. db_ok d \<and> (mode = ''free'' \<longrightarrow> 0 < n))
      (if mode = ''free'' \<and> 0 < n then raise FreeProfileConflict
       else andthen (mapping_err uow_sql (stmt (insert_profile name mode org)))
         (\<lambda>i. andthen (set_new_secrets cy i creds) (\<lambda>_. ret i))) (\<lambda>_. db_ok) (\<lambda>_. True)" for n
  proof (cases "mode = ''free'' \<and> 0 < n")
    case False
    have "triple (\<lambda>d. db_ok d \<and> (mode = ''free'' \<longrightarrow> 0 < n))
      (andthen (mapping_err uow_sql (stmt (insert_profile name mode org)))
         (\<lambda>i. andthen (set_new_secrets cy i creds) (\<lambda>_. ret i))) (\<lambda>_. db_ok) (\<lambda>_. True)"
      by (rule triple_andthen [OF triple_conseq [OF ins] secrets]) (use False in auto)
    with False show ?thesis by (simp only: if_False simp_thms)
  qed (auto simp: triple_def)
  show ?thesis
    unfolding create_profile_with_credentials_def keeps_def
    by (rule triple_tx [OF triple_andthen [OF guard rest]])
qed

lemma update_profile_row_keeps:
  assumes d: "db_ok d" and u: "update_profile_row p name mode org d = Inr (n, d')"
    and p: "p \<noteq> default_profile_id" and m: "mode \<noteq> ''free''" and b: "bound_count (\<lambda>_. True) p d = 0"
  shows "db_ok d'"
proof -
  let ?f = "\<lambda>r. if ap_id r = p then r\<lparr>ap_name := name, ap_mode := mode, ap_org := org\<rparr> else r"
  from u have d': "d' = d\<lparr>db_profiles := List.map ?f (db_profiles d)\<rparr>"
    and name: "\<And>r q. r \<in> set (db_profiles d) \<Longrightarrow> ap_id r = p \<Longrightarrow> q \<in> set (db_profiles d) \<Longrightarrow> ap_id q \<noteq> p \<Longrightarrow> ap_name q \<noteq> name"
    by (auto simp: update_profile_row_def list_ex_iff split: if_splits)
  have id: "ap_id \<circ> ?f = ap_id" by auto
  have idm: "List.map ap_id (db_profiles d') = List.map ap_id (db_profiles d)" by (simp add: d' id)
  then have ids: "ap_id ` set (db_profiles d') = ap_id ` set (db_profiles d)" by (metis list.set_map)
  have dist: "distinct (List.map ap_id (db_profiles d))" "distinct (List.map ap_name (db_profiles d))"
    using d by (simp_all add: db_ok_def desired_ok_def db_wf_def profiles_ok_def)
  have "profile_exists d' q = profile_exists d q" for q using ids by (cases q) (simp_all add: profile_exists_def)
  moreover have "db_instances d' = db_instances d" by (simp add: d')
  ultimately have "db_wf d'"
    using d idm by (simp add: db_ok_def desired_ok_def db_wf_def list_all_iff)
  moreover have "warp_plus_single d'"
    using d b by (auto simp: d' db_ok_def desired_ok_def warp_plus_single_def bound_count_def list_all_iff)
  moreover have "distinct (List.map ap_name (List.map ?f (db_profiles d)))"
    using dist name by (auto simp: distinct_map inj_on_def)
  moreover have "List.map ap_id (filter (\<lambda>r. ap_mode r = ''free'') (List.map ?f (db_profiles d))) =
      List.map ap_id (filter (\<lambda>r. ap_mode r = ''free'') (db_profiles d))"
  proof -
    have "\<forall>r\<in>set (db_profiles d). ap_mode (?f r) = ''free'' \<longleftrightarrow> ap_mode r = ''free''"
      using only_default_free [of d] d p m by (auto simp: db_ok_def)
    then have "filter ((\<lambda>r. ap_mode r = ''free'') \<circ> ?f) (db_profiles d) = filter (\<lambda>r. ap_mode r = ''free'') (db_profiles d)"
      by (intro filter_cong) auto
    with id show ?thesis by (simp add: filter_map)
  qed
  ultimately show ?thesis using d by (simp add: db_ok_def desired_ok_def profiles_ok_def d')
qed

lemma delete_profile_row_keeps:
  assumes d: "db_ok d" and u: "delete_profile_row p d = Inr (x, d')" and p: "p \<noteq> default_profile_id"
  shows "db_ok d'"
proof -
  have refs: "\<forall>r\<in>set (db_instances d). profile_exists d (wi_profile r)"
    using d by (simp add: db_ok_def desired_ok_def db_wf_def list_all_iff)
  from u have d': "d' = d\<lparr>db_profiles := filter (\<lambda>r. ap_id r \<noteq> p) (db_profiles d),
                     db_secrets := filter (\<lambda>r. sr_profile r \<noteq> Some p) (db_secrets d)\<rparr>"
    and "p \<notin> ap_id ` set (db_profiles d) \<or> (\<forall>r\<in>set (db_instances d). wi_profile r \<noteq> Some p)"
    by (auto simp: delete_profile_row_def list_ex_iff split: if_splits)
  then have nb: "\<forall>r\<in>set (db_instances d). wi_profile r \<noteq> Some p"
    using refs by (auto simp: profile_exists_def)
  have "profile_exists d' (wi_profile r)" if "r \<in> set (db_instances d)" for r
  proof (cases "wi_profile r")
    case (Some q)
    with refs nb that have "q \<in> ap_id ` set (db_profiles d)" "q \<noteq> p" by (auto simp: profile_exists_def dest!: bspec)
    with Some show ?thesis by (auto simp: profile_exists_def d')
  qed (simp add: profile_exists_def)
  then have "db_wf d'"
    using d by (auto simp: d' db_ok_def desired_ok_def db_wf_def list_all_iff distinct_map inj_on_def)
  moreover have "warp_plus_single d'"
    using d by (auto simp: d' db_ok_def desired_ok_def warp_plus_single_def bound_count_def list_all_iff)
  moreover have "profiles_ok d'"
  proof -
    have "filter (\<lambda>r. ap_mode r = ''free'') (filter (\<lambda>r. ap_id r \<noteq> p) (db_profiles d)) =
        filter (\<lambda>r. ap_mode r = ''free'') (db_profiles d)"
      unfolding filter_filter using only_default_free [of d] d p by (intro filter_cong) (auto simp: db_ok_def)
    moreover have "distinct (List.map ap_name (filter (\<lambda>r. ap_id r \<noteq> p) (db_profiles d)))"
      using d by (auto simp: db_ok_def profiles_ok_def distinct_map inj_on_def)
    ultimately show ?thesis using d by (simp add: d' db_ok_def profiles_ok_def)
  qed
  ultimately show ?thesis by (simp add: db_ok_def desired_ok_def)
qed

lemma profile_delete_keeps [inv_intros]: "keeps db_ok (profile_delete p)"
proof (cases "p = default_profile_id")
  case True
  then show ?thesis unfolding profile_delete_def by (auto intro: inv_intros)
next
  case False
  have "keeps db_ok (mapping_err profile_sql (stmt (update_instances
      (\<lambda>r. wi_profile r = Some p \<and> wi_enabled r = 0) (\<lambda>r. r\<lparr>wi_profile := None\<rparr>))))"
  proof (intro inv_intros)
    fix d x d'
    assume d: "db_ok d" and u: "update_instances (\<lambda>r. wi_profile r = Some p \<and> wi_enabled r = 0)
      (\<lambda>r. r\<lparr>wi_profile := None\<rparr>) d = Inr (x, d')"
    then show "db_ok d'"
      using update_keeps_wf [OF _ u] update_keeps_single [OF _ u]
      by (auto simp: db_ok_def desired_ok_def update_instances_Inr profiles_ok_def)
  qed
  moreover have "keeps db_ok (mapping_err g (stmt (delete_profile_row p)))" for g :: "sql_error \<Rightarrow> profile_error"
    using False by (intro inv_intros) (auto dest: delete_profile_row_keeps)
  ultimately show ?thesis unfolding profile_delete_def using False by (simp add: keeps_andthen)
qed

lemma profile_reads_keep [inv_intros]:
  "keeps I (profile_get p)" "keeps I profile_list" "keeps I (exists_at k q)" "keeps I (secret_exists k)"
  "keeps I (secret_exists_for_profile k p)" "keeps I (plaintext_at cy k q)"
  unfolding profile_get_def profile_list_def exists_at_def secret_exists_def secret_exists_for_profile_def plaintext_at_def
  by (intro inv_intros; auto intro: inv_intros split: option.splits)+

end
