(* ===== verification/Net.thy ===== *)
theory Net
  imports RustNet
begin

unbundle bit_operations_syntax

text \<open>
  \<open>src/net.rs\<close>: the CIDR blocks of the proxy allowlist. \<open>contains_ip\<close> is
  \<open>IpNetwork::contains\<close>, \<open>parse_cidr\<close> the strict parser, \<open>show_network\<close> the
  \<open>Display\<close> instance. The lemmas characterise membership by the leading bits of the
  address and say which blocks the parser can produce.
\<close>

section \<open>Networks\<close>

datatype ip_network =
    NetV4 (v4_net: "32 word") (v4_prefix: nat)
  | NetV6 (v6_net: "128 word") (v6_prefix: nat)
  | Exact ip_addr

fun show_network :: "ip_network \<Rightarrow> string" where
  "show_network (NetV4 net p) = show_v4 net @ ''/'' @ show_nat p"
| "show_network (NetV6 net p) = show_v6 net @ ''/'' @ show_nat p"
| "show_network (Exact ip) = show_ip ip"

text \<open>\<open>u32::MAX << (32 - bits)\<close>, and 0 for no bits at all.\<close>

definition v4_mask :: "nat \<Rightarrow> 32 word" where
  "v4_mask bits = (if bits = 0 then 0 else push_bit (32 - bits) (- 1))"

definition v6_mask :: "nat \<Rightarrow> 128 word" where
  "v6_mask bits = (if bits = 0 then 0 else push_bit (128 - bits) (- 1))"

fun contains_ip :: "ip_network \<Rightarrow> ip_addr \<Rightarrow> bool" where
  "contains_ip (Exact e) ip = (e = ip)"
| "contains_ip (NetV4 net p) (IpV4 a) =
     (let m = v4_mask (min p 32) in a AND m = net AND m)"
| "contains_ip (NetV4 net p) (IpV6 a) = False"
| "contains_ip (NetV6 net p) (IpV6 a) =
     (let m = v6_mask (min p 128) in a AND m = net AND m)"
| "contains_ip (NetV6 net p) (IpV4 a) = False"

section \<open>Parsing\<close>

record cidr_error =
  ce_input :: string
  ce_detail :: string

definition hosts_v4 :: "nat \<Rightarrow> 32 word" where
  "hosts_v4 p = (let hb = 32 - p in if hb = 32 then 0xFFFFFFFF else push_bit hb 1 - 1)"

text \<open>
  \<open>x >> n << n\<close> on \<open>u128\<close>. The release profile leaves overflow checks off, and
  then Rust takes the shift amount modulo the width, so a shift by 128 leaves the value
  alone instead of clearing it. (A debug build panics there.)
\<close>

definition shift_trunc128 :: "nat \<Rightarrow> 128 word \<Rightarrow> 128 word" where
  "shift_trunc128 n x = push_bit (n mod 128) (drop_bit (n mod 128) x)"

definition parse_cidr :: "string \<Rightarrow> cidr_error + ip_network" where
  "parse_cidr raw =
     (let input = trim_str raw;
          invalid = (\<lambda>d. Inl \<lparr>ce_input = input, ce_detail = d\<rparr>)
      in case split_once (CHR ''/'') input of
           None \<Rightarrow>
             (case parse_ip input of
                None \<Rightarrow> invalid ''must be a bare IPv4/IPv6 address or CIDR like 192.168.0.0/16''
              | Some ip \<Rightarrow> Inr (Exact ip))
         | Some (addr, prefix_text) \<Rightarrow>
             (case parse_u8 prefix_text of
                None \<Rightarrow> invalid ''prefix must be a number''
              | Some p \<Rightarrow>
                  (case parse_ipv4 addr of
                     Some net \<Rightarrow>
                       if CHR ''.'' \<in> set addr then
                         (if 32 < p then invalid (''IPv4 prefix must be <= 32, got '' @ show_nat p)
                          else if net AND hosts_v4 p \<noteq> 0 then
                            invalid (''host bits set: use the network address (e.g. '' @
                              show_v4 net @ ''/'' @ show_nat p @ '' with host bits zeroed)'')
                          else Inr (NetV4 net p))
                       else invalid ''mixed IPv4 address and prefix''
                   | None \<Rightarrow>
                       (case parse_ipv6 addr of
                          None \<Rightarrow> invalid ''address part is not a valid IP''
                        | Some net \<Rightarrow>
                            if 128 < p then invalid (''IPv6 prefix must be <= 128, got '' @ show_nat p)
                            else (let net_bits = shift_trunc128 (128 - p) net in
                              if net \<noteq> net_bits then
                                invalid (''host bits set: use the network address (e.g. '' @
                                  show_v6 net_bits @ ''/'' @ show_nat p @ '' with host bits zeroed)'')
                              else Inr (NetV6 net p))))))"

section \<open>What membership means\<close>

text \<open>The specification: two addresses agree on their leading \<open>p\<close> bits.\<close>

definition same_prefix :: "nat \<Rightarrow> 'a::len word \<Rightarrow> 'a word \<Rightarrow> bool" where
  "same_prefix p x y \<longleftrightarrow> drop_bit (LENGTH('a) - p) x = drop_bit (LENGTH('a) - p) y"

lemma and_push_minus1_iff:
  fixes x y :: "'a::len word"
  shows "x AND push_bit n (- 1) = y AND push_bit n (- 1) \<longleftrightarrow> drop_bit n x = drop_bit n y"
proof -
  have *: "z AND push_bit n (- 1) = push_bit n (drop_bit n z)" for z :: "'a word"
    by (rule bit_word_eqI) (auto simp: bit_simps)
  have "drop_bit n x = drop_bit n y" if "push_bit n (drop_bit n x) = push_bit n (drop_bit n y)"
  proof (rule bit_word_eqI)
    fix k
    assume "k < LENGTH('a)"
    have "bit (push_bit n (drop_bit n x)) (n + k) = bit (push_bit n (drop_bit n y)) (n + k)"
      using that by simp
    then show "bit (drop_bit n x) k = bit (drop_bit n y) k"
      by (auto simp: bit_simps dest: bit_imp_le_length)
  qed
  then show ?thesis unfolding * by auto
qed

lemma and_not_mask_iff:
  fixes x y :: "'a::len word"
  shows "x AND NOT (mask n) = y AND NOT (mask n) \<longleftrightarrow> drop_bit n x = drop_bit n y"
  using and_push_minus1_iff [of x n y] by (simp add: push_bit_minus_one_eq_not_mask)

lemma contains_v4_iff: "contains_ip (NetV4 net p) (IpV4 a) \<longleftrightarrow> same_prefix (min p 32) a net"
proof (cases "min p 32 = 0")
  case True
  then have "v4_mask (min p 32) = 0" and "same_prefix (min p 32) a net"
    by (auto simp: v4_mask_def same_prefix_def intro!: bit_word_eqI simp: bit_simps dest: bit_imp_le_length)
  then show ?thesis by simp
next
  case False
  then show ?thesis by (simp add: v4_mask_def same_prefix_def and_not_mask_iff Let_def)
qed

lemma contains_v6_iff: "contains_ip (NetV6 net p) (IpV6 a) \<longleftrightarrow> same_prefix (min p 128) a net"
proof (cases "min p 128 = 0")
  case True
  then have "v6_mask (min p 128) = 0" and "same_prefix (min p 128) a net"
    by (auto simp: v6_mask_def same_prefix_def intro!: bit_word_eqI simp: bit_simps dest: bit_imp_le_length)
  then show ?thesis by simp
next
  case False
  then show ?thesis by (simp add: v6_mask_def same_prefix_def and_not_mask_iff Let_def)
qed

text \<open>A shorter prefix admits every address a longer one admits.\<close>

lemma same_prefix_mono:
  fixes x y :: "'a::len word"
  assumes "q \<le> p" and "same_prefix p x y"
  shows "same_prefix q x y"
proof -
  have *: "drop_bit (LENGTH('a) - q) z
      = drop_bit ((LENGTH('a) - q) - (LENGTH('a) - p)) (drop_bit (LENGTH('a) - p) z)"
    for z :: "'a word"
  proof -
    have "(LENGTH('a) - q) - (LENGTH('a) - p) + (LENGTH('a) - p) = LENGTH('a) - q"
      using assms(1) by arith
    then show ?thesis by (simp only: drop_bit_drop_bit)
  qed
  show ?thesis
    unfolding same_prefix_def * [of x] * [of y]
    by (simp only: assms(2) [unfolded same_prefix_def])
qed

lemma same_prefix_refl [simp]: "same_prefix p x x"
  by (simp add: same_prefix_def)

section \<open>What the parser accepts\<close>

lemma hosts_v4_eq: "hosts_v4 p = mask (32 - p)"
  by (auto simp: hosts_v4_def Let_def mask_eq_decr_exp push_bit_of_1)

lemma parse_cidr_v4_wf:
  assumes "parse_cidr s = Inr (NetV4 net p)"
  shows "p \<le> 32 \<and> net AND mask (32 - p) = 0"
  using assms
  by (auto simp: parse_cidr_def Let_def hosts_v4_eq split: option.splits prod.splits if_splits)

lemma parse_cidr_v6_wf:
  assumes "parse_cidr s = Inr (NetV6 net p)"
  shows "p \<le> 128 \<and> net = shift_trunc128 (128 - p) net"
  using assms
  by (auto simp: parse_cidr_def Let_def split: option.splits prod.splits if_splits)

lemma shift_trunc128_zero_host:
  assumes "n < 128" and "net = shift_trunc128 n net"
  shows "net AND mask n = 0"
proof -
  have "net = push_bit n (drop_bit n net)"
    using assms by (simp add: shift_trunc128_def)
  then have "net AND mask n = push_bit n (drop_bit n net) AND mask n"
    by simp
  also have "\<dots> = 0"
    by (rule bit_word_eqI) (auto simp: bit_simps)
  finally show ?thesis .
qed

lemma shift_trunc128_full [simp]: "shift_trunc128 128 x = x"
  by (simp add: shift_trunc128_def)

section \<open>Properties\<close>

text \<open>A block that the parser accepts admits exactly the addresses of its own family
  that agree with the block's network address on the first \<open>p\<close> bits; for IPv4 the
  network address itself has no host bit set.\<close>

theorem parse_cidr_v4_membership:
  assumes "parse_cidr s = Inr (NetV4 net p)"
  shows "p \<le> 32 \<and> net AND mask (32 - p) = 0 \<and>
    (\<forall>a. contains_ip (NetV4 net p) (IpV4 a) = same_prefix p a net) \<and>
    (\<forall>a. \<not> contains_ip (NetV4 net p) (IpV6 a))"
  using parse_cidr_v4_wf [OF assms] by (simp only: contains_v4_iff contains_ip.simps) simp

lemma parse_cidr_rfc1918: "parse_cidr ''192.168.0.0/16'' = Inr (NetV4 0xC0A80000 16)"
  by code_simp

theorem parse_cidr_v4_membership_witness:
  "contains_ip (NetV4 0xC0A80000 16) (IpV4 0xC0A80105) \<and>
   \<not> contains_ip (NetV4 0xC0A80000 16) (IpV4 0xC0A90105)"
  using parse_cidr_v4_membership [OF parse_cidr_rfc1918]
  by (simp add: same_prefix_def del: contains_ip.simps)

text \<open>The IPv6 branch is not as strict as the IPv4 branch: with prefix 0 the shift by
  128 does nothing in a release build, so the host bits are never looked at and every IPv6
  address followed by \<open>/0\<close> is accepted, although the block then admits all of IPv6.\<close>

theorem parse_cidr_v6_zero_prefix:
  assumes "trim_str s = a @ ''/0''" and "CHR ''/'' \<notin> set a"
    and "parse_ipv4 a = None" and "parse_ipv6 a = Some net"
  shows "parse_cidr s = Inr (NetV6 net 0) \<and> (\<forall>x. contains_ip (NetV6 net 0) (IpV6 x))"
proof -
  have "split_once (CHR ''/'') (a @ ''/0'') = Some (a, ''0'')"
    using assms(2) by (simp add: split_once_Some)
  moreover have "parse_u8 ''0'' = Some 0"
    by (simp add: parse_uint_def is_digit_def digit_val_def)
  ultimately have "parse_cidr s = Inr (NetV6 net 0)"
    using assms by (simp add: parse_cidr_def)
  then show ?thesis by (simp add: v6_mask_def)
qed

theorem parse_cidr_v6_zero_prefix_witness:
  "parse_cidr ''fe80::1/0'' = Inr (NetV6 0xFE800000000000000000000000000001 0)"
proof -
  have "parse_ipv4 ''fe80::1'' = None" by (simp add: parser_defs)
  moreover have "parse_ipv6 ''fe80::1'' = Some 0xFE800000000000000000000000000001"
    by (simp add: parser_defs)
  moreover have "trim_str ''fe80::1/0'' = ''fe80::1'' @ ''/0''" by code_simp
  ultimately show ?thesis
    using parse_cidr_v6_zero_prefix [of "''fe80::1/0''" "''fe80::1''"] by simp
qed

end
