(* ===== verification/Registry.thy ===== *)
theory Registry
  imports Instance Net "HOL-Library.AList"
begin

text \<open>
  \<open>src/runtime/registry.rs\<close>, with the crash event of \<open>src/runtime/crash.rs\<close> that it
  consumes. The registry holds the actual state of every instance. Its hash map is an
  association list with distinct keys in an order of no meaning; \<open>reg_list\<close> and
  \<open>reg_ids\<close> sort, as the code does. The locale \<open>instance_store\<close> states what the
  components that read and write the registry rely on.
\<close>

section \<open>State of one instance\<close>

datatype runtime_state =
  Disabled | Stopped | Starting | Registering | Connecting | Healthy | Degraded | Stopping | Failed

fun state_str :: "runtime_state \<Rightarrow> string" where
  "state_str Disabled = ''disabled''"
| "state_str Stopped = ''stopped''"
| "state_str Starting = ''starting''"
| "state_str Registering = ''registering''"
| "state_str Connecting = ''connecting''"
| "state_str Healthy = ''healthy''"
| "state_str Degraded = ''degraded''"
| "state_str Stopping = ''stopping''"
| "state_str Failed = ''failed''"

definition is_running :: "runtime_state \<Rightarrow> bool" where
  "is_running s \<longleftrightarrow> \<not> (case s of Stopped \<Rightarrow> True | Disabled \<Rightarrow> True | _ \<Rightarrow> False)"

record instance_runtime =
  ir_state :: runtime_state
  ir_warp_pid :: "nat option"
  ir_dbus_pid :: "nat option"
  ir_exit_v4 :: "ip_addr option"
  ir_exit_v6 :: "ip_addr option"
  ir_colo :: "string option"
  ir_latency :: "nat option"
  ir_restarts :: nat
  ir_failures :: nat
  ir_successes :: nat
  ir_last_error :: "string option"

definition rt_stopped :: instance_runtime where
  "rt_stopped = \<lparr>ir_state = Stopped, ir_warp_pid = None, ir_dbus_pid = None, ir_exit_v4 = None,
     ir_exit_v6 = None, ir_colo = None, ir_latency = None, ir_restarts = 0, ir_failures = 0,
     ir_successes = 0, ir_last_error = None\<rparr>"

record crash_event =
  cr_instance :: instance_id
  cr_exit_code :: "int option"
  cr_stderr :: string

section \<open>The registry\<close>

type_synonym registry = "(instance_id \<times> instance_runtime) list"

definition reg_insert :: "instance_id \<Rightarrow> registry \<Rightarrow> registry" where
  "reg_insert i r = (case map_of r i of None \<Rightarrow> r @ [(i, rt_stopped)] | Some _ \<Rightarrow> r)"

definition reg_get :: "registry \<Rightarrow> instance_id \<Rightarrow> instance_runtime option" where
  "reg_get r i = map_of r i"

definition reg_list :: "registry \<Rightarrow> (instance_id \<times> instance_runtime) list" where
  "reg_list r = sort_key fst r"

definition reg_ids :: "registry \<Rightarrow> instance_id list" where
  "reg_ids r = sort (List.map fst r)"

definition reg_remove :: "instance_id \<Rightarrow> registry \<Rightarrow> registry" where
  "reg_remove i r = AList.delete i r"

definition reg_update :: "instance_id \<Rightarrow> (instance_runtime \<Rightarrow> instance_runtime) \<Rightarrow> registry \<Rightarrow> registry" where
  "reg_update i f r = AList.map_entry i f r"

definition set_state :: "instance_id \<Rightarrow> runtime_state \<Rightarrow> registry \<Rightarrow> registry" where
  "set_state i s = reg_update i (\<lambda>e. e\<lparr>ir_state := s\<rparr>)"

definition record_error :: "instance_id \<Rightarrow> string \<Rightarrow> registry \<Rightarrow> registry" where
  "record_error i msg = reg_update i (\<lambda>e. e\<lparr>ir_state := Failed,
     ir_failures := sat_add32 (ir_failures e) 1, ir_last_error := Some msg\<rparr>)"

definition on_started :: "instance_id \<Rightarrow> nat \<Rightarrow> nat \<Rightarrow> registry \<Rightarrow> registry" where
  "on_started i warp_pid dbus_pid = reg_update i (\<lambda>e. e\<lparr>ir_state := Starting,
     ir_warp_pid := Some warp_pid, ir_dbus_pid := Some dbus_pid,
     ir_restarts := sat_add32 (ir_restarts e) 1, ir_failures := 0, ir_successes := 0,
     ir_last_error := None\<rparr>)"

definition on_stopped :: "instance_id \<Rightarrow> registry \<Rightarrow> registry" where
  "on_stopped i = reg_update i (\<lambda>e. e\<lparr>ir_state := Stopped, ir_warp_pid := None, ir_dbus_pid := None\<rparr>)"

definition crash_summary :: "int option \<Rightarrow> string" where
  "crash_summary code = ''warp-svc crashed: exit_code='' @
     (case code of None \<Rightarrow> ''?'' | Some c \<Rightarrow> show_int c) @ ''; see instance log for stderr details''"

definition on_crash :: "crash_event \<Rightarrow> registry \<Rightarrow> registry" where
  "on_crash ev = reg_update (cr_instance ev) (\<lambda>e. e\<lparr>ir_state := Failed, ir_warp_pid := None,
     ir_failures := sat_add32 (ir_failures e) 1,
     ir_last_error := Some (crash_summary (cr_exit_code ev))\<rparr>)"

lemmas reg_op_defs = set_state_def record_error_def on_started_def on_stopped_def on_crash_def

definition reg_wf :: "registry \<Rightarrow> bool" where
  "reg_wf r \<longleftrightarrow> distinct (List.map fst r)"

section \<open>The interface\<close>

text \<open>A store of per-instance values: insert-if-absent, in-place update, removal, and a
  listing in ascending order of the keys.\<close>

locale instance_store =
  fixes get :: "'r \<Rightarrow> instance_id \<Rightarrow> 'v option"
    and ins :: "instance_id \<Rightarrow> 'r \<Rightarrow> 'r"
    and upd :: "instance_id \<Rightarrow> ('v \<Rightarrow> 'v) \<Rightarrow> 'r \<Rightarrow> 'r"
    and rem :: "instance_id \<Rightarrow> 'r \<Rightarrow> 'r"
    and lst :: "'r \<Rightarrow> (instance_id \<times> 'v) list"
    and fresh :: "'v"
    and wf :: "'r \<Rightarrow> bool"
  assumes get_ins: "get (ins i r) j = (if i = j \<and> get r i = None then Some fresh else get r j)"
    and get_upd: "get (upd i f r) j = (if i = j then map_option f (get r j) else get r j)"
    and get_rem: "wf r \<Longrightarrow> get (rem i r) j = (if i = j then None else get r j)"
    and lst_get: "wf r \<Longrightarrow> (i, v) \<in> set (lst r) \<longleftrightarrow> get r i = Some v"
    and lst_sorted: "wf r \<Longrightarrow> sorted_wrt (<) (List.map fst (lst r))"
    and wf_ins: "wf r \<Longrightarrow> wf (ins i r)"
    and wf_upd: "wf r \<Longrightarrow> wf (upd i f r)"
    and wf_rem: "wf r \<Longrightarrow> wf (rem i r)"
begin

lemma upd_other: "i \<noteq> j \<Longrightarrow> get (upd i f r) j = get r j"
  by (simp add: get_upd)

lemma upd_missing: "get r i = None \<Longrightarrow> get (upd i f r) = get r"
  by (rule ext) (auto simp: get_upd)

lemma upd_upd: "get (upd i g (upd i f r)) = get (upd i (\<lambda>v. g (f v)) r)"
  by (rule ext) (simp add: get_upd option.map_comp comp_def)

lemma ins_idem: "get (ins i (ins i r)) = get (ins i r)"
  by (rule ext) (simp add: get_ins)

lemma lst_distinct: "wf r \<Longrightarrow> distinct (List.map fst (lst r))"
  using lst_sorted [of r] by (simp add: strict_sorted_iff)

text \<open>The keys that satisfy a predicate, in ascending order: what the readers of the
  registry select from.\<close>

lemma select_mem:
  "wf r \<Longrightarrow> i \<in> set (List.map fst (filter (\<lambda>(_, v). P v) (lst r))) \<longleftrightarrow> (\<exists>v. get r i = Some v \<and> P v)"
  using lst_get [of r i] by force

lemma select_sorted: "wf r \<Longrightarrow> sorted (List.map fst (filter (\<lambda>(_, v). P v) (lst r)))"
  using lst_sorted [of r] by (auto simp: strict_sorted_iff intro: sorted_filter)

lemma select_distinct: "wf r \<Longrightarrow> distinct (List.map fst (filter (\<lambda>(_, v). P v) (lst r)))"
  using lst_distinct [of r] by (rule distinct_map_filter)

text \<open>The selection depends on the contents only.\<close>

lemma select_ext:
  assumes "wf r" "wf s" "\<And>i. (\<exists>v. get r i = Some v \<and> P v) \<longleftrightarrow> (\<exists>v. get s i = Some v \<and> P v)"
  shows "List.map fst (filter (\<lambda>(_, v). P v) (lst r)) = List.map fst (filter (\<lambda>(_, v). P v) (lst s))"
proof -
  have "set (List.map fst (filter (\<lambda>(_, v). P v) (lst r))) =
        set (List.map fst (filter (\<lambda>(_, v). P v) (lst s)))"
    by (rule set_eqI) (simp only: select_mem [OF assms(1)] select_mem [OF assms(2)] assms(3))
  with select_sorted [OF assms(1)] select_sorted [OF assms(2)]
    select_distinct [OF assms(1)] select_distinct [OF assms(2)]
  show ?thesis by (intro sorted_distinct_set_unique)
qed

end

section \<open>The registry meets the interface\<close>

lemma map_of_map_entry: "map_of (AList.map_entry i f r) j = (if i = j then map_option f (map_of r j) else map_of r j)"
  by (induction r) auto

lemma reg_list_mem: "reg_wf r \<Longrightarrow> (i, v) \<in> set (reg_list r) \<longleftrightarrow> reg_get r i = Some v"
  by (simp add: reg_list_def reg_get_def reg_wf_def)

lemma map_sort_key_fst: "List.map fst (sort_key fst r) = sort (List.map fst r)"
proof (induction r)
  case (Cons x xs)
  have "List.map fst (insort_key fst x ys) = insort (fst x) (List.map fst ys)" for ys :: "('a::linorder \<times> 'b) list"
    by (induction ys) auto
  with Cons show ?case by simp
qed simp

lemma reg_list_sorted: "reg_wf r \<Longrightarrow> sorted_wrt (<) (List.map fst (reg_list r))"
  by (simp add: reg_list_def reg_wf_def map_sort_key_fst strict_sorted_iff)

interpretation reg: instance_store reg_get reg_insert reg_update reg_remove reg_list rt_stopped reg_wf
proof unfold_locales
  show "reg_wf r \<Longrightarrow> ((i, v) \<in> set (reg_list r)) = (reg_get r i = Some v)" for r i v
    by (rule reg_list_mem)
  show "reg_wf r \<Longrightarrow> sorted_wrt (<) (List.map fst (reg_list r))" for r
    by (rule reg_list_sorted)
  show "reg_wf r \<Longrightarrow> reg_wf (reg_insert i r)" for r i
    by (auto simp: reg_wf_def reg_insert_def map_of_eq_None_iff split: option.splits)
  show "reg_wf r \<Longrightarrow> reg_wf (reg_update i f r)" for r i f
    by (simp add: reg_wf_def reg_update_def distinct_map_entry)
  show "reg_wf r \<Longrightarrow> reg_wf (reg_remove i r)" for r i
    by (simp add: reg_wf_def reg_remove_def distinct_delete)
  show "reg_wf r \<Longrightarrow> reg_get (reg_remove i r) j = (if i = j then None else reg_get r j)" for r i j
    by (simp add: reg_get_def reg_remove_def delete_conv)
qed (auto simp: reg_get_def reg_insert_def reg_update_def map_of_map_entry map_add_Some_iff
       split: option.splits)

declare reg.get_ins [simp] reg.get_upd [simp] reg.wf_ins [simp] reg.wf_upd [simp] reg.wf_rem [simp]

lemma reg_get_remove [simp]: "reg_wf r \<Longrightarrow> reg_get (reg_remove i r) j = (if i = j then None else reg_get r j)"
  by (rule reg.get_rem)

lemma reg_get_set_state [simp]:
  "reg_get (set_state i s r) j = (if i = j then map_option (\<lambda>e. e\<lparr>ir_state := s\<rparr>) (reg_get r j) else reg_get r j)"
  by (simp add: set_state_def)

lemma reg_wf_ops [simp]:
  "reg_wf r \<Longrightarrow> reg_wf (set_state i s r)" "reg_wf r \<Longrightarrow> reg_wf (record_error i msg r)"
  "reg_wf r \<Longrightarrow> reg_wf (on_started i p q r)" "reg_wf r \<Longrightarrow> reg_wf (on_stopped i r)"
  "reg_wf r \<Longrightarrow> reg_wf (on_crash ev r)"
  by (simp_all add: reg_op_defs)

lemma reg_wf_Nil [simp]: "reg_wf []"
  by (simp add: reg_wf_def)

section \<open>Properties\<close>

text \<open>A state in which a process is known to run.\<close>

definition claims_healthy :: "registry \<Rightarrow> instance_id \<Rightarrow> bool" where
  "claims_healthy r i \<longleftrightarrow> map_option ir_state (reg_get r i) = Some Healthy"

text \<open>None of the event handlers of the registry makes an instance Healthy: a start
  leaves it Starting, an error or a crash Failed, a stop Stopped. Only an explicit
  \<open>set_state\<close> or \<open>update\<close> can, and every handler leaves the other instances alone.\<close>

theorem registry_events_never_healthy:
  "\<not> claims_healthy (record_error i msg r) i \<and> \<not> claims_healthy (on_started i p q r) i \<and>
   \<not> claims_healthy (on_stopped i r) i \<and> \<not> claims_healthy (on_crash ev r) (cr_instance ev) \<and>
   (j \<noteq> i \<longrightarrow> reg_get (record_error i msg r) j = reg_get r j \<and>
      reg_get (on_started i p q r) j = reg_get r j \<and> reg_get (on_stopped i r) j = reg_get r j) \<and>
   (j \<noteq> cr_instance ev \<longrightarrow> reg_get (on_crash ev r) j = reg_get r j)"
  by (auto simp: claims_healthy_def reg_op_defs)

theorem registry_events_never_healthy_witness:
  "reg_get (on_stopped 1 [(1, rt_stopped), (2, rt_stopped)]) 2 = Some rt_stopped"
  using registry_events_never_healthy
    [of 1 "''x''" "[(1, rt_stopped), (2, rt_stopped)]" 5 6 "\<lparr>cr_instance = 1, cr_exit_code = None, cr_stderr = []\<rparr>" 2]
  by (simp add: reg_get_def)

text \<open>The text that a crash leaves in \<open>last_error\<close>, which the API shows, depends on the
  exit code only: two crashes that differ in what the process wrote to its standard error
  leave the registry in the same state, and the crashed instance has no process id.\<close>

theorem crash_hides_stderr:
  assumes "cr_instance ev = cr_instance ev'" and "cr_exit_code ev = cr_exit_code ev'"
  shows "on_crash ev r = on_crash ev' r \<and>
    (\<forall>e. reg_get (on_crash ev r) (cr_instance ev) = Some e \<longrightarrow>
      ir_warp_pid e = None \<and> ir_last_error e = Some (crash_summary (cr_exit_code ev)))"
  using assms by (auto simp: on_crash_def)

theorem crash_hides_stderr_witness:
  "on_crash \<lparr>cr_instance = 3, cr_exit_code = Some 9, cr_stderr = ''license AB12''\<rparr> [(3, rt_stopped)]
   = on_crash \<lparr>cr_instance = 3, cr_exit_code = Some 9, cr_stderr = []\<rparr> [(3, rt_stopped)]"
  by (rule crash_hides_stderr [THEN conjunct1]) simp_all

end
