(* ===== verification/Pool.thy ===== *)
theory Pool
  imports Registry
begin

text \<open>
  \<open>src/gateway/pool.rs\<close>: the round-robin pool that hands a proxy session the internal
  port of a Healthy instance. The counter is an \<open>AtomicU64\<close>; \<open>pool_clone\<close> is the
  \<open>Clone\<close> instance, which makes a new counter with the current value.
\<close>

record upstream =
  up_instance :: instance_id
  up_addr :: socket_addr

record rr_pool =
  pl_rr :: "64 word"
  pl_base :: port

definition pool_with_base :: "port \<Rightarrow> rr_pool" where
  "pool_with_base base = \<lparr>pl_rr = 0, pl_base = base\<rparr>"

definition pool_new :: rr_pool where
  "pool_new = pool_with_base (of_nat first_warp_port)"

definition pool_clone :: "rr_pool \<Rightarrow> rr_pool" where
  "pool_clone p = \<lparr>pl_rr = pl_rr p, pl_base = pl_base p\<rparr>"

definition healthy_ids :: "registry \<Rightarrow> instance_id list" where
  "healthy_ids r = sort (List.map fst (filter (\<lambda>(_, e). ir_state e = Healthy) (reg_list r)))"

definition upstream_of :: "port \<Rightarrow> instance_id \<Rightarrow> upstream" where
  "upstream_of base i = \<lparr>up_instance = i,
     up_addr = \<lparr>sa_ip = localhost, sa_port = base + word_of_int i\<rparr>\<rparr>"

definition pick :: "registry \<Rightarrow> rr_pool \<Rightarrow> upstream option \<times> rr_pool" where
  "pick r p =
     (let healthy = healthy_ids r in
      if healthy = [] then (None, p)
      else (Some (upstream_of (pl_base p) (healthy ! (unat (pl_rr p) mod length healthy))),
            p\<lparr>pl_rr := pl_rr p + 1\<rparr>))"

section \<open>What a pick returns\<close>

lemma healthy_ids_eq:
  "reg_wf r \<Longrightarrow> healthy_ids r = List.map fst (filter (\<lambda>(_, e). ir_state e = Healthy) (reg_list r))"
  unfolding healthy_ids_def by (rule sorted_sort_id) (rule reg.select_sorted)

lemma healthy_ids_mem: "reg_wf r \<Longrightarrow> i \<in> set (healthy_ids r) \<longleftrightarrow> claims_healthy r i"
  by (simp add: healthy_ids_eq reg.select_mem claims_healthy_def del: set_map)

lemma healthy_ids_distinct: "reg_wf r \<Longrightarrow> distinct (healthy_ids r)"
  by (simp add: healthy_ids_eq reg.select_distinct)

lemma pick_Some_healthy: "reg_wf r \<Longrightarrow> pick r p = (Some u, p') \<Longrightarrow> claims_healthy r (up_instance u)"
  by (auto simp: pick_def Let_def upstream_of_def simp flip: healthy_ids_mem split: if_splits)

lemma pick_Some_addr: "pick r p = (Some u, p') \<Longrightarrow> up_addr u = up_addr (upstream_of (pl_base p) (up_instance u))"
  by (auto simp: pick_def Let_def upstream_of_def split: if_splits)

lemma pick_None_iff: "reg_wf r \<Longrightarrow> fst (pick r p) = None \<longleftrightarrow> (\<forall>i. \<not> claims_healthy r i)"
  by (auto simp: pick_def Let_def simp flip: healthy_ids_mem)

lemma pick_clone [simp]: "fst (pick r (pool_clone p)) = fst (pick r p)"
  by (simp add: pick_def pool_clone_def Let_def)

section \<open>Consecutive picks\<close>

text \<open>\<open>n\<close> picks from the same pool while the registry does not change.\<close>

fun picks :: "nat \<Rightarrow> registry \<Rightarrow> rr_pool \<Rightarrow> instance_id list" where
  "picks 0 r p = []"
| "picks (Suc n) r p =
     (case pick r p of
        (None, p') \<Rightarrow> picks n r p'
      | (Some u, p') \<Rightarrow> up_instance u # picks n r p')"

lemma picks_eq:
  assumes "healthy_ids r \<noteq> []" and "unat (pl_rr p) + n < 2 ^ 64"
  shows "picks n r p = List.map (\<lambda>k. healthy_ids r ! (k mod length (healthy_ids r)))
           [unat (pl_rr p)..<unat (pl_rr p) + n]"
  using assms(2)
proof (induction n arbitrary: p)
  case (Suc n)
  have s: "unat (pl_rr p + 1) = Suc (unat (pl_rr p))"
    using Suc.prems by (simp add: unat_word_ariths)
  have "pick r p = (Some (upstream_of (pl_base p)
          (healthy_ids r ! (unat (pl_rr p) mod length (healthy_ids r)))), p\<lparr>pl_rr := pl_rr p + 1\<rparr>)"
    using assms(1) by (simp add: pick_def Let_def)
  then have "picks (Suc n) r p = healthy_ids r ! (unat (pl_rr p) mod length (healthy_ids r)) #
      picks n r (p\<lparr>pl_rr := pl_rr p + 1\<rparr>)"
    by (simp add: upstream_of_def)
  also have "picks n r (p\<lparr>pl_rr := pl_rr p + 1\<rparr>) =
      List.map (\<lambda>k. healthy_ids r ! (k mod length (healthy_ids r)))
        [Suc (unat (pl_rr p))..<Suc (unat (pl_rr p)) + n]"
    using Suc.prems s Suc.IH [of "p\<lparr>pl_rr := pl_rr p + 1\<rparr>"] by simp
  finally show ?case by (simp add: upt_conv_Cons del: picks.simps upt_Suc)
qed simp

text \<open>A window as long as the list hits every index once.\<close>

lemma window_mod_image:
  assumes "0 < (m :: nat)"
  shows "(\<lambda>k. k mod m) ` {a..<a + m} = {..<m}"
proof
  show "{..<m} \<subseteq> (\<lambda>k. k mod m) ` {a..<a + m}"
  proof
    fix x
    assume "x \<in> {..<m}"
    define k where "k = a + (x + m - a mod m) mod m"
    have "k mod m = (a mod m + (x + m - a mod m)) mod m"
      by (simp add: k_def mod_add_left_eq mod_add_right_eq)
    also have "\<dots> = x"
    proof -
      have "a mod m + (x + m - a mod m) = x + m"
        using mod_less_divisor [OF assms, of a] by linarith
      then show ?thesis using \<open>x \<in> {..<m}\<close> by simp
    qed
    finally have "k mod m = x" .
    moreover have "k \<in> {a..<a + m}" using assms by (simp add: k_def)
    ultimately show "x \<in> (\<lambda>k. k mod m) ` {a..<a + m}" by force
  qed
qed (use assms in auto)

section \<open>Properties\<close>

text \<open>A pick never returns an instance that the registry does not report Healthy, it
  returns one whenever there is one, and the address it returns is the loopback port
  \<open>base + id\<close> of that instance, the port \<open>instance_port\<close> assigns when the base is the
  production one.\<close>

theorem pick_healthy:
  assumes "reg_wf r"
  shows "(fst (pick r p) = None \<longleftrightarrow> (\<forall>i. \<not> claims_healthy r i)) \<and>
    (\<forall>u. fst (pick r p) = Some u \<longrightarrow> claims_healthy r (up_instance u) \<and>
       sa_ip (up_addr u) = localhost \<and>
       (pl_base p = of_nat first_warp_port \<longrightarrow> 0 \<le> up_instance u \<longrightarrow>
        up_instance u \<le> int max_instances \<longrightarrow>
        instance_port (up_instance u) = Inr (sa_port (up_addr u))))"
proof -
  have "claims_healthy r (up_instance u) \<and> up_addr u =
      \<lparr>sa_ip = localhost, sa_port = pl_base p + word_of_int (up_instance u)\<rparr>"
    if "fst (pick r p) = Some u" for u
    using that pick_Some_healthy [OF assms, of p u "snd (pick r p)"]
    by (cases "pick r p") (auto simp: pick_def Let_def upstream_of_def split: if_splits)
  then show ?thesis
    using pick_None_iff [OF assms, of p] instance_port_valid(1)
    by (auto simp: first_warp_port_def)
qed

theorem pick_healthy_witness:
  "\<exists>u. fst (pick [(4, rt_stopped\<lparr>ir_state := Healthy\<rparr>)] pool_new) = Some u \<and> up_instance u = 4"
proof -
  let ?r = "[(4, rt_stopped\<lparr>ir_state := Healthy\<rparr>)] :: registry"
  have h: "claims_healthy ?r j \<longleftrightarrow> j = 4" for j
    by (simp add: claims_healthy_def reg_get_def)
  have "reg_wf ?r" by (simp add: reg_wf_def)
  note p = pick_healthy [OF this, of pool_new]
  have "fst (pick ?r pool_new) \<noteq> None" using p [THEN conjunct1] h by simp
  then obtain u where u: "fst (pick ?r pool_new) = Some u" by blast
  with p have "claims_healthy ?r (up_instance u)" by blast
  with u h show ?thesis by simp
qed

text \<open>As long as the registry does not change and the counter does not wrap, a pool
  that is asked once per Healthy instance hands out every Healthy instance exactly once,
  from whatever counter value it starts.\<close>

theorem pick_round_robin:
  assumes "reg_wf r" and "n = length (healthy_ids r)" and "0 < n"
    and "unat (pl_rr p) + n < 2 ^ 64"
  shows "set (picks n r p) = {i. claims_healthy r i} \<and> distinct (picks n r p)"
proof -
  let ?h = "healthy_ids r" and ?a = "unat (pl_rr p)"
  have eq: "picks n r p = List.map (\<lambda>k. ?h ! (k mod n)) [?a..<?a + n]"
    using picks_eq [of r p n] assms by auto
  have "set (picks n r p) = (\<lambda>i. ?h ! i) ` ((\<lambda>k. k mod n) ` {?a..<?a + n})"
    unfolding eq by (auto simp: image_image)
  also have "\<dots> = set ?h"
    using window_mod_image [OF assms(3)] assms(2) by (auto simp: set_conv_nth)
  finally have s: "set (picks n r p) = set ?h" .
  have "length (picks n r p) = card (set ?h)"
    unfolding eq using assms(1,2) by (simp add: distinct_card healthy_ids_distinct)
  with s have "distinct (picks n r p)" by (simp add: card_distinct)
  then show ?thesis using s healthy_ids_mem [OF assms(1)] by blast
qed

theorem pick_round_robin_witness:
  "set (picks 2 [(4, rt_stopped\<lparr>ir_state := Healthy\<rparr>), (2, rt_stopped\<lparr>ir_state := Healthy\<rparr>)] pool_new)
   = {2, 4}"
proof -
  let ?r = "[(4, rt_stopped\<lparr>ir_state := Healthy\<rparr>), (2, rt_stopped\<lparr>ir_state := Healthy\<rparr>)] :: registry"
  have "reg_wf ?r" by (simp add: reg_wf_def)
  moreover have "healthy_ids ?r = [2, 4]"
    by (simp add: healthy_ids_def reg_list_def)
  ultimately have "set (picks 2 ?r pool_new) = {i. claims_healthy ?r i}"
    using pick_round_robin [of ?r 2 pool_new] by (simp add: pool_new_def pool_with_base_def)
  then show ?thesis by (auto simp: claims_healthy_def reg_get_def split: if_splits)
qed

end
