(* ===== verification/SessionLimits.thy ===== *)
theory SessionLimits
  imports Prelude Complex_Main
begin

text \<open>
  \<open>src/gateway/limits.rs\<close>: the token bucket and the connection semaphore that admit
  proxy sessions. The bucket's \<open>f64\<close> values are rationals here, so the model has no
  rounding; an \<open>Instant\<close> is a number of nanoseconds. \<open>tokio::sync::Semaphore\<close> is
  not part of the repository: its operations are the parameter \<open>sem\<close> of the
  definitions, and \<open>semaphore_ok\<close> states what its documentation promises.
\<close>

section \<open>The token bucket\<close>

record token_bucket =
  tb_rate :: rat
  tb_tokens :: rat
  tb_last :: nat

definition bucket_new :: "nat \<Rightarrow> nat \<Rightarrow> token_bucket" where
  "bucket_new rate now = \<lparr>tb_rate = of_nat rate, tb_tokens = of_nat rate, tb_last = now\<rparr>"

text \<open>\<open>now.saturating_duration_since(last).as_secs_f64()\<close>\<close>

definition elapsed_secs :: "nat \<Rightarrow> nat \<Rightarrow> rat" where
  "elapsed_secs prev now = of_nat (now - prev) / 1000000000"

definition try_take :: "nat \<Rightarrow> token_bucket \<Rightarrow> bool \<times> token_bucket" where
  "try_take now b =
     (let tokens = min (tb_tokens b + elapsed_secs (tb_last b) now * tb_rate b) (tb_rate b)
      in if 1 \<le> tokens then (True, b\<lparr>tb_tokens := tokens - 1, tb_last := now\<rparr>)
         else (False, b\<lparr>tb_tokens := tokens, tb_last := now\<rparr>))"

definition bucket_inv :: "token_bucket \<Rightarrow> bool" where
  "bucket_inv b \<longleftrightarrow> 0 \<le> tb_tokens b \<and> tb_tokens b \<le> tb_rate b"

lemma elapsed_secs_nonneg: "0 \<le> elapsed_secs a b"
  by (simp add: elapsed_secs_def)

lemma try_take_frame:
  assumes "try_take now b = (ok, b')"
  shows "tb_rate b' = tb_rate b" and "tb_last b' = now"
  using assms by (auto simp: try_take_def Let_def split: if_splits)

lemma try_take_inv: "bucket_inv b \<Longrightarrow> bucket_inv (snd (try_take now b))"
proof -
  assume b: "bucket_inv b"
  have "0 \<le> elapsed_secs (tb_last b) now * tb_rate b"
    using b elapsed_secs_nonneg [of "tb_last b" now] by (auto simp: bucket_inv_def)
  with b show ?thesis by (auto simp: try_take_def Let_def bucket_inv_def min_def)
qed

text \<open>The potential argument: a success is paid for by a token or by elapsed time.\<close>

lemma try_take_pays:
  assumes "bucket_inv b" and "try_take now b = (ok, b')"
  shows "(if ok then 1 else 0) + tb_tokens b'
       \<le> tb_tokens b + elapsed_secs (tb_last b) now * tb_rate b"
  using assms by (auto simp: try_take_def Let_def split: if_splits)

text \<open>A run of calls, one per arrival time: how many were admitted.\<close>

fun take_run :: "nat list \<Rightarrow> token_bucket \<Rightarrow> nat \<times> token_bucket" where
  "take_run [] b = (0, b)"
| "take_run (t # ts) b =
     (case try_take t b of (ok, b1) \<Rightarrow>
        (case take_run ts b1 of (n, b2) \<Rightarrow> ((if ok then Suc n else n), b2)))"

text \<open>The caller reads the clock before it takes the bucket's lock, so the times of a run need not
  be sorted. The time that counts is the sum of the steps forward; it is the length of the window when
  the times are sorted.\<close>

fun forward_secs :: "nat list \<Rightarrow> rat" where
  "forward_secs (t # u # ts) = elapsed_secs t u + forward_secs (u # ts)"
| "forward_secs _ = 0"

lemma elapsed_secs_add:
  "a \<le> b \<Longrightarrow> b \<le> c \<Longrightarrow> elapsed_secs a b + elapsed_secs b c = elapsed_secs a c"
  by (simp add: elapsed_secs_def field_simps of_nat_diff flip: of_nat_add)

lemma forward_secs_sorted: "sorted (t # ts) \<Longrightarrow> forward_secs (t # ts) = elapsed_secs t (last (t # ts))"
proof (induction ts arbitrary: t)
  case (Cons u ts)
  then have "u \<le> last (u # ts)" by (auto intro: last_in_set)
  with Cons show ?case by (simp add: elapsed_secs_add)
qed (simp add: elapsed_secs_def)

lemma take_run_rate: "take_run ts b = (n, b') \<Longrightarrow> tb_rate b' = tb_rate b"
  by (induction ts arbitrary: b n) (auto split: prod.splits if_splits dest!: try_take_frame(1))

lemma take_run_inv: "bucket_inv b \<Longrightarrow> bucket_inv (snd (take_run ts b))"
proof (induction ts arbitrary: b)
  case (Cons t ts)
  from Cons.IH [OF try_take_inv [OF Cons.prems, of t]] show ?case by (simp add: split_beta)
qed simp

lemma take_run_pays:
  assumes "bucket_inv b" and "take_run ts b = (n, b')"
  shows "of_nat n + tb_tokens b' \<le> tb_tokens b + forward_secs (tb_last b # ts) * tb_rate b"
  using assms
proof (induction ts arbitrary: b n)
  case (Cons t ts)
  obtain ok b1 where b1: "try_take t b = (ok, b1)" by fastforce
  obtain m where m: "take_run ts b1 = (m, b')" and n: "n = (if ok then Suc m else m)"
    using Cons.prems(2) b1 by (auto split: prod.splits)
  note fr = try_take_frame [OF b1]
  have inv: "bucket_inv b1" using try_take_inv [OF Cons.prems(1), of t] b1 by simp
  have IH: "of_nat m + tb_tokens b' \<le> tb_tokens b1 + forward_secs (t # ts) * tb_rate b"
    using Cons.IH [OF inv m] fr by simp
  with try_take_pays [OF Cons.prems(1) b1] n show ?case
    by (auto simp: distrib_right split: if_splits)
qed simp

text \<open>The first request of a window finds at most a full bucket, however long ago the last one was.\<close>

lemma try_take_capped: "try_take now b = (ok, b') \<Longrightarrow> (if ok then 1 else 0) + tb_tokens b' \<le> tb_rate b"
  by (auto simp: try_take_def Let_def split: if_splits)

section \<open>Session limits\<close>

text \<open>What the code uses of a tokio semaphore: \<open>Semaphore::new\<close>, \<open>try_acquire_owned\<close>,
  and the release that dropping a permit performs.\<close>

record 's sem_ops =
  sem_new :: "nat \<Rightarrow> 's"
  sem_try :: "'s \<Rightarrow> 's option"
  sem_drop :: "'s \<Rightarrow> 's"

definition semaphore_ok :: "'s sem_ops \<Rightarrow> ('s \<Rightarrow> nat) \<Rightarrow> bool" where
  "semaphore_ok ops avail \<longleftrightarrow>
     (\<forall>n. avail (sem_new ops n) = n) \<and>
     (\<forall>s. (avail s = 0 \<longrightarrow> sem_try ops s = None) \<and>
          (0 < avail s \<longrightarrow> (\<exists>s'. sem_try ops s = Some s' \<and> avail s' = avail s - 1)) \<and>
          avail (sem_drop ops s) = Suc (avail s))"

datatype limit_rejection = ConnFull | RateLimited

record 's session_limits =
  sl_conn :: "'s option"
  sl_rps :: "token_bucket option"

text \<open>A permit records whether it holds a semaphore permit.\<close>

record session_permit =
  sp_conn :: bool

definition limits_new :: "'s sem_ops \<Rightarrow> nat option \<Rightarrow> nat option \<Rightarrow> nat \<Rightarrow> 's session_limits" where
  "limits_new ops max_connections max_rps now =
     \<lparr>sl_conn = map_option (\<lambda>n. sem_new ops (max n 1)) max_connections,
      sl_rps = map_option (\<lambda>r. bucket_new (max r 1) now) max_rps\<rparr>"

definition acquire :: "'s sem_ops \<Rightarrow> nat \<Rightarrow> 's session_limits \<Rightarrow> (limit_rejection + session_permit) \<times> 's session_limits" where
  "acquire ops now l =
     (case (case sl_rps l of
              None \<Rightarrow> (True, l)
            | Some b \<Rightarrow> (case try_take now b of (ok, b') \<Rightarrow> (ok, l\<lparr>sl_rps := Some b'\<rparr>)))
      of (False, l1) \<Rightarrow> (Inl RateLimited, l1)
       | (True, l1) \<Rightarrow>
           (case sl_conn l1 of
              None \<Rightarrow> (Inr \<lparr>sp_conn = False\<rparr>, l1)
            | Some s \<Rightarrow>
                (case sem_try ops s of
                   Some s' \<Rightarrow> (Inr \<lparr>sp_conn = True\<rparr>, l1\<lparr>sl_conn := Some s'\<rparr>)
                 | None \<Rightarrow> (Inl ConnFull, l1))))"

definition release_permit :: "'s sem_ops \<Rightarrow> session_permit \<Rightarrow> 's session_limits \<Rightarrow> 's session_limits" where
  "release_permit ops p l = (if sp_conn p then l\<lparr>sl_conn := map_option (sem_drop ops) (sl_conn l)\<rparr> else l)"

text \<open>Sessions come and go: an event is an arrival at a time, or the end of a session.\<close>

datatype session_event = Arrive nat | Leave

fun limit_step :: "'s sem_ops \<Rightarrow> session_event \<Rightarrow> 's session_limits \<times> nat \<Rightarrow> 's session_limits \<times> nat" where
  "limit_step ops (Arrive t) (l, held) =
     (case acquire ops t l of (Inr p, l') \<Rightarrow> (l', Suc held) | (Inl _, l') \<Rightarrow> (l', held))"
| "limit_step ops Leave (l, held) =
     (case held of
        0 \<Rightarrow> (l, 0)
      | Suc n \<Rightarrow> (release_permit ops \<lparr>sp_conn = (sl_conn l \<noteq> None)\<rparr> l, n))"

definition limit_run :: "'s sem_ops \<Rightarrow> session_event list \<Rightarrow> 's session_limits \<times> nat \<Rightarrow> 's session_limits \<times> nat" where
  "limit_run ops = fold (limit_step ops)"

text \<open>Permits held and permits free add up to the configured number.\<close>

definition permits_inv :: "('s \<Rightarrow> nat) \<Rightarrow> nat option \<Rightarrow> 's session_limits \<times> nat \<Rightarrow> bool" where
  "permits_inv avail cap x \<longleftrightarrow>
     (case cap of None \<Rightarrow> sl_conn (fst x) = None
      | Some n \<Rightarrow> (\<exists>s. sl_conn (fst x) = Some s \<and> avail s + snd x = max n 1))"

lemma permits_inv_new:
  "semaphore_ok ops avail \<Longrightarrow> permits_inv avail cap (limits_new ops cap rps t, 0)"
  by (auto simp: permits_inv_def limits_new_def semaphore_ok_def split: option.splits)

lemma acquire_conn:
  "acquire ops t l = (r, l') \<Longrightarrow>
     sl_conn l' = sl_conn l \<and> (\<forall>p. r \<noteq> Inr p \<or> sl_conn l = None) \<or>
     (\<exists>s s' p. sl_conn l = Some s \<and> sem_try ops s = Some s' \<and> sl_conn l' = Some s' \<and> r = Inr p)"
  by (auto simp: acquire_def split: option.splits prod.splits if_splits bool.splits)

lemma sem_try_avail: "semaphore_ok ops avail \<Longrightarrow> sem_try ops s = Some s' \<Longrightarrow> avail s = Suc (avail s')"
  unfolding semaphore_ok_def by (cases "avail s") (metis option.distinct(1), metis diff_Suc_1 option.inject zero_less_Suc)

lemma permits_inv_step:
  assumes "semaphore_ok ops avail" and "permits_inv avail cap x"
  shows "permits_inv avail cap (limit_step ops ev x)"
proof (cases ev)
  case (Arrive t)
  obtain l h where x: "x = (l, h)" by fastforce
  obtain r l' where a: "acquire ops t l = (r, l')" by fastforce
  show ?thesis
    using acquire_conn [OF a] assms(2) a
    by (auto simp: Arrive x permits_inv_def split: option.splits sum.splits
        dest: sem_try_avail [OF assms(1)])
next
  case Leave
  show ?thesis
    using assms
    by (cases x) (auto simp: Leave permits_inv_def release_permit_def semaphore_ok_def
        split: option.splits nat.splits)
qed

lemma permits_inv_run:
  "semaphore_ok ops avail \<Longrightarrow> permits_inv avail cap x \<Longrightarrow> permits_inv avail cap (limit_run ops evs x)"
proof (unfold limit_run_def, induction evs arbitrary: x)
  case (Cons ev evs)
  then show ?case by (simp only: fold_Cons comp_apply permits_inv_step)
qed simp

section \<open>Properties\<close>

text \<open>C36: The request rate is limited in every window. Among any consecutive requests to a bucket
  for \<open>rate\<close> requests per second, after any requests before them, at most \<open>rate\<close> plus \<open>rate\<close> for
  each second from the first of them to the last are admitted. The requests are those that take the
  bucket's lock, in that order; when their clock readings are not sorted, the seconds are the sum of
  the steps forward between neighbours. The bucket never holds more than \<open>rate\<close> tokens or fewer
  than none.\<close>

theorem bucket_rate_bound:
  assumes "take_run earlier (bucket_new rate t0) = (m, b)" and "take_run (t # ts) b = (n, b')"
  shows "(of_nat n :: rat) \<le> of_nat rate + of_nat rate * forward_secs (t # ts) \<and>
    (sorted (t # ts) \<longrightarrow> (of_nat n :: rat) \<le> of_nat rate + of_nat rate * elapsed_secs t (last (t # ts))) \<and>
    0 \<le> tb_tokens b' \<and> tb_tokens b' \<le> of_nat rate"
proof -
  have "bucket_inv (bucket_new rate t0)" by (simp add: bucket_inv_def bucket_new_def)
  then have inv: "bucket_inv b" using take_run_inv [of "bucket_new rate t0" earlier] assms(1) by simp
  have rate: "tb_rate b = of_nat rate" using take_run_rate [OF assms(1)] by (simp add: bucket_new_def)
  obtain ok b1 k where t: "try_take t b = (ok, b1)" and k: "take_run ts b1 = (k, b')"
    and n: "n = (if ok then Suc k else k)"
    using assms(2) by (auto split: prod.splits)
  note fr = try_take_frame [OF t]
  have inv1: "bucket_inv b1" using try_take_inv [OF inv, of t] t by simp
  have "of_nat n + tb_tokens b' \<le> of_nat rate + of_nat rate * forward_secs (t # ts)"
    using take_run_pays [OF inv1 k] try_take_capped [OF t] fr rate n
    by (auto simp: mult.commute split: if_splits)
  moreover have "0 \<le> tb_tokens b'" "tb_tokens b' \<le> of_nat rate"
    using take_run_inv [OF inv1, of ts] k take_run_rate [OF k] fr rate by (auto simp: bucket_inv_def)
  ultimately show ?thesis using forward_secs_sorted [of t ts] by auto
qed

theorem bucket_rate_bound_witness:
  "fst (take_run [0, 0, 0, 500000000] (snd (take_run [0, 700000000] (bucket_new 2 0)))) = 2 \<and>
   (of_nat 2 :: rat) \<le> of_nat 2 + of_nat 2 * forward_secs [0, 0, 0, 500000000]"
proof -
  have earlier: "take_run [0, 700000000] (bucket_new 2 0) =
      (2, \<lparr>tb_rate = 2, tb_tokens = 1, tb_last = 700000000\<rparr>)"
    by (simp add: try_take_def bucket_new_def elapsed_secs_def Let_def)
  have run: "take_run [0, 0, 0, 500000000] \<lparr>tb_rate = 2, tb_tokens = 1, tb_last = 700000000\<rparr> =
      (2, \<lparr>tb_rate = 2, tb_tokens = 0, tb_last = 500000000\<rparr>)"
    by (simp add: try_take_def elapsed_secs_def Let_def)
  from bucket_rate_bound [OF earlier run] run earlier show ?thesis by simp
qed

text \<open>A clock reading that is older than the last one moves the bucket's clock back, and the time
  between them is paid for again: of the same five requests of one second, three pass instead of two.\<close>

lemma older_reading_pays_again:
  "fst (take_run [1000000000, 0, 1000000000, 0, 1000000000] (bucket_new 1 0)) = 3 \<and>
   fst (take_run [0, 0, 1000000000, 1000000000, 1000000000] (bucket_new 1 0)) = 2"
  by (simp add: try_take_def bucket_new_def elapsed_secs_def Let_def)

text \<open>With a connection limit \<open>n\<close> configured, no sequence of arrivals and departures
  ever holds more than \<open>max n 1\<close> sessions at once; and a full gate refuses with
  \<open>ConnFull\<close> after the rate limiter has already been charged.\<close>

theorem session_cap:
  assumes "semaphore_ok ops avail"
  shows "snd (limit_run ops evs (limits_new ops (Some n) rps t0, 0)) \<le> max n 1 \<and>
    (\<forall>s l t. sl_conn l = Some s \<longrightarrow> avail s = 0 \<longrightarrow>
       (case sl_rps l of
          None \<Rightarrow> acquire ops t l = (Inl ConnFull, l)
        | Some b \<Rightarrow> acquire ops t l =
            (if fst (try_take t b) then Inl ConnFull else Inl RateLimited,
             l\<lparr>sl_rps := Some (snd (try_take t b))\<rparr>)))"
proof
  have "permits_inv avail (Some n) (limit_run ops evs (limits_new ops (Some n) rps t0, 0))"
    by (intro permits_inv_run permits_inv_new assms)
  then show "snd (limit_run ops evs (limits_new ops (Some n) rps t0, 0)) \<le> max n 1"
    by (auto simp: permits_inv_def)
  show "\<forall>s l t. sl_conn l = Some s \<longrightarrow> avail s = 0 \<longrightarrow>
       (case sl_rps l of
          None \<Rightarrow> acquire ops t l = (Inl ConnFull, l)
        | Some b \<Rightarrow> acquire ops t l =
            (if fst (try_take t b) then Inl ConnFull else Inl RateLimited,
             l\<lparr>sl_rps := Some (snd (try_take t b))\<rparr>))"
    using assms by (auto simp: acquire_def semaphore_ok_def split: option.splits prod.splits bool.splits)
qed

definition nat_semaphore :: "nat sem_ops" where
  "nat_semaphore = \<lparr>sem_new = (\<lambda>n. n), sem_try = (\<lambda>n. case n of 0 \<Rightarrow> None | Suc k \<Rightarrow> Some k), sem_drop = Suc\<rparr>"

theorem session_cap_witness:
  "snd (limit_run nat_semaphore [Arrive 0, Arrive 1, Arrive 2] (limits_new nat_semaphore (Some 2) None 0, 0)) \<le> 2"
proof -
  have "semaphore_ok nat_semaphore (\<lambda>n. n)"
    by (auto simp: semaphore_ok_def nat_semaphore_def gr0_conv_Suc)
  from session_cap [OF this, of "[Arrive 0, Arrive 1, Arrive 2]" 2 None 0] show ?thesis by simp
qed

end
