(* ===== verification/Stream.thy ===== *)
theory Stream
  imports RustStr
begin

text \<open>
  A TCP stream as the session handlers see it. \<open>c_in\<close> is what the peer will still send
  before it closes, \<open>c_out\<close> what has been written to it, and \<open>c_wleft\<close> how many more
  writes the peer accepts (\<open>None\<close>: all of them). \<open>read_exact\<close> fails at the end of
  the input and \<open>write_all\<close> when the peer is gone, as the methods of the async I/O
  traits do.
\<close>

record conn =
  c_in :: bytes
  c_out :: bytes
  c_wleft :: "nat option"

definition read_exact :: "nat \<Rightarrow> conn \<Rightarrow> bytes option \<times> conn" where
  "read_exact n c =
     (if n \<le> length (c_in c) then (Some (take n (c_in c)), c\<lparr>c_in := drop n (c_in c)\<rparr>)
      else (None, c\<lparr>c_in := []\<rparr>))"

definition write_all :: "bytes \<Rightarrow> conn \<Rightarrow> bool \<times> conn" where
  "write_all bs c =
     (case c_wleft c of
        None \<Rightarrow> (True, c\<lparr>c_out := c_out c @ bs\<rparr>)
      | Some 0 \<Rightarrow> (False, c)
      | Some (Suc k) \<Rightarrow> (True, c\<lparr>c_out := c_out c @ bs, c_wleft := Some k\<rparr>))"

text \<open>A write whose result the code ignores (\<open>let _ = stream.write_all(..)\<close>).\<close>

definition write_ignore :: "bytes \<Rightarrow> conn \<Rightarrow> conn" where
  "write_ignore bs c = snd (write_all bs c)"

lemma read_exact_Some:
  "read_exact n c = (Some bs, c') \<longleftrightarrow>
     length bs = n \<and> c_in c = bs @ c_in c' \<and> c' = c\<lparr>c_in := c_in c'\<rparr>"
  by (auto simp: read_exact_def)

lemma read_exact_cases:
  obtains bs c' where "read_exact n c = (Some bs, c')" "length bs = n" "c_in c = bs @ c_in c'"
      "c_out c' = c_out c" "c_wleft c' = c_wleft c"
    | "read_exact n c = (None, c\<lparr>c_in := []\<rparr>)" "length (c_in c) < n"
proof (cases "n \<le> length (c_in c)")
  case True
  then have "read_exact n c = (Some (take n (c_in c)), c\<lparr>c_in := drop n (c_in c)\<rparr>)"
    by (simp add: read_exact_def)
  from that(1) [OF this] True show thesis by simp
next
  case False
  with that(2) show thesis by (simp add: read_exact_def)
qed

lemma read_exact_append [simp]:
  "length bs = n \<Longrightarrow> c_in c = bs @ rest \<Longrightarrow> read_exact n c = (Some bs, c\<lparr>c_in := rest\<rparr>)"
  by (simp add: read_exact_def)

lemma read_exact_frame: "read_exact n c = (r, c') \<Longrightarrow> c_out c' = c_out c \<and> c_wleft c' = c_wleft c"
  by (auto simp: read_exact_def split: if_splits)

lemma write_all_frame [simp]: "c_in (snd (write_all bs c)) = c_in c"
  by (auto simp: write_all_def split: option.splits nat.splits)

lemma write_all_in: "write_all bs c = (ok, c') \<Longrightarrow> c_in c' = c_in c"
  by (metis snd_conv write_all_frame)

lemma write_all_out: "write_all bs c = (True, c') \<Longrightarrow> c_out c' = c_out c @ bs"
  by (auto simp: write_all_def split: option.splits nat.splits)

lemma write_ignore_in [simp]: "c_in (write_ignore bs c) = c_in c"
  by (simp add: write_ignore_def)

lemma write_all_open [simp]:
  "c_wleft c = None \<Longrightarrow> write_all bs c = (True, c\<lparr>c_out := c_out c @ bs\<rparr>)"
  by (simp add: write_all_def)

lemma write_ignore_open [simp]:
  "c_wleft c = None \<Longrightarrow> write_ignore bs c = c\<lparr>c_out := c_out c @ bs\<rparr>"
  by (simp add: write_ignore_def)

section \<open>Big-endian ports\<close>

definition port_be :: "port \<Rightarrow> bytes" where
  "port_be p = [char_of (unat p div 256), char_of (unat p mod 256)]"

definition port_from_be :: "bytes \<Rightarrow> port" where
  "port_from_be bs = of_nat (of_char (bs ! 0) * 256 + of_char (bs ! 1))"

lemma length_port_be [simp]: "length (port_be p) = 2"
  by (simp add: port_be_def)

lemma unat_port_lt: "unat (p :: port) < 65536"
  using unsigned_less [of p] by simp

lemma port_be_roundtrip [simp]: "port_from_be (port_be p) = p"
proof -
  have "unat p div 256 mod 256 * 256 + unat p mod 256 = unat p"
    using unat_port_lt [of p] by (simp add: mod_less less_mult_imp_div_less)
  then show ?thesis by (simp add: port_from_be_def port_be_def)
qed

lemma of_char_lt_256: "(of_char c :: nat) < 256"
  using of_char_mod_256 [of c, where ?'a = nat] by (metis mod_less_divisor zero_less_numeral)

lemma port_from_be_inv: "length bs = 2 \<Longrightarrow> port_be (port_from_be bs) = bs"
proof -
  assume "length bs = 2"
  then obtain a b where bs: "bs = [a, b]" by (auto simp: numeral_2_eq_2 length_Suc_conv)
  have "(of_char a * 256 + of_char b :: nat) < 65536"
    using of_char_lt_256 [of a] of_char_lt_256 [of b] by linarith
  then have "unat (port_from_be bs) = of_char a * 256 + of_char b"
    by (simp add: bs port_from_be_def unat_of_nat del: of_nat_add of_nat_mult)
  moreover have "(of_char a * 256 + of_char b) div 256 = (of_char a :: nat)"
    using of_char_lt_256 [of b] by simp
  ultimately show ?thesis by (simp add: port_be_def bs)
qed

end
