(* ===== verification/GatewayConfig.thy ===== *)
theory GatewayConfig
  imports Pool SessionLimits Stream
begin

text \<open>
  The parts of \<open>src/gateway/mod.rs\<close> that the two listeners share: the configuration
  snapshot, credential checking, the client allowlist, and what a session is given and
  leaves behind. \<open>ProxySettings\<close> and \<open>ProxyStatus\<close> are from \<open>src/reconciler/mod.rs\<close>.
\<close>

record proxy_auth =
  pa_username :: string
  pa_password :: string

record proxy_settings =
  ps_socks5 :: bool
  ps_http :: bool
  ps_auth :: "proxy_auth option"
  ps_allowlist :: "string list"
  ps_max_connections :: "nat option"
  ps_max_rps :: "nat option"

datatype proxy_status =
    StStopped
  | StRunning nat nat string
  | StDegraded string "nat option"
  | StFailed string "int option"

record 's gateway_config =
  gc_socks5 :: bool
  gc_http :: bool
  gc_auth :: "(string \<times> string) option"
  gc_allowlist :: "string list"
  gc_limits :: "'s session_limits option"

definition config_from_settings :: "'s sem_ops \<Rightarrow> nat \<Rightarrow> proxy_settings \<Rightarrow> 's gateway_config" where
  "config_from_settings ops now s =
     \<lparr>gc_socks5 = ps_socks5 s, gc_http = ps_http s,
      gc_auth = map_option (\<lambda>a. (pa_username a, pa_password a)) (ps_auth s),
      gc_allowlist = ps_allowlist s,
      gc_limits = Some (limits_new ops (ps_max_connections s) (ps_max_rps s) now)\<rparr>"

section \<open>Credentials\<close>

text \<open>The accumulated difference of two byte strings, one byte wide.\<close>

definition byte_word :: "byte \<Rightarrow> 8 word" where
  "byte_word c = of_nat (of_char c)"

definition ct_diff :: "bytes \<Rightarrow> bytes \<Rightarrow> 8 word" where
  "ct_diff a b = foldl (\<lambda>d (x, y). d OR (byte_word x XOR byte_word y)) 0 (zip a b)"

definition ct_eq :: "bytes \<Rightarrow> bytes \<Rightarrow> bool" where
  "ct_eq a b \<longleftrightarrow> (if length a \<noteq> length b then False else ct_diff a b = 0)"

definition verify_credentials :: "(string \<times> string) option \<Rightarrow> bytes \<Rightarrow> bytes \<Rightarrow> bool" where
  "verify_credentials auth user pass =
     (case auth of None \<Rightarrow> True | Some (u, p) \<Rightarrow> ct_eq u user \<and> ct_eq p pass)"

lemma byte_word_inj: "byte_word x = byte_word y \<longleftrightarrow> x = y"
proof -
  have "unat (byte_word c) = of_char c" for c
    using of_char_lt_256 [of c] by (simp add: byte_word_def unat_of_nat)
  then show ?thesis by (metis of_char_eq_iff)
qed

lemma word_or_zero: "x OR y = 0 \<longleftrightarrow> x = 0 \<and> y = (0 :: 'a::len word)"
  by (auto simp: bit_eq_iff bit_simps)

lemma word_xor_zero: "x XOR y = 0 \<longleftrightarrow> x = (y :: 'a::len word)"
  by (auto simp: bit_eq_iff bit_simps)

lemma ct_diff_zero:
  assumes "length a = length b"
  shows "foldl (\<lambda>d (x, y). d OR (byte_word x XOR byte_word y)) d0 (zip a b) = 0 \<longleftrightarrow> d0 = 0 \<and> a = b"
  using assms
  by (induction a b arbitrary: d0 rule: list_induct2)
     (auto simp: word_or_zero word_xor_zero byte_word_inj)

text \<open>The comparison that looks at every byte decides equality.\<close>

lemma ct_eq_iff: "ct_eq a b \<longleftrightarrow> a = b"
  using ct_diff_zero [of a b 0] by (auto simp: ct_eq_def ct_diff_def)

lemma verify_credentials_iff:
  "verify_credentials auth user pass \<longleftrightarrow> (\<forall>u p. auth = Some (u, p) \<longrightarrow> user = u \<and> pass = p)"
  by (auto simp: verify_credentials_def ct_eq_iff split: option.splits)

section \<open>Allowlist\<close>

definition client_allowed :: "ip_addr \<Rightarrow> string list \<Rightarrow> bool" where
  "client_allowed peer allowlist =
     (if allowlist = [] then True
      else list_ex (\<lambda>cidr. case parse_cidr cidr of Inr net \<Rightarrow> contains_ip net peer | Inl _ \<Rightarrow> False)
             allowlist)"

lemma client_allowed_iff:
  "client_allowed peer al \<longleftrightarrow>
     al = [] \<or> (\<exists>cidr net. cidr \<in> set al \<and> parse_cidr cidr = Inr net \<and> contains_ip net peer)"
proof -
  have "(case r of Inr net \<Rightarrow> contains_ip net peer | Inl _ \<Rightarrow> False) \<longleftrightarrow>
      (\<exists>net. r = Inr net \<and> contains_ip net peer)" for r :: "cidr_error + ip_network"
    by (cases r) auto
  then show ?thesis by (auto simp: client_allowed_def list_ex_iff)
qed

section \<open>Sessions\<close>

text \<open>
  What surrounds one session: the clock, the peer's address, the registry it reads, and
  the network. \<open>se_dial\<close> gives the stream that connecting to an address yields
  (\<open>None\<close>: refused), \<open>se_dial_slow\<close> says whether the dial outlasts its ten seconds.
\<close>

record session_env =
  se_now :: nat
  se_peer :: ip_addr
  se_registry :: registry
  se_dial :: "socket_addr \<Rightarrow> conn option"
  se_dial_slow :: bool

datatype session_end =
    NotAllowed | BadGreeting | NoMethod | PeerGone | AuthAborted | AuthRejected
  | LimitRejected limit_rejection | BadRequest | NoUpstream | DialTimeout | DialFailed
  | Tunnelled upstream

text \<open>What a session leaves: how it ended, both streams, the limiter with the session's
  permit still held, and the pool it picked from.\<close>

record 's session_result =
  sr_end :: session_end
  sr_client :: conn
  sr_upstream :: "conn option"
  sr_limits :: "'s session_limits option"
  sr_permit :: "session_permit option"
  sr_pool :: rr_pool

text \<open>The end of a session before a permit was asked for, and after.\<close>

definition ended :: "'s gateway_config \<Rightarrow> rr_pool \<Rightarrow> session_end \<times> conn \<Rightarrow> 's session_result" where
  "ended cfg pool e = \<lparr>sr_end = fst e, sr_client = snd e, sr_upstream = None,
     sr_limits = gc_limits cfg, sr_permit = None, sr_pool = pool\<rparr>"

definition acquire_opt :: "'s sem_ops \<Rightarrow> nat \<Rightarrow> 's session_limits option
    \<Rightarrow> (limit_rejection + session_permit option) \<times> 's session_limits option" where
  "acquire_opt ops now limits =
     (case limits of
        None \<Rightarrow> (Inr None, None)
      | Some l \<Rightarrow> (case acquire ops now l of
            (Inr p, l') \<Rightarrow> (Inr (Some p), Some l')
          | (Inl e, l') \<Rightarrow> (Inl e, Some l')))"

section \<open>Properties\<close>

text \<open>The constant-time comparison accepts exactly the configured credentials: with
  authentication configured nothing but the configured user name and password pass, and a
  password that only shares a prefix does not.\<close>

theorem credentials_exact:
  "verify_credentials (Some (u, p)) user pass \<longleftrightarrow> user = u \<and> pass = p"
  by (auto simp: verify_credentials_iff)

text \<open>A non-empty allowlist admits a client only through an entry that parses and
  contains its address. In particular a list whose entries are all malformed admits
  nobody, rather than everybody as the empty list does.\<close>

theorem allowlist_fail_closed:
  assumes "al \<noteq> []"
  shows "(client_allowed peer al \<longleftrightarrow>
           (\<exists>cidr \<in> set al. \<exists>net. parse_cidr cidr = Inr net \<and> contains_ip net peer)) \<and>
    ((\<forall>cidr \<in> set al. \<exists>e. parse_cidr cidr = Inl e) \<longrightarrow> \<not> client_allowed peer al)"
  using assms by (auto simp: client_allowed_iff)

theorem allowlist_fail_closed_witness:
  "\<not> client_allowed localhost [''not-an-address'']"
proof -
  have "parse_cidr ''not-an-address'' = Inl \<lparr>ce_input = ''not-an-address'',
      ce_detail = ''must be a bare IPv4/IPv6 address or CIDR like 192.168.0.0/16''\<rparr>"
  proof -
    have t: "trim_str ''not-an-address'' = ''not-an-address''" by code_simp
    show ?thesis by (simp add: parse_cidr_def t parser_defs Let_def)
  qed
  with allowlist_fail_closed [of "[''not-an-address'']" localhost] show ?thesis by auto
qed

end
