(* ===== verification/Api.thy ===== *)
theory Api
  imports Profiles Registry GatewayConfig
begin

text \<open>
  The handlers that change desired state: \<open>src/api/instances.rs\<close>,
  \<open>src/api/accounts.rs\<close>, \<open>src/api/account.rs\<close> and \<open>src/api/proxy.rs\<close>, with the request
  types and their checks from \<open>src/api/dto.rs\<close> and the error mapping of
  \<open>src/api/error.rs\<close>. A body that is not the expected JSON is \<open>None\<close>. The handlers run behind
  the guard of \<open>Auth\<close>; an answer is the error or the view that is sent.
\<close>

section \<open>Errors\<close>

datatype api_error =
    Validation string
  | Unauthorized string
  | Forbidden string
  | ApiNotFound string
  | Conflict string
  | Internal string

fun api_code :: "api_error \<Rightarrow> string" where
  "api_code (Validation _) = ''VALIDATION''"
| "api_code (Unauthorized _) = ''UNAUTHORIZED''"
| "api_code (Forbidden _) = ''FORBIDDEN''"
| "api_code (ApiNotFound _) = ''NOT_FOUND''"
| "api_code (Conflict _) = ''CONFLICT''"
| "api_code (Internal _) = ''INTERNAL''"

fun api_message :: "api_error \<Rightarrow> string" where
  "api_message (Validation m) = m"
| "api_message (Unauthorized m) = m"
| "api_message (Forbidden m) = m"
| "api_message (ApiNotFound m) = m"
| "api_message (Conflict m) = m"
| "api_message (Internal _) = ''internal server error''"

fun api_status :: "api_error \<Rightarrow> nat" where
  "api_status (Validation _) = 422"
| "api_status (Unauthorized _) = 401"
| "api_status (Forbidden _) = 403"
| "api_status (ApiNotFound _) = 404"
| "api_status (Conflict _) = 409"
| "api_status (Internal _) = 500"

fun show_repo_error :: "repo_error \<Rightarrow> string" where
  "show_repo_error (RepoDb e) = ''database error: '' @ e"
| "show_repo_error (CorruptDesiredState e) = ''desired state column corrupted: '' @ e"
| "show_repo_error (ProfileAlreadyBound p) =
     ''warp_plus profile '' @ show_int p @ '' already bound to another instance''"

definition api_repo_error :: "repo_error \<Rightarrow> api_error" where
  "api_repo_error e =
     (if contains_str ''FOREIGN KEY constraint failed'' (show_repo_error e)
      then Validation ''referenced record does not exist'' else Internal (show_repo_error e))"

definition invalid_json_body :: api_error where
  "invalid_json_body = Validation ''invalid JSON request body''"

fun map_instance_repo_error :: "repo_error \<Rightarrow> api_error" where
  "map_instance_repo_error (ProfileAlreadyBound p) =
     Conflict (''WARP+ profile '' @ show_int p @
       '' is already bound to another instance; one WARP+ license = one instance'')"
| "map_instance_repo_error e = api_repo_error e"

fun api_profile_error :: "profile_error \<Rightarrow> api_error" where
  "api_profile_error (ProfileNotFound p) = ApiNotFound (''account profile '' @ show_int p @ '' not found'')"
| "api_profile_error (ProfileConflict m) = Conflict m"
| "api_profile_error (ProfileDb m) = Internal m"

fun show_consistency_error :: "consistency_error \<Rightarrow> string" where
  "show_consistency_error (ConsistencyDb e) = ''database error: '' @ e"
| "show_consistency_error (ConsistencyCrypto e) = ''crypto error: '' @ e"
| "show_consistency_error FreeProfileConflict = ''free profile is unique and reserved''"

definition api_consistency_error :: "consistency_error \<Rightarrow> api_error" where
  "api_consistency_error e =
     (case e of FreeProfileConflict \<Rightarrow> Conflict ''free profile is unique and reserved''
      | _ \<Rightarrow> Internal (show_consistency_error e))"

definition api_secret_error :: "secret_error \<Rightarrow> api_error" where
  "api_secret_error e = Internal (show_secret_error e)"

fun show_profile_error :: "profile_error \<Rightarrow> string" where
  "show_profile_error (ProfileNotFound p) = ''account profile not found: '' @ show_int p"
| "show_profile_error (ProfileConflict m) = ''account profile conflict: '' @ m"
| "show_profile_error (ProfileDb m) = ''account profile db error: '' @ m"

definition notify_change :: "('e, unit) op" where
  "notify_change s = (Inr (), s\<lparr>st_trigger := True\<rparr>)"

definition json_body :: "'a option \<Rightarrow> (api_error, 'a) op" where
  "json_body b = from_result (ok_or invalid_json_body b)"

section \<open>Checks on requests\<close>

text \<open>\<open>chars().count()\<close> of a UTF-8 string: the bytes that do not continue a code point.\<close>

definition char_count :: "string \<Rightarrow> nat" where
  "char_count s = length (filter (\<lambda>c. \<not> cont_byte 128 191 c) s)"

definition validate_name :: "string \<Rightarrow> string + string" where
  "validate_name name =
     (let n = trim_str name
      in if n = [] then Inl ''name must not be empty''
         else if 64 < char_count n then Inl ''name must be at most 64 characters''
         else Inr n)"

record create_request =
  cq_name :: string
  cq_profile :: "int option"

record profile_request =
  pq_name :: "string option"
  pq_mode :: "string option"
  pq_org :: "string option"
  pq_license :: "string option"
  pq_client_id :: "string option"
  pq_client_secret :: "string option"

record proxy_request =
  xq_socks5 :: "bool option"
  xq_http :: "bool option"
  xq_auth :: "bool option"
  xq_username :: "string option"
  xq_password :: "string option"
  xq_allowed_ips :: "string list option"
  xq_max_connections :: "nat option option"
  xq_max_rps :: "nat option option"

definition nonempty :: "string option \<Rightarrow> string option" where
  "nonempty v = (case v of Some s \<Rightarrow> if s = [] then None else Some s | None \<Rightarrow> None)"

definition opt_else :: "'a option \<Rightarrow> 'a option \<Rightarrow> 'a option" where
  "opt_else a b = (case a of Some x \<Rightarrow> Some x | None \<Rightarrow> b)"

definition opt_or :: "'a option \<Rightarrow> 'a \<Rightarrow> 'a" where
  "opt_or a b = (case a of Some x \<Rightarrow> x | None \<Rightarrow> b)"

definition proxy_request_apply :: "proxy_request \<Rightarrow> proxy_config \<Rightarrow> proxy_config" where
  "proxy_request_apply q c =
     \<lparr>pc_socks5 = opt_or (xq_socks5 q) (pc_socks5 c), pc_http = opt_or (xq_http q) (pc_http c),
      pc_auth = opt_or (xq_auth q) (pc_auth c),
      pc_username = opt_else (nonempty (map_option trim_str (xq_username q))) (pc_username c),
      pc_allowed_ips = opt_or (xq_allowed_ips q) (pc_allowed_ips c),
      pc_max_connections = opt_or (xq_max_connections q) (pc_max_connections c),
      pc_max_rps = opt_or (xq_max_rps q) (pc_max_rps c)\<rparr>"

definition proxy_request_validate :: "proxy_request \<Rightarrow> string + unit" where
  "proxy_request_validate q =
     (if xq_max_connections q = Some (Some 0)
      then Inl ''max_connections must be >= 1 (send null to remove the limit)''
      else if xq_max_rps q = Some (Some 0)
      then Inl ''max_rps must be >= 1 (send null to remove the limit)''
      else if (case xq_username q of Some u \<Rightarrow> trim_str u = [] | None \<Rightarrow> False)
      then Inl ''username must not be empty (omit to keep existing)''
      else Inr ())"

section \<open>Views\<close>

record instance_view =
  iv_id :: int
  iv_name :: string
  iv_enabled :: bool
  iv_desired :: string
  iv_auto_restart :: bool
  iv_state :: string
  iv_exit_ip :: "string option"
  iv_exit_v4 :: "string option"
  iv_exit_v6 :: "string option"
  iv_colo :: "string option"
  iv_latency :: "nat option"
  iv_last_error :: "string option"
  iv_restarts :: nat
  iv_account :: "(int \<times> string \<times> string) option"

definition view_from_parts :: "instance_spec \<Rightarrow> instance_runtime option \<Rightarrow> instance_view" where
  "view_from_parts sp actual =
     (let r = (case actual of Some e \<Rightarrow> e | None \<Rightarrow> rt_stopped);
          v4 = map_option show_ip (ir_exit_v4 r); v6 = map_option show_ip (ir_exit_v6 r)
      in \<lparr>iv_id = sp_id sp, iv_name = sp_name sp, iv_enabled = sp_enabled sp,
          iv_desired = desired_str (sp_desired sp), iv_auto_restart = sp_auto_restart sp,
          iv_state = state_str (ir_state r), iv_exit_ip = opt_else v4 v6, iv_exit_v4 = v4, iv_exit_v6 = v6,
          iv_colo = ir_colo r, iv_latency = ir_latency r, iv_last_error = ir_last_error r,
          iv_restarts = ir_restarts r, iv_account = None\<rparr>)"

definition with_account :: "account_profile list \<Rightarrow> int option \<Rightarrow> instance_view \<Rightarrow> instance_view" where
  "with_account ps bound v =
     v\<lparr>iv_account := map_option (\<lambda>p. (pf_id p, pf_name p, mode_str (pf_mode p)))
         (find (\<lambda>p. pf_id p = opt_or bound 1) ps)\<rparr>"

definition instance_view_of :: "registry \<Rightarrow> account_profile list \<Rightarrow> instance_spec \<Rightarrow> instance_view" where
  "instance_view_of reg ps sp = with_account ps (sp_profile sp) (view_from_parts sp (reg_get reg (sp_id sp)))"

record profile_view =
  pv_id :: int
  pv_name :: string
  pv_mode :: string
  pv_org :: "string option"
  pv_license :: bool
  pv_client_id :: bool
  pv_client_secret :: bool
  pv_instances :: nat
  pv_default :: bool

section \<open>Instances\<close>

definition parse_id :: "int \<Rightarrow> (api_error, instance_id) op" where
  "parse_id i = from_result (map_err (\<lambda>e. Validation (show_id_error e)) (id_from_db i))"

definition instance_missing :: "instance_id \<Rightarrow> api_error" where
  "instance_missing i = ApiNotFound (''instance '' @ show_int i @ '' not found'')"

definition get_instance :: "instance_id \<Rightarrow> (api_error, instance_spec) op" where
  "get_instance i =
     andthen (mapping_err api_repo_error (repo_get i))
       (\<lambda>r. from_result (ok_or (instance_missing i) r))"

definition ensure_exists :: "instance_id \<Rightarrow> (api_error, unit) op" where
  "ensure_exists i = andthen (get_instance i) (\<lambda>_. ret ())"

definition load_profiles :: "(api_error, account_profile list) op" where
  "load_profiles = mapping_err (\<lambda>e. Internal (show_profile_error e)) profile_list"

definition check_profile :: "int option \<Rightarrow> (api_error, unit) op" where
  "check_profile p =
     (case p of
        None \<Rightarrow> ret ()
      | Some q \<Rightarrow> andthen (mapping_err (\<lambda>_. Validation ''account_profile_id does not exist'') (profile_get q)) (\<lambda>_. ret ()))"

definition instances_list :: "registry \<Rightarrow> (api_error, instance_view list) op" where
  "instances_list reg =
     andthen (mapping_err api_repo_error repo_list)
       (\<lambda>sps. andthen load_profiles (\<lambda>ps. ret (List.map (instance_view_of reg ps) sps)))"

definition instances_get :: "registry \<Rightarrow> int \<Rightarrow> (api_error, instance_view) op" where
  "instances_get reg i =
     andthen (parse_id i) (\<lambda>i. andthen (get_instance i)
       (\<lambda>sp. andthen load_profiles (\<lambda>ps. ret (instance_view_of reg ps sp))))"

definition instances_create :: "registry \<Rightarrow> create_request option \<Rightarrow> (api_error, instance_view) op" where
  "instances_create reg body =
     andthen (json_body body)
       (\<lambda>q. andthen (from_result (map_err Validation (validate_name (cq_name q))))
       (\<lambda>name. andthen (check_profile (cq_profile q))
       (\<lambda>_. andthen (mapping_err map_instance_repo_error (repo_create_guarded name (cq_profile q)))
       (\<lambda>sp. andthen notify_change
       (\<lambda>_. andthen load_profiles (\<lambda>ps. ret (instance_view_of reg ps sp)))))))"

text \<open>\<open>PATCH\<close>: the only field is the binding; absent and \<open>null\<close> differ. The row that was just
  updated is expected to be there; were it gone, the handler would panic.\<close>

definition instances_update :: "registry \<Rightarrow> int \<Rightarrow> int option option option \<Rightarrow> (api_error, instance_view) op" where
  "instances_update reg i body =
     andthen (parse_id i)
       (\<lambda>i. andthen (ensure_exists i)
       (\<lambda>_. andthen (json_body body)
       (\<lambda>q. andthen (from_result (ok_or
               (Validation ''no updateable field provided (account_profile_id expected)'') q))
       (\<lambda>p. andthen (check_profile p)
       (\<lambda>_. andthen (mapping_err map_instance_repo_error (repo_rebind_profile_guarded i p))
       (\<lambda>_. andthen notify_change
       (\<lambda>_. andthen (mapping_err api_repo_error (repo_get i))
       (\<lambda>r. andthen (from_result (ok_or (Internal ''panicked: just updated'') r))
       (\<lambda>sp. andthen load_profiles (\<lambda>ps. ret (instance_view_of reg ps sp)))))))))))"

definition instances_set_desired :: "int \<Rightarrow> desired_state \<Rightarrow> (api_error, unit) op" where
  "instances_set_desired i ds =
     andthen (parse_id i)
       (\<lambda>i. andthen (ensure_exists i)
       (\<lambda>_. andthen (mapping_err api_repo_error (repo_set_desired i True ds)) (\<lambda>_. notify_change)))"

definition instances_start :: "int \<Rightarrow> (api_error, unit) op" where
  "instances_start i = instances_set_desired i DesiredRunning"

definition instances_stop :: "int \<Rightarrow> (api_error, unit) op" where
  "instances_stop i = instances_set_desired i DesiredStopped"

definition instances_restart :: "registry \<Rightarrow> int \<Rightarrow> (api_error, unit) op" where
  "instances_restart reg i =
     andthen (parse_id i)
       (\<lambda>i. andthen (ensure_exists i)
       (\<lambda>_. if (case reg_get reg i of Some e \<Rightarrow> is_running (ir_state e) | None \<Rightarrow> False)
            then andthen (mapping_err api_repo_error (repo_request_restart i)) (\<lambda>_. notify_change)
            else raise (Conflict (''instance '' @ show_int i @ '' is not running''))))"

definition instances_delete :: "int \<Rightarrow> (api_error, unit) op" where
  "instances_delete i =
     andthen (parse_id i)
       (\<lambda>i. andthen (ensure_exists i)
       (\<lambda>_. andthen (mapping_err api_repo_error (repo_delete i)) (\<lambda>_. notify_change)))"

section \<open>Account profiles\<close>

definition clean_org :: "string option \<Rightarrow> string option" where
  "clean_org v = nonempty (map_option trim_str v)"

definition secret_would_present :: "string option \<Rightarrow> bool \<Rightarrow> bool" where
  "secret_would_present v current = (case v of None \<Rightarrow> current | Some x \<Rightarrow> x \<noteq> [])"

definition validate_credentials :: "account_mode \<Rightarrow> profile_request \<Rightarrow> string option \<Rightarrow> string + unit" where
  "validate_credentials mode q org =
     (case mode of
        AmFree \<Rightarrow> Inr ()
      | AmWarpPlus \<Rightarrow>
          if secret_would_present (pq_license q) False then Inr ()
          else Inl ''warp_plus mode requires a license''
      | AmZeroTrust \<Rightarrow>
          if secret_would_present (pq_client_id q) False \<and> secret_would_present (pq_client_secret q) False \<and> org \<noteq> None
          then Inr ()
          else Inl ''zero_trust mode requires org, client id and client secret'')"

definition request_creds :: "profile_request \<Rightarrow> (secret_kind \<times> string option) list" where
  "request_creds q =
     [(WarpPlusLicense, pq_license q), (ZeroTrustClientId, pq_client_id q), (ZeroTrustClientSecret, pq_client_secret q)]"

definition exists_profile :: "secret_kind \<Rightarrow> int \<Rightarrow> (api_error, bool) op" where
  "exists_profile k p = unwrap_or False (secret_exists_for_profile k p)"

definition build_view :: "account_profile \<Rightarrow> (api_error, profile_view) op" where
  "build_view pf =
     andthen (exists_profile WarpPlusLicense (pf_id pf))
       (\<lambda>l. andthen (exists_profile ZeroTrustClientId (pf_id pf))
       (\<lambda>a. andthen (exists_profile ZeroTrustClientSecret (pf_id pf))
       (\<lambda>b. andthen (unwrap_or [] repo_list)
       (\<lambda>sps. ret \<lparr>pv_id = pf_id pf, pv_name = pf_name pf, pv_mode = mode_str (pf_mode pf), pv_org = pf_org pf,
                   pv_license = l, pv_client_id = a, pv_client_secret = b,
                   pv_instances = length (filter (\<lambda>sp. opt_or (sp_profile sp) 1 = pf_id pf) sps),
                   pv_default = (pf_id pf = 1)\<rparr>))))"

fun build_views :: "account_profile list \<Rightarrow> (api_error, profile_view list) op" where
  "build_views [] = ret []"
| "build_views (p # ps) = andthen (build_view p) (\<lambda>v. andthen (build_views ps) (\<lambda>vs. ret (v # vs)))"

definition accounts_list :: "(api_error, profile_view list) op" where
  "accounts_list = andthen (mapping_err api_profile_error profile_list) build_views"

definition accounts_get :: "int \<Rightarrow> (api_error, profile_view) op" where
  "accounts_get p = andthen (mapping_err api_profile_error (profile_get p)) build_view"

definition accounts_create :: "crypto \<Rightarrow> profile_request option \<Rightarrow> (api_error, profile_view) op" where
  "accounts_create cy body =
     andthen (json_body body)
       (\<lambda>q. andthen (from_result (bind_res (ok_or (Validation ''name is required'') (pq_name q))
               (\<lambda>n. map_err Validation (validate_name n))))
       (\<lambda>name. andthen (from_result (bind_res (ok_or (Validation ''mode is required'') (pq_mode q))
               (\<lambda>m. map_err Validation (mode_parse m))))
       (\<lambda>mode. andthen (from_result (map_err Validation (validate_credentials mode q (clean_org (pq_org q)))))
       (\<lambda>_. andthen (mapping_err api_consistency_error
               (create_profile_with_credentials cy name (mode_str mode) (clean_org (pq_org q)) (request_creds q)))
       (\<lambda>p. andthen (mapping_err api_profile_error (profile_get p)) build_view)))))"

text \<open>\<open>PATCH\<close>, in two halves as the code awaits between them: reading and checking, which gives
  what is to be written, and the transaction that writes it.\<close>

definition effective_request :: "string \<Rightarrow> account_mode \<Rightarrow> string option \<Rightarrow> bool \<Rightarrow> bool \<Rightarrow> bool \<Rightarrow> profile_request" where
  "effective_request name mode org l a b =
     \<lparr>pq_name = Some name, pq_mode = Some (mode_str mode), pq_org = org,
      pq_license = Some (if l then ''x'' else []), pq_client_id = Some (if a then ''x'' else []),
      pq_client_secret = Some (if b then ''x'' else [])\<rparr>"

definition update_target :: "int \<Rightarrow> profile_request \<Rightarrow> account_profile
    \<Rightarrow> (api_error, profile_request \<times> string \<times> account_mode \<times> string option) op" where
  "update_target p q before =
     andthen (from_result (case pq_mode q of Some m \<Rightarrow> map_err Validation (mode_parse m) | None \<Rightarrow> Inr (pf_mode before)))
       (\<lambda>mode. andthen (from_result (case pq_name q of Some n \<Rightarrow> map_err Validation (validate_name n) | None \<Rightarrow> Inr (pf_name before)))
       (\<lambda>name. (let org = (case pq_org q of Some v \<Rightarrow> clean_org (Some v) | None \<Rightarrow> pf_org before)
          in andthen (exists_profile WarpPlusLicense p)
       (\<lambda>l. andthen (exists_profile ZeroTrustClientId p)
       (\<lambda>a. andthen (exists_profile ZeroTrustClientSecret p)
       (\<lambda>b. andthen (from_result (map_err Validation (validate_credentials mode
               (effective_request name mode org (secret_would_present (pq_license q) l)
                  (secret_would_present (pq_client_id q) a) (secret_would_present (pq_client_secret q) b)) org)))
       (\<lambda>_. ret (q, name, mode, org))))))))"

definition accounts_update_check :: "int \<Rightarrow> profile_request option
    \<Rightarrow> (api_error, profile_request \<times> string \<times> account_mode \<times> string option) op" where
  "accounts_update_check p body =
     andthen (json_body body)
       (\<lambda>q. andthen (mapping_err api_profile_error (profile_get p))
       (\<lambda>before. if pf_mode before = AmFree then
            raise (Conflict ''the free profile is read-only: it is the globally-unique built-in default'')
          else andthen (mapping_err api_repo_error (repo_count_bound p))
       (\<lambda>bound. if 0 < bound then
            raise (Conflict (''account profile '' @ show_int p @ '' is bound to '' @ show_nat bound @
              '' instance(s); unbind them before editing''))
          else update_target p q before)))"

definition accounts_update_write :: "crypto \<Rightarrow> int \<Rightarrow> profile_request \<times> string \<times> account_mode \<times> string option
    \<Rightarrow> (api_error, profile_view) op" where
  "accounts_update_write cy p w =
     (case w of (q, name, mode, org) \<Rightarrow>
        andthen (mapping_err api_consistency_error
          (update_profile_with_credentials cy p name (mode_str mode) org (request_creds q)))
          (\<lambda>_. andthen notify_change
          (\<lambda>_. andthen (mapping_err api_profile_error (profile_get p)) build_view)))"

definition accounts_update :: "crypto \<Rightarrow> int \<Rightarrow> profile_request option \<Rightarrow> (api_error, profile_view) op" where
  "accounts_update cy p body = andthen (accounts_update_check p body) (accounts_update_write cy p)"

definition accounts_delete :: "int \<Rightarrow> (api_error, unit) op" where
  "accounts_delete p = andthen (mapping_err api_profile_error (profile_delete p)) (\<lambda>_. notify_change)"

section \<open>The global account\<close>

record account_request =
  aq_mode :: "string option"
  aq_license :: "string option"
  aq_org :: "string option"
  aq_client_id :: "string option"
  aq_client_secret :: "string option"

record account_view =
  av_mode :: string
  av_configured :: bool
  av_license :: bool
  av_zero_trust :: bool
  av_org :: "string option"

definition account_view_of :: "account_mode \<Rightarrow> bool \<Rightarrow> bool \<Rightarrow> bool \<Rightarrow> string option \<Rightarrow> account_view" where
  "account_view_of mode l a b org =
     \<lparr>av_mode = mode_str mode, av_configured = (l \<or> a \<or> b), av_license = l, av_zero_trust = (a \<and> b), av_org = org\<rparr>"

definition api_account_error :: "string \<Rightarrow> api_error" where
  "api_account_error e = Internal (''account db error: '' @ e)"

definition account_api_get :: "(api_error, account_view) op" where
  "account_api_get =
     andthen (mapping_err api_account_error account_get)
       (\<lambda>cfg. andthen (mapping_err api_secret_error (secret_exists WarpPlusLicense))
       (\<lambda>l. andthen (mapping_err api_secret_error (secret_exists ZeroTrustClientId))
       (\<lambda>a. andthen (mapping_err api_secret_error (secret_exists ZeroTrustClientSecret))
       (\<lambda>b. ret (account_view_of (ac_mode cfg) l a b (ac_org cfg))))))"

definition apply_secret :: "crypto \<Rightarrow> secret_kind \<Rightarrow> string option \<Rightarrow> (secret_error, unit) op" where
  "apply_secret cy k v =
     (case v of None \<Rightarrow> ret () | Some x \<Rightarrow> if x = [] then secret_delete k else secret_set cy k x)"

definition account_mode_check :: "account_mode \<Rightarrow> bool \<Rightarrow> bool \<Rightarrow> bool \<Rightarrow> string option \<Rightarrow> api_error + unit" where
  "account_mode_check mode l a b org =
     (case mode of
        AmFree \<Rightarrow> Inr ()
      | AmWarpPlus \<Rightarrow> if l then Inr () else Inl (Validation ''warp_plus mode requires a license'')
      | AmZeroTrust \<Rightarrow> if a \<and> b \<and> org \<noteq> None then Inr ()
                      else Inl (Validation ''zero_trust mode requires org, client id and client secret''))"

definition account_api_update :: "crypto \<Rightarrow> account_request option \<Rightarrow> (api_error, account_view) op" where
  "account_api_update cy body =
     andthen (json_body body)
       (\<lambda>q. andthen (mapping_err api_account_error account_get)
       (\<lambda>cur. andthen (from_result (case aq_mode q of Some m \<Rightarrow> map_err Validation (mode_parse m) | None \<Rightarrow> Inr (ac_mode cur)))
       (\<lambda>mode. andthen (mapping_err api_secret_error (secret_exists WarpPlusLicense))
       (\<lambda>l0. andthen (mapping_err api_secret_error (secret_exists ZeroTrustClientId))
       (\<lambda>a0. andthen (mapping_err api_secret_error (secret_exists ZeroTrustClientSecret))
       (\<lambda>b0. (let l = secret_would_present (aq_license q) l0; a = secret_would_present (aq_client_id q) a0;
                 b = secret_would_present (aq_client_secret q) b0;
                 org = opt_else (clean_org (aq_org q)) (ac_org cur)
          in andthen (from_result (account_mode_check mode l a b org))
       (\<lambda>_. andthen (mapping_err api_secret_error (apply_secret cy WarpPlusLicense (aq_license q)))
       (\<lambda>_. andthen (mapping_err api_secret_error (apply_secret cy ZeroTrustClientId (aq_client_id q)))
       (\<lambda>_. andthen (mapping_err api_secret_error (apply_secret cy ZeroTrustClientSecret (aq_client_secret q)))
       (\<lambda>_. andthen (mapping_err api_account_error (account_set_mode mode org))
       (\<lambda>_. ret (account_view_of mode l a b org)))))))))))))"

section \<open>The proxy\<close>

record proxy_actual_view =
  xa_status :: string
  xa_pid :: "nat option"
  xa_exit_code :: "int option"
  xa_reason :: "string option"

fun actual_of_status :: "proxy_status \<Rightarrow> proxy_actual_view" where
  "actual_of_status StStopped = \<lparr>xa_status = ''stopped'', xa_pid = None, xa_exit_code = None, xa_reason = None\<rparr>"
| "actual_of_status (StRunning pid _ _) =
     \<lparr>xa_status = ''running'', xa_pid = Some pid, xa_exit_code = None, xa_reason = None\<rparr>"
| "actual_of_status (StDegraded reason pid) =
     \<lparr>xa_status = ''degraded'', xa_pid = pid, xa_exit_code = None, xa_reason = Some reason\<rparr>"
| "actual_of_status (StFailed reason code) =
     \<lparr>xa_status = ''failed'', xa_pid = None, xa_exit_code = code, xa_reason = Some reason\<rparr>"

record proxy_view =
  xv_socks5 :: bool
  xv_http :: bool
  xv_auth :: bool
  xv_auth_configured :: bool
  xv_allowed_ips :: "string list"
  xv_max_connections :: "nat option"
  xv_max_rps :: "nat option"
  xv_actual :: "proxy_actual_view option"

definition proxy_view_of :: "proxy_config \<Rightarrow> bool \<Rightarrow> proxy_view" where
  "proxy_view_of c present =
     \<lparr>xv_socks5 = pc_socks5 c, xv_http = pc_http c, xv_auth = pc_auth c, xv_auth_configured = present,
      xv_allowed_ips = pc_allowed_ips c, xv_max_connections = pc_max_connections c, xv_max_rps = pc_max_rps c,
      xv_actual = None\<rparr>"

text \<open>The last step of both handlers asks the gateway for its status, \<open>st\<close>.\<close>

definition with_actual :: "proxy_status option \<Rightarrow> proxy_view \<Rightarrow> proxy_view" where
  "with_actual st v = v\<lparr>xv_actual := map_option actual_of_status st\<rparr>"

definition proxy_api_get :: "proxy_status option \<Rightarrow> (api_error, proxy_view) op" where
  "proxy_api_get st =
     andthen (mapping_err api_repo_error proxy_repo_get)
       (\<lambda>c. andthen (mapping_err api_secret_error (secret_exists ProxyPassword)) (\<lambda>present. ret (with_actual st (proxy_view_of c present))))"

definition proxy_api_update :: "crypto \<Rightarrow> proxy_status option \<Rightarrow> proxy_request option \<Rightarrow> (api_error, proxy_view) op" where
  "proxy_api_update cy st body =
     andthen (json_body body)
       (\<lambda>q. andthen (from_result (map_err Validation (proxy_request_validate q)))
       (\<lambda>_. andthen (mapping_err api_repo_error proxy_repo_get)
       (\<lambda>cur. andthen (case xq_password q of
                 None \<Rightarrow> mapping_err api_secret_error (secret_exists ProxyPassword)
               | Some v \<Rightarrow> ret (v \<noteq> []))
       (\<lambda>present. (let updated = proxy_request_apply q cur
          in if pc_auth updated \<and> \<not> present then
               raise (Validation ''auth_enabled requires a proxy password (set `password`)'')
             else andthen (mapping_err (\<lambda>e. Internal (show_consistency_error e))
                 (update_proxy_with_password cy updated (xq_password q)))
       (\<lambda>_. andthen notify_change (\<lambda>_. ret (with_actual st (proxy_view_of updated present)))))))))"

section \<open>Invariant: authentication has a password\<close>

text \<open>A stored configuration that asks for authentication has a stored password.\<close>

definition proxy_ok :: "database \<Rightarrow> bool" where
  "proxy_ok d \<longleftrightarrow>
     (\<forall>r. db_proxy d = Some r \<longrightarrow> px_auth r \<noteq> 0 \<longrightarrow> list_ex (secret_at ProxyPassword None) (db_secrets d))"

definition api_ok :: "database \<Rightarrow> bool" where
  "api_ok d \<longleftrightarrow> db_ok d \<and> proxy_ok d"

lemma api_okI: "keeps db_ok m \<Longrightarrow> keeps proxy_ok m \<Longrightarrow> keeps api_ok m"
  using keeps_conj [of db_ok m proxy_ok] by (simp add: api_ok_def [abs_def])

lemma proxy_ok_more_secrets:
  assumes "proxy_ok d" "db_proxy d' = db_proxy d"
    and "\<And>r. r \<in> set (db_secrets d) \<Longrightarrow> secret_at ProxyPassword None r \<Longrightarrow> \<exists>r'\<in>set (db_secrets d'). secret_at ProxyPassword None r'"
  shows "proxy_ok d'"
  using assms by (fastforce simp: proxy_ok_def list_ex_iff)

lemma keeps_proxy_stmt:
  assumes "\<And>d x d'. f d = Inr (x, d') \<Longrightarrow> db_proxy d' = db_proxy d \<and>
     (\<forall>r\<in>set (db_secrets d). secret_at ProxyPassword None r \<longrightarrow> (\<exists>r'\<in>set (db_secrets d'). secret_at ProxyPassword None r'))"
  shows "keeps proxy_ok (stmt f)"
  using assms by (intro keeps_stmt) (blast intro: proxy_ok_more_secrets)

lemma instance_statements_proxy [inv_intros]:
  "keeps proxy_ok (update_where P f)" "keeps proxy_ok (update_id i g)" "keeps proxy_ok (insert_row name p)"
  "keeps proxy_ok (repo_delete i)" "keeps proxy_ok (repo_request_restart i)"
proof -
  show u: "keeps proxy_ok (update_where P f)" for P f
    unfolding update_where_def by (intro keeps_mapping_err keeps_proxy_stmt) (auto simp: update_instances_Inr)
  show "keeps proxy_ok (update_id i g)"
    unfolding update_id_def by (intro keeps_andthen u keeps_simple)
  show "keeps proxy_ok (insert_row name p)"
    unfolding insert_row_def
    by (intro keeps_mapping_err keeps_proxy_stmt) (auto simp: insert_instance_def Let_def split: if_splits)
  show "keeps proxy_ok (repo_delete i)"
    unfolding repo_delete_def by (intro keeps_mapping_err keeps_proxy_stmt) (auto simp: delete_instances_def)
  show "keeps proxy_ok (repo_request_restart i)"
    unfolding repo_request_restart_def
    by (intro keeps_mapping_err keeps_proxy_stmt) (auto simp: bind_res_eq_Inr update_instances_Inr)
qed

lemma guarded_proxy [inv_intros]:
  "keeps proxy_ok (repo_rebind_profile_guarded i p)" "keeps proxy_ok (repo_create_guarded name p)"
  "keeps proxy_ok (repo_set_desired i en ds)"
  unfolding repo_rebind_profile_guarded_def repo_rebind_profile_def repo_create_guarded_def repo_set_desired_def
  by (intro inv_intros)+

lemma upsert_proxy_kept: "upsert_secret k p c n d = Inr (x, d') \<Longrightarrow> db_proxy d' = db_proxy d \<and>
     (\<forall>r\<in>set (db_secrets d). secret_at ProxyPassword None r \<longrightarrow> (\<exists>r'\<in>set (db_secrets d'). secret_at ProxyPassword None r'))"
  by (auto simp: upsert_secret_def insert_secret_def secret_at_def split: if_splits)

lemma profile_statements_proxy [inv_intros]:
  "keeps proxy_ok (stmt (upsert_secret k p c n))"
  "keeps proxy_ok (stmt (delete_secrets (secret_at k (Some p))))"
  "keeps proxy_ok (stmt (insert_profile name mode org))"
  "keeps proxy_ok (stmt (update_profile_row p name mode org))"
  "keeps proxy_ok (stmt (delete_profile_row p))"
  "keeps proxy_ok (stmt (update_instances P f))"
proof -
  show "keeps proxy_ok (stmt (upsert_secret k p c n))"
    by (rule keeps_proxy_stmt) (rule upsert_proxy_kept)
  show "keeps proxy_ok (stmt (delete_secrets (secret_at k (Some p))))"
    by (rule keeps_proxy_stmt) (auto simp: delete_secrets_def secret_at_def)
  show "keeps proxy_ok (stmt (insert_profile name mode org))"
    by (rule keeps_proxy_stmt) (auto simp: insert_profile_def Let_def split: if_splits)
  show "keeps proxy_ok (stmt (update_profile_row p name mode org))"
    by (rule keeps_proxy_stmt) (auto simp: update_profile_row_def split: if_splits)
  show "keeps proxy_ok (stmt (delete_profile_row p))"
    by (rule keeps_proxy_stmt) (auto simp: delete_profile_row_def secret_at_def split: if_splits)
  show "keeps proxy_ok (stmt (update_instances P f))"
    by (rule keeps_proxy_stmt) (auto simp: update_instances_Inr)
qed

lemma profile_secrets_proxy [inv_intros]:
  "keeps proxy_ok (set_profile_secret cy k p v)" "keeps proxy_ok (delete_profile_secret k p)"
proof -
  show "keeps proxy_ok (set_profile_secret cy k p v)"
    unfolding set_profile_secret_def
    by (intro keeps_andthen keeps_mapping_err encrypt_keeps; clarsimp intro!: inv_intros)
  show "keeps proxy_ok (delete_profile_secret k p)"
    unfolding delete_profile_secret_def by (intro inv_intros)
qed

lemma secrets_lists_proxy [inv_intros]:
  "keeps proxy_ok (set_new_secrets cy p cs)" "keeps proxy_ok (change_secrets cy p cs)"
proof -
  show "keeps proxy_ok (set_new_secrets cy p cs)"
  proof (induction cs)
    case (Cons c cs)
    obtain k v where "c = (k, v)" by (cases c)
    with Cons show ?case by (cases v) (auto intro!: inv_intros)
  qed (simp only: set_new_secrets.simps keeps_simple)
  show "keeps proxy_ok (change_secrets cy p cs)"
  proof (induction cs)
    case (Cons c cs)
    obtain k v where "c = (k, v)" by (cases c)
    with Cons show ?case by (cases v) (auto intro!: inv_intros)
  qed (simp only: change_secrets.simps keeps_simple)
qed

lemma uow_proxy [inv_intros]:
  "keeps proxy_ok (create_profile_with_credentials cy name mode org creds)"
  "keeps proxy_ok (update_profile_with_credentials cy p name mode org creds)"
  "keeps proxy_ok (profile_delete p)"
  unfolding create_profile_with_credentials_def update_profile_with_credentials_def profile_delete_def
  by (auto intro!: inv_intros)

lemma global_secret_keeps [inv_intros]:
  assumes "k \<noteq> ProxyPassword"
  shows "keeps api_ok (secret_set cy k v)" "keeps api_ok (secret_delete k)"
proof -
  have other: "secret_at ProxyPassword None r \<Longrightarrow> \<not> secret_at k None r" for r
    using assms secret_at_same [of ProxyPassword None r k None] by auto
  have del: "keeps proxy_ok (stmt (delete_secrets (secret_at k None)))"
    by (rule keeps_proxy_stmt) (use other in \<open>auto simp: delete_secrets_def\<close>)
  have ins: "keeps proxy_ok (stmt (insert_secret r))" for r
    by (rule keeps_proxy_stmt) (auto simp: insert_secret_def split: if_splits)
  have "keeps proxy_ok (replace_global er k c n)" for er :: "sql_error \<Rightarrow> secret_error" and c n
    unfolding replace_global_def by (intro keeps_andthen keeps_mapping_err del ins)
  then have "keeps proxy_ok (secret_set cy k v)"
    unfolding secret_set_def
    by (intro keeps_andthen keeps_mapping_err encrypt_keeps) (auto intro: keeps_tx)
  moreover have "keeps db_ok (secret_set cy k v)"
    unfolding secret_set_def
    by (intro keeps_andthen keeps_mapping_err encrypt_keeps) (auto intro!: inv_intros)
  ultimately show "keeps api_ok (secret_set cy k v)" by (rule api_okI [rotated])
  have "keeps db_ok (secret_delete k)" "keeps proxy_ok (secret_delete k)"
    unfolding secret_delete_def by (intro inv_intros del keeps_mapping_err)+
  then show "keeps api_ok (secret_delete k)" by (rule api_okI)
qed

section \<open>Every request keeps the invariants\<close>

lemma notify_keeps [inv_intros]: "keeps I notify_change"
  unfolding keeps_def by (rule tripleI) (auto simp: notify_change_def)

lemma exists_profile_keeps [inv_intros]: "keeps I (exists_profile k p)"
  unfolding exists_profile_def by (intro inv_intros)

lemma read_handlers_keep [inv_intros]:
  "keeps I (json_body b)" "keeps I (parse_id i)" "keeps I (get_instance i)" "keeps I (ensure_exists i)"
  "keeps I load_profiles" "keeps I (build_view pf)"
  unfolding json_body_def parse_id_def get_instance_def ensure_exists_def load_profiles_def build_view_def
  by (intro inv_intros)+

lemma check_profile_keeps [inv_intros]: "keeps I (check_profile p)"
  by (cases p) (auto simp: check_profile_def intro!: inv_intros)

lemma instance_ops_keep [inv_intros]:
  "keeps api_ok (repo_create_guarded name p)" "keeps api_ok (repo_rebind_profile_guarded i p)"
  "keeps api_ok (repo_set_desired i en ds)" "keeps api_ok (repo_delete i)" "keeps api_ok (repo_request_restart i)"
  by (intro api_okI db_okI inv_intros)+

lemma profile_ops_keep [inv_intros]:
  "keeps api_ok (create_profile_with_credentials cy name mode org creds)" "keeps api_ok (profile_delete p)"
  by (intro api_okI inv_intros)+

lemma instances_handlers_keep:
  "keeps api_ok (instances_create reg q)" "keeps api_ok (instances_update reg i b)"
  "keeps api_ok (instances_start i)" "keeps api_ok (instances_stop i)"
  "keeps api_ok (instances_restart reg i)" "keeps api_ok (instances_delete i)"
  unfolding instances_create_def instances_update_def instances_start_def instances_stop_def instances_set_desired_def
    instances_restart_def instances_delete_def
  by (intro inv_intros; auto intro!: inv_intros split: if_splits)+

lemma accounts_create_keeps: "keeps api_ok (accounts_create cy q)"
  unfolding accounts_create_def by (intro inv_intros)

lemma accounts_delete_keeps: "keeps api_ok (accounts_delete p)"
  unfolding accounts_delete_def by (intro inv_intros)

text \<open>The checks before a profile is changed establish what the change needs, as long as nothing
  else runs in between.\<close>

definition editable :: "int \<Rightarrow> database \<Rightarrow> bool" where
  "editable p d \<longleftrightarrow> p \<noteq> default_profile_id \<and> bound_count (\<lambda>_. True) p d = 0"

lemma editable_after_get:
  assumes "db_ok d" and "find_profile d p = Some row" and "mode_of_column (ap_mode row) \<noteq> AmFree"
  shows "p \<noteq> default_profile_id"
proof
  assume p: "p = default_profile_id"
  from assms(1) obtain r where r: "r \<in> set (db_profiles d)" "ap_mode r = ''free''" "ap_id r = default_profile_id"
  proof -
    from assms(1) have "List.map ap_id (filter (\<lambda>r. ap_mode r = ''free'') (db_profiles d)) = [default_profile_id]"
      by (simp add: db_ok_def profiles_ok_def)
    then obtain r where "filter (\<lambda>r. ap_mode r = ''free'') (db_profiles d) = [r]" "ap_id r = default_profile_id"
      by auto
    then have "r \<in> set (filter (\<lambda>r. ap_mode r = ''free'') (db_profiles d))" by simp
    with \<open>ap_id r = default_profile_id\<close> show ?thesis using that by auto
  qed
  with assms(1) have "find_profile d p = Some r"
    using find_profile_mem [of d r] p by (simp add: db_ok_def desired_ok_def)
  with r assms(2,3) show False by (simp add: mode_of_column_def mode_parse_def)
qed

lemma triple_keeps: "keeps I m \<Longrightarrow> triple I m (\<lambda>_. I) (\<lambda>_. True)"
  unfolding keeps_def by (rule triple_conseq [of I m "\<lambda>_. I" I]) auto

lemma update_profile_keeps:
  assumes "mode \<in> {''free'', ''warp_plus'', ''zero_trust''}"
  shows "triple (\<lambda>d. api_ok d \<and> editable p d) (update_profile_with_credentials cy p name mode org creds) (\<lambda>_. api_ok) api_ok"
proof -
  let ?n = "\<lambda>d. length (filter (\<lambda>r. ap_mode r = ''free'' \<and> ap_id r \<noteq> p) (db_profiles d))"
  have more: "0 < ?n d" if "db_ok d" "p \<noteq> default_profile_id" for d
  proof -
    have "filter (\<lambda>r. ap_mode r = ''free'' \<and> ap_id r \<noteq> p) (db_profiles d) = filter (\<lambda>r. ap_mode r = ''free'') (db_profiles d)"
      using that only_default_free [of d] by (intro filter_cong) (auto simp: db_ok_def)
    with that free_exists [of d] show ?thesis by (simp add: db_ok_def)
  qed
  have guard: "triple (\<lambda>d. api_ok d \<and> editable p d)
      (if mode = ''free'' then mapping_err uow_sql (select_stmt ?n) else ret 0)
      (\<lambda>n d. api_ok d \<and> editable p d \<and> (mode = ''free'' \<longrightarrow> 0 < n)) (\<lambda>_. True)"
    using more by (auto intro!: inv_intros simp: api_ok_def editable_def)
  have upd: "triple (\<lambda>d. api_ok d \<and> editable p d \<and> mode \<noteq> ''free'')
      (mapping_err uow_sql (stmt (update_profile_row p name mode org))) (\<lambda>_. api_ok) (\<lambda>_. True)"
  proof (intro triple_mapping_err triple_stmt)
    fix d x d'
    assume d: "api_ok d \<and> editable p d \<and> mode \<noteq> ''free''" and u: "update_profile_row p name mode org d = Inr (x, d')"
    then have "db_ok d'" by (auto simp: api_ok_def editable_def intro: update_profile_row_keeps)
    moreover from d u have "proxy_ok d'"
      by (auto simp: api_ok_def update_profile_row_def proxy_ok_def split: if_splits)
    ultimately show "api_ok d'" by (simp add: api_ok_def)
  qed simp
  have secrets: "triple api_ok (change_secrets cy p creds) (\<lambda>_. api_ok) (\<lambda>_. True)"
    by (intro triple_keeps api_okI inv_intros)
  have rest: "triple (\<lambda>d. api_ok d \<and> editable p d \<and> (mode = ''free'' \<longrightarrow> 0 < n))
      (if mode = ''free'' \<and> 0 < n then raise FreeProfileConflict
       else andthen (mapping_err uow_sql (stmt (update_profile_row p name mode org))) (\<lambda>_. change_secrets cy p creds))
      (\<lambda>_. api_ok) (\<lambda>_. True)" for n
  proof (cases "mode = ''free'' \<and> 0 < n")
    case False
    have "triple (\<lambda>d. api_ok d \<and> editable p d \<and> (mode = ''free'' \<longrightarrow> 0 < n))
      (andthen (mapping_err uow_sql (stmt (update_profile_row p name mode org))) (\<lambda>_. change_secrets cy p creds))
      (\<lambda>_. api_ok) (\<lambda>_. True)"
      by (rule triple_andthen [OF triple_conseq [OF upd] secrets]) (use False in auto)
    with False show ?thesis by (simp only: if_False simp_thms)
  qed (auto simp: triple_def)
  show ?thesis
    unfolding update_profile_with_credentials_def
    by (rule triple_tx [OF triple_andthen [OF guard rest]]) simp
qed

lemma profile_get_editable:
  "triple api_ok (mapping_err g (profile_get p)) (\<lambda>pf d. api_ok d \<and> (pf_mode pf \<noteq> AmFree \<longrightarrow> p \<noteq> default_profile_id)) api_ok"
proof (rule tripleI)
  fix s x s'
  assume ok: "api_ok (st_db s)" and g: "mapping_err g (profile_get p) s = (Inr x, s')"
  from profile_get_Inr [of p s x s'] g obtain row where "find_profile (st_db s) p = Some row"
    and x: "x = map_profile_row row" and "st_db s' = st_db s" by (auto simp: mapping_err_eq_Inr)
  with ok editable_after_get [of "st_db s" p row]
  show "api_ok (st_db s') \<and> (pf_mode x \<noteq> AmFree \<longrightarrow> p \<noteq> default_profile_id)"
    by (simp add: api_ok_def map_profile_row_def)
next
  fix s e s'
  assume "api_ok (st_db s)" and "mapping_err g (profile_get p) s = (Inl e, s')"
  then show "api_ok (st_db s')" using keepsD [OF keeps_mapping_err [OF profile_reads_keep(1)], of api_ok s g p] by simp
qed

lemma update_target_editable:
  "triple (\<lambda>d. api_ok d \<and> editable p d) (update_target p q before) (\<lambda>_ d. api_ok d \<and> editable p d) api_ok"
proof -
  have "keeps (\<lambda>d. api_ok d \<and> editable p d) (update_target p q before)"
    unfolding update_target_def Let_def by (auto intro!: inv_intros)
  then show ?thesis unfolding keeps_def by (rule triple_conseq) auto
qed

lemma count_bound_editable:
  "triple (\<lambda>d. api_ok d \<and> p \<noteq> default_profile_id)
     (andthen (mapping_err api_repo_error (repo_count_bound p))
        (\<lambda>bound. if 0 < bound then raise (f bound) else update_target p q before))
     (\<lambda>_ d. api_ok d \<and> editable p d) api_ok"
proof (rule triple_andthen [where R = "\<lambda>n d. api_ok d \<and> p \<noteq> default_profile_id \<and> n = bound_count (\<lambda>_. True) p d"])
  show "triple (\<lambda>d. api_ok d \<and> p \<noteq> default_profile_id) (mapping_err api_repo_error (repo_count_bound p))
      (\<lambda>n d. api_ok d \<and> p \<noteq> default_profile_id \<and> n = bound_count (\<lambda>_. True) p d) api_ok"
    unfolding repo_count_bound_def by (intro inv_intros) auto
  fix n
  show "triple (\<lambda>d. api_ok d \<and> p \<noteq> default_profile_id \<and> n = bound_count (\<lambda>_. True) p d)
      (if 0 < n then raise (f n) else update_target p q before) (\<lambda>_ d. api_ok d \<and> editable p d) api_ok"
  proof (cases "0 < n")
    case False
    then show ?thesis
      using triple_conseq [OF update_target_editable [of p q before],
          of "\<lambda>d. api_ok d \<and> p \<noteq> default_profile_id \<and> n = bound_count (\<lambda>_. True) p d"
          "\<lambda>_ d. api_ok d \<and> editable p d" api_ok]
      by (simp add: editable_def)
  qed (auto simp: triple_def)
qed

lemma free_guard_editable:
  "triple (\<lambda>d. api_ok d \<and> (pf_mode before \<noteq> AmFree \<longrightarrow> p \<noteq> default_profile_id))
     (if pf_mode before = AmFree then raise e
      else andthen (mapping_err api_repo_error (repo_count_bound p))
        (\<lambda>bound. if 0 < bound then raise (f bound) else update_target p q before))
     (\<lambda>_ d. api_ok d \<and> editable p d) api_ok"
proof (cases "pf_mode before = AmFree")
  case False
  then show ?thesis using count_bound_editable [of p f q before] by (simp only: if_False simp_thms)
qed (auto simp: triple_def)

lemma accounts_update_check_ok:
  "triple api_ok (accounts_update_check p body) (\<lambda>_ d. api_ok d \<and> editable p d) api_ok"
  unfolding accounts_update_check_def
  by (rule triple_andthen [OF read_handlers_keep(1) [unfolded keeps_def]
        triple_andthen [OF profile_get_editable free_guard_editable]])

lemma accounts_update_write_keeps:
  "triple (\<lambda>d. api_ok d \<and> editable p d) (accounts_update_write cy p w) (\<lambda>_. api_ok) api_ok"
proof -
  obtain q name mode org where w: "w = (q, name, mode, org)" by (cases w)
  have "mode_str mode \<in> {''free'', ''warp_plus'', ''zero_trust''}" by (cases mode) auto
  then have u: "triple (\<lambda>d. api_ok d \<and> editable p d) (mapping_err api_consistency_error
      (update_profile_with_credentials cy p name (mode_str mode) org (request_creds q))) (\<lambda>_. api_ok) api_ok"
    by (intro triple_mapping_err update_profile_keeps)
  have "keeps api_ok (andthen notify_change
      (\<lambda>_. andthen (mapping_err api_profile_error (profile_get p)) build_view))"
    by (intro inv_intros)
  then show ?thesis
    unfolding accounts_update_write_def w prod.case keeps_def by (intro triple_andthen [OF u])
qed

lemma accounts_update_keeps: "keeps api_ok (accounts_update cy p body)"
  unfolding accounts_update_def keeps_def
  by (rule triple_andthen [OF accounts_update_check_ok accounts_update_write_keeps])

section \<open>The proxy and account handlers\<close>

definition has_password :: "database \<Rightarrow> bool" where
  "has_password d \<longleftrightarrow> list_ex (secret_at ProxyPassword None) (db_secrets d)"

lemma replace_password: "triple db_ok (replace_global er ProxyPassword c n) (\<lambda>_ d. db_ok d \<and> has_password d) (\<lambda>_. True)"
  unfolding replace_global_def
proof (rule triple_andthen [where R = "\<lambda>_. db_ok"])
  show "triple db_ok (mapping_err er (stmt (delete_secrets (secret_at ProxyPassword None)))) (\<lambda>_. db_ok) (\<lambda>_. True)"
    by (intro triple_keeps inv_intros)
  show "triple db_ok (mapping_err er (stmt (insert_secret
      \<lparr>sr_kind = kind_str ProxyPassword, sr_profile = None, sr_cipher = c, sr_nonce = n, sr_version = 1\<rparr>)))
      (\<lambda>_ d. db_ok d \<and> has_password d) (\<lambda>_. True)"
    by (intro inv_intros) (auto simp: insert_secret_def has_password_def secret_at_def db_ok_secrets split: if_splits)
qed

lemma write_password_present:
  "triple (\<lambda>d. db_ok d \<and> (pw = None \<and> need \<longrightarrow> has_password d) \<and> (pw = Some [] \<longrightarrow> \<not> need)) (write_password cy pw)
     (\<lambda>_ d. db_ok d \<and> (need \<longrightarrow> has_password d)) (\<lambda>_. True)"
proof (cases pw)
  case None
  then show ?thesis by (auto simp: write_password_def triple_def)
next
  case (Some v)
  show ?thesis
  proof (cases "v = []")
    case True
    have "triple db_ok (write_password cy (Some [])) (\<lambda>_. db_ok) (\<lambda>_. True)"
      by (intro triple_keeps inv_intros)
    then show ?thesis unfolding Some True by (rule triple_conseq [OF triple_conj_pure [where b = "\<not> need"]]) auto
  next
    case False
    have "triple db_ok (set_global_secret cy ProxyPassword v) (\<lambda>_ d. db_ok d \<and> has_password d) (\<lambda>_. True)"
      unfolding set_global_secret_def
      by (rule triple_andthen [where R = "\<lambda>_. db_ok"])
         (auto intro: triple_keeps inv_intros replace_password)
    with Some False show ?thesis
      by (auto simp: write_password_def elim!: triple_conseq)
  qed
qed

lemma update_proxy_keeps_ok:
  "triple (\<lambda>d. db_ok d \<and> proxy_ok d \<and> (pw = None \<and> pc_auth cfg \<longrightarrow> has_password d) \<and> (pw = Some [] \<longrightarrow> \<not> pc_auth cfg))
     (update_proxy_with_password cy cfg pw) (\<lambda>_. api_ok) api_ok"
  unfolding update_proxy_with_password_def
proof (rule triple_tx [OF triple_andthen])
  show "triple (\<lambda>d. db_ok d \<and> proxy_ok d \<and> (pw = None \<and> pc_auth cfg \<longrightarrow> has_password d) \<and> (pw = Some [] \<longrightarrow> \<not> pc_auth cfg))
      (write_password cy pw) (\<lambda>_ d. db_ok d \<and> (pc_auth cfg \<longrightarrow> has_password d)) (\<lambda>_. True)"
    by (rule triple_conseq [OF write_password_present [of pw "pc_auth cfg"]]) auto
  show "triple (\<lambda>d. db_ok d \<and> (pc_auth cfg \<longrightarrow> has_password d)) (mapping_err uow_sql (stmt (upsert_proxy cfg))) (\<lambda>_. api_ok) (\<lambda>_. True)"
    by (intro inv_intros)
       (auto simp: upsert_proxy_def api_ok_def db_ok_secrets proxy_ok_def has_password_def proxy_config_row_def split: if_splits)
qed (simp add: api_ok_def)

lemma password_known:
  "triple api_ok (case pw of None \<Rightarrow> mapping_err api_secret_error (secret_exists ProxyPassword) | Some v \<Rightarrow> ret (v \<noteq> []))
     (\<lambda>present d. api_ok d \<and> (pw = None \<longrightarrow> present = has_password d) \<and> (\<forall>v. pw = Some v \<longrightarrow> present = (v \<noteq> []))) api_ok"
proof (cases pw)
  case None
  have "triple api_ok (mapping_err api_secret_error (secret_exists ProxyPassword))
      (\<lambda>present d. api_ok d \<and> present = has_password d) api_ok"
    unfolding secret_exists_def exists_at_def
    by (intro inv_intros) (auto simp: has_password_def list_ex_iff filter_empty_conv)
  with None show ?thesis by simp
qed (auto simp: triple_def)

lemma proxy_api_update_keeps: "keeps api_ok (proxy_api_update cy st body)"
proof -
  have commit: "triple (\<lambda>d. api_ok d \<and> (xq_password q = None \<longrightarrow> present = has_password d) \<and>
        (\<forall>v. xq_password q = Some v \<longrightarrow> present = (v \<noteq> [])))
      (let updated = proxy_request_apply q cur
       in if pc_auth updated \<and> \<not> present then
               raise (Validation ''auth_enabled requires a proxy password (set `password`)'')
             else andthen (mapping_err (\<lambda>e. Internal (show_consistency_error e))
                 (update_proxy_with_password cy updated (xq_password q)))
       (\<lambda>_. andthen notify_change (\<lambda>_. ret (with_actual st (proxy_view_of updated present))))) (\<lambda>_. api_ok) api_ok" for q cur present
  proof (cases "pc_auth (proxy_request_apply q cur) \<and> \<not> present")
    case False
    have "triple (\<lambda>d. api_ok d \<and> (xq_password q = None \<longrightarrow> present = has_password d) \<and>
        (\<forall>v. xq_password q = Some v \<longrightarrow> present = (v \<noteq> [])))
      (mapping_err (\<lambda>e. Internal (show_consistency_error e))
         (update_proxy_with_password cy (proxy_request_apply q cur) (xq_password q))) (\<lambda>_. api_ok) api_ok"
      by (rule triple_mapping_err, rule triple_conseq [OF update_proxy_keeps_ok]) (use False in \<open>auto simp: api_ok_def\<close>)
    moreover have "triple api_ok (andthen notify_change (\<lambda>_. ret (with_actual st (proxy_view_of (proxy_request_apply q cur) present))))
        (\<lambda>_. api_ok) api_ok"
      unfolding keeps_def [symmetric] by (intro inv_intros)
    ultimately show ?thesis
      using False by (simp only: Let_def if_False) (rule triple_andthen)
  qed (auto simp: triple_def Let_def)
  show ?thesis
    unfolding proxy_api_update_def
    by (intro keeps_andthen inv_intros keepsI triple_andthen [OF password_known commit])
qed

lemma account_set_mode_keeps [inv_intros]: "keeps api_ok (account_set_mode mode org)"
  unfolding account_set_mode_def
  by (intro inv_intros)
     (auto simp: api_ok_def db_ok_def desired_ok_def db_wf_def warp_plus_single_def bound_count_def profiles_ok_def
      proxy_ok_def profile_exists_def list_all_iff split: option.splits)

lemma account_get_keeps [inv_intros]: "keeps I account_get"
  unfolding account_get_def by (intro inv_intros)

lemma apply_secret_keeps [inv_intros]: "k \<noteq> ProxyPassword \<Longrightarrow> keeps api_ok (apply_secret cy k v)"
  by (cases v) (auto simp: apply_secret_def intro!: inv_intros)

lemma account_api_update_keeps: "keeps api_ok (account_api_update cy body)"
  unfolding account_api_update_def Let_def by (intro inv_intros) simp_all

section \<open>Credentials of a new profile\<close>

fun with_new_secrets :: "int \<Rightarrow> (secret_kind \<times> string option) list \<Rightarrow> secret_map \<Rightarrow> secret_map" where
  "with_new_secrets p [] m = m"
| "with_new_secrets p ((k, v) # cs) m =
     with_new_secrets p cs (case v of Some x \<Rightarrow> if x \<noteq> [] then m((k, Some p) \<mapsto> Inr x) else m | None \<Rightarrow> m)"

lemma upsert_profiles: "upsert_secret k p c n d = Inr (x, d') \<Longrightarrow> db_profiles d' = db_profiles d"
  by (auto simp: upsert_secret_def insert_secret_def split: if_splits)

lemma set_profile_secret_profiles:
  assumes "set_profile_secret cy k p v s = (Inr (), s')"
  shows "db_profiles (st_db s') = db_profiles (st_db s)"
proof -
  from assms obtain c n s1 where "encrypt cy v s = (Inr (c, n), s1)" and "stmt (upsert_secret k p c n) s1 = (Inr (), s')"
    by (auto simp: set_profile_secret_def andthen_eq_Inr mapping_err_eq_Inr)
  then show ?thesis by (auto dest!: stmt_Inr encrypt_db upsert_profiles)
qed

lemma set_new_secrets_map:
  assumes "set_new_secrets cy p cs s = (Inr (), s')" and "crypto_ok cy"
    and "\<And>k v. (k, Some v) \<in> set cs \<Longrightarrow> valid_utf8 v"
  shows "secrets_of cy (st_db s') = with_new_secrets p cs (secrets_of cy (st_db s)) \<and>
         db_profiles (st_db s') = db_profiles (st_db s)"
  using assms(1,3)
proof (induction cs arbitrary: s)
  case (Cons c cs)
  obtain k v where c: "c = (k, v)" by (cases c)
  from Cons.prems(1) obtain s1 where
    h: "(case v of Some x \<Rightarrow> if x \<noteq> [] then set_profile_secret cy k p x else ret () | None \<Rightarrow> ret ()) s = (Inr (), s1)"
    and t: "set_new_secrets cy p cs s1 = (Inr (), s')"
    by (auto simp: c andthen_eq_Inr)
  have "secrets_of cy (st_db s1) = with_new_secrets p [c] (secrets_of cy (st_db s)) \<and>
      db_profiles (st_db s1) = db_profiles (st_db s)"
  proof (cases "\<exists>x. v = Some x \<and> x \<noteq> []")
    case True
    then obtain x where x: "v = Some x" "x \<noteq> []" by blast
    with h have "set_profile_secret cy k p x s = (Inr (), s1)" by simp
    with x Cons.prems(2) [of k x] c assms(2) show ?thesis
      by (auto simp: set_profile_secret_profiles set_profile_secret_def intro: set_profile_secret_map)
  next
    case False
    with h show ?thesis by (auto simp: c split: option.splits if_splits)
  qed
  with Cons.IH [OF t] Cons.prems(2) show ?case by (auto simp: c)
qed simp

lemma find_profile_inserted:
  assumes "insert_profile name mode org d = Inr (i, d')"
  shows "find_profile d' i = Some \<lparr>ap_id = i, ap_name = name, ap_mode = mode, ap_org = org\<rparr>"
proof -
  from assms have i: "i = next_rowid (List.map ap_id (db_profiles d))"
    and d': "db_profiles d' = db_profiles d @ [\<lparr>ap_id = i, ap_name = name, ap_mode = mode, ap_org = org\<rparr>]"
    by (auto simp: insert_profile_def Let_def split: if_splits)
  have "find (\<lambda>r. ap_id r = i) (db_profiles d) = None"
    using next_rowid_fresh [of _ "List.map ap_id (db_profiles d)"] i by (fastforce simp: find_None_iff)
  then show ?thesis by (simp add: find_profile_def d' find_append)
qed

lemma insert_profile_secrets: "insert_profile name mode org d = Inr (i, d') \<Longrightarrow> db_secrets d' = db_secrets d"
  by (auto simp: insert_profile_def Let_def split: if_splits)

lemma create_profile_effect:
  assumes "create_profile_with_credentials cy name mode org creds s = (Inr i, s')" and "crypto_ok cy"
    and "\<And>k v. (k, Some v) \<in> set creds \<Longrightarrow> valid_utf8 v"
  shows "find_profile (st_db s') i = Some \<lparr>ap_id = i, ap_name = name, ap_mode = mode, ap_org = org\<rparr> \<and>
         secrets_of cy (st_db s') = with_new_secrets i creds (secrets_of cy (st_db s))"
proof -
  from assms(1) obtain s1 s2 where db: "st_db s1 = st_db s" "st_db s' = st_db s2" and
    b: "andthen (if mode = ''free''
           then mapping_err uow_sql (select_stmt (\<lambda>d. length (filter (\<lambda>r. ap_mode r = ''free'') (db_profiles d))))
           else ret 0)
       (\<lambda>n. if mode = ''free'' \<and> 0 < n then raise FreeProfileConflict
        else andthen (mapping_err uow_sql (stmt (insert_profile name mode org)))
       (\<lambda>i. andthen (set_new_secrets cy i creds) (\<lambda>_. ret i))) s1 = (Inr i, s2)"
    unfolding create_profile_with_credentials_def by (elim tx_Inr) blast
  from b obtain n s3 where g: "(if mode = ''free''
           then mapping_err uow_sql (select_stmt (\<lambda>d. length (filter (\<lambda>r. ap_mode r = ''free'') (db_profiles d))))
           else ret 0) s1 = (Inr n, s3)"
    and "\<not> (mode = ''free'' \<and> 0 < n)"
    and "andthen (mapping_err uow_sql (stmt (insert_profile name mode org)))
       (\<lambda>i. andthen (set_new_secrets cy i creds) (\<lambda>_. ret i)) s3 = (Inr i, s2)"
    unfolding andthen_eq_Inr [of _ _ s1] by (auto split: if_splits)
  then obtain j s4 where ins: "stmt (insert_profile name mode org) s3 = (Inr j, s4)"
    and sec: "set_new_secrets cy j creds s4 = (Inr (), s2)" and "i = j"
    by (auto simp: andthen_eq_Inr mapping_err_eq_Inr)
  have "st_db s3 = st_db s1" using g by (auto simp: mapping_err_eq_Inr split: if_splits dest: select_db)
  with ins have i: "insert_profile name mode org (st_db s) = Inr (i, st_db s4)"
    using db \<open>i = j\<close> by (auto dest!: stmt_Inr)
  from insert_profile_secrets [OF this] have "secrets_of cy (st_db s4) = secrets_of cy (st_db s)"
    by (simp add: secrets_of_def)
  with set_new_secrets_map [OF sec assms(2,3)] find_profile_inserted [OF i] db \<open>i = j\<close> show ?thesis
    by (auto simp: find_profile_def)
qed

lemma plaintext_ok:
  assumes "st_faults s = []" and "secrets_of cy (st_db s) (k, p) = Some (Inr v)"
  shows "plaintext_at cy k p s = (Inr (Some v), s)"
  using assms by (auto simp: plaintext_at_def andthen_def mapping_err_def secrets_of_def)

lemma secret_for_ok:
  assumes "st_faults s = []" and "secrets_of cy (st_db s) (k, Some (pf_id pf)) = Some (Inr v)"
  shows "secret_for cy k pf s = (Inr (Some v), s)"
  using plaintext_ok [OF assms]
  by (simp add: secret_for_def secret_get_plaintext_for_profile_def andthen_def mapping_err_def)

lemma mode_of_str [simp]: "mode_of_column (mode_str m) = m"
  by (cases m) (simp_all add: mode_of_column_def mode_parse_def)

lemma resolve_ok:
  assumes "st_faults s = []" and row: "find_profile (st_db s) i = Some \<lparr>ap_id = i, ap_name = name, ap_mode = mode_str mode, ap_org = org\<rparr>"
    and "validate_credentials mode q org = Inr ()"
    and "secrets_of cy (st_db s) = with_new_secrets i (request_creds q) m"
  shows "\<exists>c. resolve_credentials cy (Some i) s = (Inr c, s) \<and> entitled cy (st_db s)
           \<lparr>ap_id = i, ap_name = name, ap_mode = mode_str mode, ap_org = org\<rparr> c"
proof -
  let ?pf = "\<lparr>pf_id = i, pf_name = name, pf_mode = mode, pf_org = org\<rparr>"
  have get: "profile_get i s = (Inr ?pf, s)"
    using assms(1) row by (simp add: profile_get_def andthen_def mapping_err_def map_profile_row_def)
  have ok: "secret_for cy k ?pf s = (Inr (Some v), s)" if "secrets_of cy (st_db s) (k, Some i) = Some (Inr v)" for k v
    using secret_for_ok [OF assms(1), of cy k ?pf v] that by simp
  note res = resolve_credentials_def andthen_def mapping_err_def get
  note ent = entitled_def usable_secret_def mode_of_column_def mode_parse_def
  show ?thesis
  proof (cases mode)
    case AmFree
    with get show ?thesis by (simp add: res ent)
  next
    case AmWarpPlus
    with assms(3) obtain l where l: "pq_license q = Some l" "l \<noteq> []"
      by (auto simp: validate_credentials_def secret_would_present_def split: option.splits if_splits)
    with assms(4) have "secrets_of cy (st_db s) (WarpPlusLicense, Some i) = Some (Inr l)"
      by (auto simp: request_creds_def split: option.splits)
    from ok [OF this] this AmWarpPlus get show ?thesis by (simp add: res ent)
  next
    case AmZeroTrust
    with assms(3) obtain a b og where z: "pq_client_id q = Some a" "a \<noteq> []" "pq_client_secret q = Some b" "b \<noteq> []" "org = Some og"
      by (auto simp: validate_credentials_def secret_would_present_def split: option.splits if_splits)
    with assms(4) have "secrets_of cy (st_db s) (ZeroTrustClientId, Some i) = Some (Inr a)"
      "secrets_of cy (st_db s) (ZeroTrustClientSecret, Some i) = Some (Inr b)"
      by (auto simp: request_creds_def split: option.splits)
    from ok [OF this(1)] ok [OF this(2)] this AmZeroTrust z get show ?thesis by (simp add: res ent)
  qed
qed

lemma build_view_db: "build_view pf s = (Inr v, s') \<Longrightarrow> st_db s' = st_db s \<and> pv_id v = pf_id pf"
proof -
  assume b: "build_view pf s = (Inr v, s')"
  have "keeps (\<lambda>d. d = st_db s) (build_view pf)" by (rule read_handlers_keep)
  from keepsD [OF this, of s] b have "st_db s' = st_db s" by simp
  moreover from b have "pv_id v = pf_id pf" by (auto simp: build_view_def andthen_eq_Inr)
  ultimately show ?thesis by simp
qed

section \<open>Properties\<close>

datatype api_call =
    CallCreate registry "create_request option"
  | CallRebind registry int "int option option option"
  | CallStart int
  | CallStop int
  | CallRestart registry int
  | CallDelete int
  | CallNewProfile "profile_request option"
  | CallEditProfile int "profile_request option"
  | CallDropProfile int
  | CallAccount "account_request option"
  | CallProxy "proxy_status option" "proxy_request option"

fun api_exec :: "crypto \<Rightarrow> api_call \<Rightarrow> store \<Rightarrow> store" where
  "api_exec cy (CallCreate reg q) s = snd (instances_create reg q s)"
| "api_exec cy (CallRebind reg i b) s = snd (instances_update reg i b s)"
| "api_exec cy (CallStart i) s = snd (instances_start i s)"
| "api_exec cy (CallStop i) s = snd (instances_stop i s)"
| "api_exec cy (CallRestart reg i) s = snd (instances_restart reg i s)"
| "api_exec cy (CallDelete i) s = snd (instances_delete i s)"
| "api_exec cy (CallNewProfile q) s = snd (accounts_create cy q s)"
| "api_exec cy (CallEditProfile p q) s = snd (accounts_update cy p q s)"
| "api_exec cy (CallDropProfile p) s = snd (accounts_delete p s)"
| "api_exec cy (CallAccount q) s = snd (account_api_update cy q s)"
| "api_exec cy (CallProxy st q) s = snd (proxy_api_update cy st q s)"

lemma api_exec_keeps: "api_ok (st_db s) \<Longrightarrow> api_ok (st_db (api_exec cy c s))"
  by (cases c) (auto intro: keepsD instances_handlers_keep accounts_create_keeps accounts_update_keeps
      accounts_delete_keeps account_api_update_keeps proxy_api_update_keeps)

text \<open>C12: Whatever requests arrive one after another, and whichever statements fail along the way,
  the desired state stays consistent: instance ids are distinct, every binding refers to a profile
  that exists, a WARP+ profile is bound to at most one instance, profile names are unique, the
  built-in profile is there and is the only free one, and a proxy configuration that asks for
  authentication has a stored password.\<close>

theorem api_requests_keep_invariants:
  assumes "api_ok (st_db s)"
  shows "api_ok (st_db (fold (api_exec cy) calls s))"
  using assms by (induction calls arbitrary: s) (auto intro: api_exec_keeps)

theorem api_requests_keep_invariants_witness:
  "api_ok (st_db (fold (api_exec demo_crypto) [CallNewProfile None, CallDropProfile 1] (demo_store db_migrated)))"
proof (rule api_requests_keep_invariants)
  show "api_ok (st_db (demo_store db_migrated))"
    using db_migrated_ok by (simp add: api_ok_def demo_store_def proxy_ok_def db_migrated_def)
qed

text \<open>A profile the API accepts can be used. When creating a profile succeeds, resolving it
  right afterwards succeeds, with the mode, the organisation and the secrets of the request: what
  the validation asks for is what the credential resolver needs.\<close>

theorem created_profile_resolves:
  assumes "crypto_ok cy" and "\<And>k v. (k, Some v) \<in> set (request_creds q) \<Longrightarrow> valid_utf8 v"
    and "accounts_create cy (Some q) s = (Inr v, s')" and "st_faults s' = []"
  shows "\<exists>c row. resolve_credentials cy (Some (pv_id v)) s' = (Inr c, s') \<and>
           find_profile (st_db s') (pv_id v) = Some row \<and> pq_mode q = Some (ap_mode row) \<and>
           entitled cy (st_db s') row c"
proof -
  from assms(3) obtain name mode i s1 s2 pf where
    v: "validate_credentials mode q (clean_org (pq_org q)) = Inr ()" and
    m: "bind_res (ok_or (Validation ''mode is required'') (pq_mode q)) (\<lambda>m. map_err Validation (mode_parse m)) = Inr mode" and
    c: "create_profile_with_credentials cy name (mode_str mode) (clean_org (pq_org q)) (request_creds q) s = (Inr i, s1)" and
    g: "profile_get i s1 = (Inr pf, s2)" and b: "build_view pf s2 = (Inr v, s')"
    by (auto simp: accounts_create_def json_body_def andthen_eq_Inr mapping_err_eq_Inr)
  note e = create_profile_effect [OF c assms(1,2)]
  from profile_get_Inr [OF g] e have db2: "st_db s2 = st_db s1" and "pf_id pf = i"
    by (auto simp: map_profile_row_def)
  with build_view_db [OF b] have db: "st_db s' = st_db s1" and i: "pv_id v = i" by simp_all
  from m have "pq_mode q = Some (mode_str mode)"
    by (auto simp: bind_res_eq_Inr ok_or_def mode_parse_def split: option.splits if_splits)
  with resolve_ok [OF assms(4) _ v] e show ?thesis unfolding db i by fastforce
qed

definition demo_new :: profile_request where
  "demo_new = \<lparr>pq_name = Some ''plus'', pq_mode = Some ''warp_plus'', pq_org = None, pq_license = Some ''K'',
     pq_client_id = None, pq_client_secret = None\<rparr>"

theorem created_profile_resolves_witness:
  "\<exists>v s' c. accounts_create demo_crypto (Some demo_new) (demo_store db_migrated) = (Inr v, s') \<and>
     resolve_credentials demo_crypto (Some (pv_id v)) s' = (Inr c, s')"
proof -
  have "case accounts_create demo_crypto (Some demo_new) (demo_store db_migrated) of
      (Inr v, s') \<Rightarrow> st_faults s' = [] | _ \<Rightarrow> False"
    by code_simp
  then obtain v s' where a: "accounts_create demo_crypto (Some demo_new) (demo_store db_migrated) = (Inr v, s')"
    and f: "st_faults s' = []"
    by (auto split: prod.splits sum.splits)
  have "\<exists>c row. resolve_credentials demo_crypto (Some (pv_id v)) s' = (Inr c, s') \<and>
      find_profile (st_db s') (pv_id v) = Some row \<and> pq_mode demo_new = Some (ap_mode row) \<and>
      entitled demo_crypto (st_db s') row c"
    by (rule created_profile_resolves [OF demo_crypto_ok _ a f])
      (auto simp: request_creds_def demo_new_def ascii_valid is_ascii_def)
  with a show ?thesis by blast
qed

text \<open>The two halves of changing a profile are not one transaction. A Zero Trust profile that
  nobody uses passes the checks for becoming a WARP+ profile, two instances are bound to it before
  the change is written, and then the WARP+ profile has two instances.\<close>

definition demo_zt :: database where
  "demo_zt = db_migrated\<lparr>db_profiles := db_profiles db_migrated @
     [\<lparr>ap_id = 2, ap_name = ''team'', ap_mode = ''zero_trust'', ap_org = Some ''org''\<rparr>]\<rparr>"

lemma demo_zt_ok: "api_ok demo_zt"
  by (simp add: api_ok_def db_ok_def desired_ok_def db_wf_def warp_plus_single_def profiles_ok_def proxy_ok_def
      demo_zt_def db_migrated_def default_profile_id_def)

lemma case_stepD:
  "(case r of (Inr v, s) \<Rightarrow> P v s | _ \<Rightarrow> False) \<Longrightarrow> \<exists>v s. r = (Inr v, s) \<and> P v s"
  by (auto split: prod.splits sum.splits)

text \<open>One WARP+ license can end up on several instances: the handler that changes a profile
  checks that no instance uses it and writes the change in a later transaction, which does not look
  again. Bindings made in between, each of them legal, are not noticed.\<close>

theorem profile_edit_race:
  "\<exists>s w s1 v1 s2 v2 s3 v s4.
     api_ok (st_db s) \<and>
     accounts_update_check 2 (Some demo_new) s = (Inr w, s1) \<and>
     instances_create [] (Some \<lparr>cq_name = ''a'', cq_profile = Some 2\<rparr>) s1 = (Inr v1, s2) \<and>
     instances_create [] (Some \<lparr>cq_name = ''b'', cq_profile = Some 2\<rparr>) s2 = (Inr v2, s3) \<and>
     accounts_update_write demo_crypto 2 w s3 = (Inr v, s4) \<and>
     \<not> warp_plus_single (st_db s4)"
proof -
  have "case accounts_update_check 2 (Some demo_new) (demo_store demo_zt) of
      (Inr w, s1) \<Rightarrow>
        (case instances_create [] (Some \<lparr>cq_name = ''a'', cq_profile = Some 2\<rparr>) s1 of
           (Inr v1, s2) \<Rightarrow>
             (case instances_create [] (Some \<lparr>cq_name = ''b'', cq_profile = Some 2\<rparr>) s2 of
                (Inr v2, s3) \<Rightarrow>
                  (case accounts_update_write demo_crypto 2 w s3 of
                     (Inr v, s4) \<Rightarrow> \<not> warp_plus_single (st_db s4)
                   | _ \<Rightarrow> False)
              | _ \<Rightarrow> False)
         | _ \<Rightarrow> False)
    | _ \<Rightarrow> False"
    by code_simp
  then obtain w s1 v1 s2 v2 s3 v s4 where
    "accounts_update_check 2 (Some demo_new) (demo_store demo_zt) = (Inr w, s1)"
    "instances_create [] (Some \<lparr>cq_name = ''a'', cq_profile = Some 2\<rparr>) s1 = (Inr v1, s2)"
    "instances_create [] (Some \<lparr>cq_name = ''b'', cq_profile = Some 2\<rparr>) s2 = (Inr v2, s3)"
    "accounts_update_write demo_crypto 2 w s3 = (Inr v, s4)" "\<not> warp_plus_single (st_db s4)"
    by (elim case_stepD [THEN exE] exE conjE) (blast dest: case_stepD)
  moreover have "api_ok (st_db (demo_store demo_zt))" using demo_zt_ok by (simp add: demo_store_def)
  ultimately show ?thesis by blast
qed

end
