(* ===== verification/Auth.thy ===== *)
theory Auth
  imports Api
begin

text \<open>
  Who may use the API: the login limiter of \<open>src/auth/rate_limit.rs\<close>, users and sessions of
  \<open>src/auth/repos.rs\<close> and \<open>src/auth/session.rs\<close>, the guard of
  \<open>src/api/middleware.rs\<close>, and the handlers of \<open>src/api/auth.rs\<close> and
  \<open>src/api/setup.rs\<close>, put together the way the router of \<open>src/api/mod.rs\<close> does.

  Password hashing (Argon2), random identifiers and the text form of times belong to other
  crates: they are the fields of \<open>auth_env\<close>. The handlers take the time of the request. A header
  name is in lower case, as the HTTP library gives it.
\<close>

section \<open>Login limiter\<close>

record failure_state =
  fs_count :: nat
  fs_start :: millis

record limiter =
  lm_table :: "ip_addr \<rightharpoonup> failure_state"
  lm_max :: nat
  lm_window :: millis

datatype rate_decision = Allow | Blocked

definition default_max_failures :: nat where "default_max_failures = 5"
definition default_window :: millis where "default_window = 15 * 60 * 1000"

definition limiter_new :: "nat \<Rightarrow> millis \<Rightarrow> limiter" where
  "limiter_new limit window = \<lparr>lm_table = Map.empty, lm_max = limit, lm_window = window\<rparr>"

text \<open>\<open>elapsed() >= window\<close> at time \<open>now\<close>.\<close>

definition window_over :: "limiter \<Rightarrow> millis \<Rightarrow> failure_state \<Rightarrow> bool" where
  "window_over l now f \<longleftrightarrow> lm_window l \<le> now - fs_start f"

definition limiter_snapshot :: "millis \<Rightarrow> ip_addr \<Rightarrow> limiter \<Rightarrow> failure_state option \<times> limiter" where
  "limiter_snapshot now ip l =
     (let t = (\<lambda>k. case lm_table l k of None \<Rightarrow> None | Some f \<Rightarrow> if window_over l now f then None else Some f)
      in (t ip, l\<lparr>lm_table := t\<rparr>))"

definition limiter_check :: "millis \<Rightarrow> ip_addr \<Rightarrow> limiter \<Rightarrow> rate_decision \<times> limiter" where
  "limiter_check now ip l =
     (case limiter_snapshot now ip l of (f, l1) \<Rightarrow>
        (case f of Some st \<Rightarrow> if lm_max l1 \<le> fs_count st then Blocked else Allow | None \<Rightarrow> Allow, l1))"

definition limiter_failure :: "millis \<Rightarrow> ip_addr \<Rightarrow> limiter \<Rightarrow> rate_decision \<times> limiter" where
  "limiter_failure now ip l =
     (let f0 = (case lm_table l ip of None \<Rightarrow> \<lparr>fs_count = 0, fs_start = now\<rparr> | Some f \<Rightarrow> f);
          f1 = (if window_over l now f0 then \<lparr>fs_count = 0, fs_start = now\<rparr> else f0);
          f2 = f1\<lparr>fs_count := fs_count f1 + 1\<rparr>
      in (if lm_max l \<le> fs_count f2 then Blocked else Allow, l\<lparr>lm_table := (lm_table l)(ip \<mapsto> f2)\<rparr>))"

definition limiter_success :: "ip_addr \<Rightarrow> limiter \<Rightarrow> limiter" where
  "limiter_success ip l = l\<lparr>lm_table := (lm_table l)(ip := None)\<rparr>"

section \<open>Other crates\<close>

record auth_env =
  av_hash :: "nat \<Rightarrow> string \<Rightarrow> string option"
  av_verify :: "string \<Rightarrow> string \<Rightarrow> bool"
  av_uuid :: "nat \<Rightarrow> string"
  av_parse :: "string \<Rightarrow> int option"
  av_format :: "int \<Rightarrow> string option"

text \<open>Drawing randomness: the number of the draw.\<close>

definition draw :: "('e, nat) op" where
  "draw s = (Inr (st_draws s), s\<lparr>st_draws := Suc (st_draws s)\<rparr>)"

section \<open>Users\<close>

datatype user_repo_error = UserDb string

definition user_sql :: "sql_error \<Rightarrow> user_repo_error" where
  "user_sql e = UserDb (show_sql e)"

fun show_user_error :: "user_repo_error \<Rightarrow> string" where
  "show_user_error (UserDb e) = ''user db error: '' @ e"

definition user_count :: "(user_repo_error, nat) op" where
  "user_count = mapping_err user_sql (select_stmt (\<lambda>d. length (db_users d)))"

definition insert_user :: "string \<Rightarrow> string \<Rightarrow> database \<Rightarrow> sql_error + int \<times> database" where
  "insert_user name h d =
     (let i = next_rowid (List.map us_id (db_users d))
      in if name \<in> us_name ` set (db_users d) then Inl (unique_error ''users.username'')
         else Inr (i, d\<lparr>db_users := db_users d @ [\<lparr>us_id = i, us_name = name, us_hash = h\<rparr>]\<rparr>))"

definition user_get :: "int \<Rightarrow> (user_repo_error, user_row option) op" where
  "user_get i = mapping_err user_sql (select_stmt (\<lambda>d. find (\<lambda>u. us_id u = i) (db_users d)))"

definition user_find_by_username :: "string \<Rightarrow> (user_repo_error, user_row option) op" where
  "user_find_by_username name = mapping_err user_sql (select_stmt (\<lambda>d. find (\<lambda>u. us_name u = name) (db_users d)))"

definition user_create :: "string \<Rightarrow> string \<Rightarrow> (user_repo_error, user_row) op" where
  "user_create name h =
     andthen (mapping_err user_sql (stmt (insert_user name h)))
       (\<lambda>i. andthen (user_get i) (\<lambda>u. from_result (ok_or (UserDb ''user vanished after insert'') u)))"

datatype admin_setup_result = Created int | AlreadyInitialized

text \<open>\<open>BEGIN IMMEDIATE\<close> .. \<open>COMMIT\<close> on one connection. An error in between returns without a
  rollback; for the tables that other connections see, nothing has happened then.\<close>

definition create_admin_if_empty :: "string \<Rightarrow> string \<Rightarrow> (user_repo_error, admin_setup_result) op" where
  "create_admin_if_empty name h =
     tx user_sql
       (andthen user_count
         (\<lambda>n. if 0 < n then ret AlreadyInitialized
              else andthen (mapping_err user_sql (stmt (insert_user name h))) (\<lambda>i. ret (Created i))))"

section \<open>Sessions\<close>

datatype session_error = SessionDb string

definition session_sql :: "sql_error \<Rightarrow> session_error" where
  "session_sql e = SessionDb (show_sql e)"

text \<open>30 days, in nanoseconds.\<close>

definition session_ttl :: int where "session_ttl = 30 * 24 * 60 * 60 * 10 ^ 9"

definition expires_at_rfc3339 :: "auth_env \<Rightarrow> int \<Rightarrow> string" where
  "expires_at_rfc3339 env now = (case av_format env (now + session_ttl) of None \<Rightarrow> [] | Some x \<Rightarrow> x)"

definition is_expired :: "auth_env \<Rightarrow> int \<Rightarrow> string \<Rightarrow> bool" where
  "is_expired env now expires = (case av_parse env expires of None \<Rightarrow> True | Some t \<Rightarrow> t \<le> now)"

definition insert_session :: "session_row \<Rightarrow> database \<Rightarrow> sql_error + unit \<times> database" where
  "insert_session r d =
     (if se_id r \<in> se_id ` set (db_sessions d) then Inl (unique_error ''sessions.id'')
      else if se_user r \<notin> us_id ` set (db_users d) then Inl fk_error
      else Inr ((), d\<lparr>db_sessions := db_sessions d @ [r]\<rparr>))"

definition session_create :: "auth_env \<Rightarrow> int \<Rightarrow> int \<Rightarrow> (session_error, session_row) op" where
  "session_create env now uid =
     andthen draw
       (\<lambda>a. andthen draw
       (\<lambda>b. (let r = \<lparr>se_id = av_uuid env a, se_user = uid, se_csrf = av_uuid env b,
                     se_expires = expires_at_rfc3339 env now\<rparr>
             in andthen (mapping_err session_sql (stmt (insert_session r))) (\<lambda>_. ret r))))"

definition session_delete :: "string \<Rightarrow> (session_error, unit) op" where
  "session_delete i =
     mapping_err session_sql
       (stmt (\<lambda>d. Inr ((), d\<lparr>db_sessions := filter (\<lambda>r. se_id r \<noteq> i) (db_sessions d)\<rparr>)))"

definition session_get :: "auth_env \<Rightarrow> int \<Rightarrow> string \<Rightarrow> (session_error, session_row option) op" where
  "session_get env now i =
     andthen (mapping_err session_sql (select_stmt (\<lambda>d. find (\<lambda>r. se_id r = i) (db_sessions d))))
       (\<lambda>row. case row of
          None \<Rightarrow> ret None
        | Some r \<Rightarrow>
            if is_expired env now (se_expires r)
            then andthen (unwrap_or () (session_delete (se_id r))) (\<lambda>_. ret None)
            else ret (Some r))"

text \<open>The column that \<open>touch\<close> writes is read by nobody.\<close>

definition session_touch :: "string \<Rightarrow> (session_error, unit) op" where
  "session_touch i = mapping_err session_sql (stmt (\<lambda>d. Inr ((), d)))"

text \<open>\<open>expires_at <= ?\<close> compares texts byte by byte.\<close>

fun str_le :: "string \<Rightarrow> string \<Rightarrow> bool" where
  "str_le [] _ = True"
| "str_le (_ # _) [] = False"
| "str_le (x # xs) (y # ys) =
     (if x = y then str_le xs ys else (of_char x :: nat) < of_char y)"

definition session_delete_expired :: "auth_env \<Rightarrow> int \<Rightarrow> (session_error, unit) op" where
  "session_delete_expired env now =
     (let stamp = (case av_format env now of None \<Rightarrow> [] | Some x \<Rightarrow> x)
      in mapping_err session_sql
           (stmt (\<lambda>d. Inr ((), d\<lparr>db_sessions := filter (\<lambda>r. \<not> str_le (se_expires r) stamp) (db_sessions d)\<rparr>))))"

section \<open>The guard\<close>

definition session_cookie :: string where "session_cookie = ''warpdeck_session''"
definition csrf_header :: string where "csrf_header = ''x-csrf-token''"

record http_request =
  hr_method :: string
  hr_headers :: "(string \<times> bytes) list"

record auth_user =
  au_id :: int
  au_name :: string

fun cookie_part :: "string list \<Rightarrow> string option" where
  "cookie_part [] = None"
| "cookie_part (p # ps) =
     (case split_once (CHR ''='') (trim_str p) of
        None \<Rightarrow> cookie_part ps
      | Some (name, v) \<Rightarrow> if name = session_cookie then Some v else cookie_part ps)"

fun session_id_from_cookie :: "(string \<times> bytes) list \<Rightarrow> string option" where
  "session_id_from_cookie [] = None"
| "session_id_from_cookie ((name, v) # hs) =
     (if name \<noteq> ''cookie'' then session_id_from_cookie hs
      else (case header_str v of
              None \<Rightarrow> session_id_from_cookie hs
            | Some text \<Rightarrow>
                (case cookie_part (split_on (CHR '';'') text) of
                   Some i \<Rightarrow> Some i
                 | None \<Rightarrow> session_id_from_cookie hs)))"

definition header_token :: "(string \<times> bytes) list \<Rightarrow> string" where
  "header_token hs = (case Option.bind (map_of hs csrf_header) header_str of None \<Rightarrow> [] | Some t \<Rightarrow> t)"

definition unauthorized :: api_error where
  "unauthorized = Unauthorized ''authentication required''"

definition auth_guard :: "auth_env \<Rightarrow> int \<Rightarrow> http_request
    \<Rightarrow> (auth_user \<Rightarrow> string \<Rightarrow> string \<Rightarrow> (api_error, 'a) op) \<Rightarrow> (api_error, 'a) op" where
  "auth_guard env now rq k s =
     (case session_id_from_cookie (hr_headers rq) of
        None \<Rightarrow> (Inl unauthorized, s)
      | Some sid \<Rightarrow>
          (case session_get env now sid s of
             (Inr (Some se), s1) \<Rightarrow>
               (case user_get (se_user se) s1 of
                  (Inr (Some u), s2) \<Rightarrow>
                    if hr_method rq \<noteq> ''GET'' \<and> header_token (hr_headers rq) \<noteq> se_csrf se
                    then (Inl (Forbidden ''invalid CSRF token''), s2)
                    else k \<lparr>au_id = us_id u, au_name = us_name u\<rparr> (se_csrf se) sid (snd (session_touch sid s2))
                | (_, s2) \<Rightarrow> (Inl unauthorized, s2))
           | (_, s1) \<Rightarrow> (Inl unauthorized, s1)))"

section \<open>Login, logout, setup\<close>

record login_request =
  lq_username :: string
  lq_password :: string

definition session_cookie_value :: "string \<Rightarrow> bool \<Rightarrow> string" where
  "session_cookie_value sid secure =
     session_cookie @ ''='' @ sid @ ''; HttpOnly; Path=/; SameSite=Lax; Max-Age='' @ show_int (session_ttl div 10 ^ 9) @
     (if secure then ''; Secure'' else [])"

definition expired_cookie_value :: string where
  "expired_cookie_value = session_cookie @ ''=; HttpOnly; Path=/; SameSite=Lax; Max-Age=0''"

record login_view =
  lv_user :: auth_user
  lv_csrf :: string
  lv_cookie :: string

text \<open>The verification with a dummy hash for an unknown user has no effect but its time.\<close>

definition login :: "auth_env \<Rightarrow> bool \<Rightarrow> int \<Rightarrow> millis \<Rightarrow> ip_addr \<Rightarrow> login_request option \<Rightarrow> limiter
    \<Rightarrow> store \<Rightarrow> (api_error + login_view) \<times> limiter \<times> store" where
  "login env secure now inst ip body l s =
     (case limiter_check inst ip l of
        (Blocked, l1) \<Rightarrow> (Inl (Forbidden ''too many login attempts, try again later''), l1, s)
      | (Allow, l1) \<Rightarrow>
          (case body of
             None \<Rightarrow> (Inl invalid_json_body, l1, s)
           | Some q \<Rightarrow>
               (case user_find_by_username (lq_username q) s of
                  (Inl e, s1) \<Rightarrow> (Inl (Internal ''internal server error''), l1, s1)
                | (Inr found, s1) \<Rightarrow>
                    (case (case found of None \<Rightarrow> None
                           | Some u \<Rightarrow> if av_verify env (us_hash u) (lq_password q) then Some u else None) of
                       None \<Rightarrow>
                         (case limiter_failure inst ip l1 of
                            (Blocked, l2) \<Rightarrow> (Inl (Forbidden ''too many login attempts, try again later''), l2, s1)
                          | (Allow, l2) \<Rightarrow> (Inl (Unauthorized ''invalid username or password''), l2, s1))
                     | Some u \<Rightarrow>
                         (let l2 = limiter_success ip l1; s2 = snd (session_delete_expired env now s1)
                          in case session_create env now (us_id u) s2 of
                               (Inl e, s3) \<Rightarrow> (Inl (Internal ''internal server error''), l2, s3)
                             | (Inr se, s3) \<Rightarrow>
                                 (Inr \<lparr>lv_user = \<lparr>au_id = us_id u, au_name = us_name u\<rparr>, lv_csrf = se_csrf se,
                                       lv_cookie = session_cookie_value (se_id se) secure\<rparr>, l2, s3))))))"

text \<open>The same handler cut where other requests can come in between: it takes the limiter's lock once
  to check, waits for the database, compares the password, and takes the limiter's lock again to record
  the outcome.\<close>

definition login_check :: "millis \<Rightarrow> ip_addr \<Rightarrow> login_request option \<Rightarrow> limiter \<Rightarrow> (api_error + login_request) \<times> limiter" where
  "login_check inst ip body l =
     (case limiter_check inst ip l of
        (Blocked, l1) \<Rightarrow> (Inl (Forbidden ''too many login attempts, try again later''), l1)
      | (Allow, l1) \<Rightarrow> (ok_or invalid_json_body body, l1))"

definition login_compare :: "auth_env \<Rightarrow> login_request \<Rightarrow> (api_error, user_row option) op" where
  "login_compare env q s =
     (case user_find_by_username (lq_username q) s of
        (Inl e, s1) \<Rightarrow> (Inl (Internal ''internal server error''), s1)
      | (Inr found, s1) \<Rightarrow>
          (Inr (case found of None \<Rightarrow> None
                | Some u \<Rightarrow> if av_verify env (us_hash u) (lq_password q) then Some u else None), s1))"

definition login_finish :: "auth_env \<Rightarrow> bool \<Rightarrow> int \<Rightarrow> millis \<Rightarrow> ip_addr \<Rightarrow> user_row option \<Rightarrow> limiter
    \<Rightarrow> store \<Rightarrow> (api_error + login_view) \<times> limiter \<times> store" where
  "login_finish env secure now inst ip user l s =
     (case user of
        None \<Rightarrow>
          (case limiter_failure inst ip l of
             (Blocked, l1) \<Rightarrow> (Inl (Forbidden ''too many login attempts, try again later''), l1, s)
           | (Allow, l1) \<Rightarrow> (Inl (Unauthorized ''invalid username or password''), l1, s))
      | Some u \<Rightarrow>
          (let l1 = limiter_success ip l; s1 = snd (session_delete_expired env now s)
           in case session_create env now (us_id u) s1 of
                (Inl e, s2) \<Rightarrow> (Inl (Internal ''internal server error''), l1, s2)
              | (Inr se, s2) \<Rightarrow>
                  (Inr \<lparr>lv_user = \<lparr>au_id = us_id u, au_name = us_name u\<rparr>, lv_csrf = se_csrf se,
                        lv_cookie = session_cookie_value (se_id se) secure\<rparr>, l1, s2)))"

text \<open>Without anything in between, the three parts are the handler.\<close>

lemma login_parts:
  "login env secure now inst ip body l s =
     (case login_check inst ip body l of
        (Inl e, l1) \<Rightarrow> (Inl e, l1, s)
      | (Inr q, l1) \<Rightarrow>
          (case login_compare env q s of
             (Inl e, s1) \<Rightarrow> (Inl e, l1, s1)
           | (Inr user, s1) \<Rightarrow> login_finish env secure now inst ip user l1 s1))"
  by (auto simp: login_def login_check_def login_compare_def login_finish_def ok_or_def Let_def
      split: prod.splits rate_decision.splits option.splits sum.splits)

definition logout :: "auth_user \<Rightarrow> string \<Rightarrow> string \<Rightarrow> (api_error, string) op" where
  "logout user csrf sid = andthen (unwrap_or () (session_delete sid)) (\<lambda>_. ret expired_cookie_value)"

definition me :: "auth_user \<Rightarrow> string \<Rightarrow> string \<Rightarrow> (api_error, auth_user \<times> string) op" where
  "me user csrf sid = ret (user, csrf)"

definition user_api_error :: "user_repo_error \<Rightarrow> api_error" where
  "user_api_error e = Internal (show_user_error e)"

definition setup_status :: "(api_error, bool) op" where
  "setup_status = andthen (mapping_err user_api_error user_count) (\<lambda>n. ret (0 < n))"

definition admin_validate :: "login_request \<Rightarrow> string + string \<times> string" where
  "admin_validate q =
     (let name = trim_str (lq_username q) in
      if name = [] \<or> 64 < char_count name then Inl ''username must be 1..=64 characters''
      else if char_count (lq_password q) < 8 then Inl ''password must be at least 8 characters''
      else if 1024 < char_count (lq_password q) then Inl ''password too long''
      else Inr (name, lq_password q))"

definition hash_password :: "auth_env \<Rightarrow> string \<Rightarrow> (api_error, string) op" where
  "hash_password env pw =
     andthen draw (\<lambda>n. from_result (ok_or (Internal ''internal server error'') (av_hash env n pw)))"

definition create_admin :: "auth_env \<Rightarrow> login_request option \<Rightarrow> (api_error, bool) op" where
  "create_admin env body =
     andthen (json_body body)
       (\<lambda>q. andthen (from_result (map_err Validation (admin_validate q)))
       (\<lambda>(name, pw). andthen (hash_password env pw)
       (\<lambda>h. andthen (mapping_err user_api_error (create_admin_if_empty name h))
       (\<lambda>r. case r of
              Created _ \<Rightarrow> ret True
            | AlreadyInitialized \<Rightarrow> raise (Conflict ''setup already completed'')))))"

section \<open>The router\<close>

text \<open>The method of the route that leads to a handler. A request with another method does not reach
  it.\<close>

fun method_of :: "api_call \<Rightarrow> string" where
  "method_of (CallCreate _ _) = ''POST''"
| "method_of (CallRebind _ _ _) = ''PATCH''"
| "method_of (CallStart _) = ''POST''"
| "method_of (CallStop _) = ''POST''"
| "method_of (CallRestart _ _) = ''POST''"
| "method_of (CallDelete _) = ''DELETE''"
| "method_of (CallNewProfile _) = ''POST''"
| "method_of (CallEditProfile _ _) = ''PATCH''"
| "method_of (CallDropProfile _) = ''DELETE''"
| "method_of (CallAccount _) = ''PUT''"
| "method_of (CallProxy _ _) = ''PUT''"

datatype request =
    Setup "login_request option"
  | SetupStatus
  | Login bool millis ip_addr "login_request option"
  | Logout http_request
  | Me http_request
  | Api http_request api_call

text \<open>One request at time \<open>now\<close>: setup and login are public, everything else is behind the guard.\<close>

fun serve :: "auth_env \<Rightarrow> crypto \<Rightarrow> int \<times> request \<Rightarrow> limiter \<times> store \<Rightarrow> limiter \<times> store" where
  "serve env cy (now, Setup q) (l, s) = (l, snd (create_admin env q s))"
| "serve env cy (now, SetupStatus) (l, s) = (l, snd (setup_status s))"
| "serve env cy (now, Login secure inst ip q) (l, s) = snd (login env secure now inst ip q l s)"
| "serve env cy (now, Logout rq) (l, s) =
     (l, if hr_method rq = ''POST'' then snd (auth_guard env now rq logout s) else s)"
| "serve env cy (now, Me rq) (l, s) =
     (l, if hr_method rq = ''GET'' then snd (auth_guard env now rq me s) else s)"
| "serve env cy (now, Api rq c) (l, s) =
     (l, if hr_method rq = method_of c
         then snd (auth_guard env now rq (\<lambda>_ _ _ s. (Inr (), api_exec cy c s)) s) else s)"

section \<open>The handlers of the API leave users and sessions alone\<close>

definition logins :: "database \<Rightarrow> user_row list \<times> session_row list" where
  "logins d = (db_users d, db_sessions d)"

lemma keeps_logins_stmt:
  assumes "\<And>d x d'. f d = Inr (x, d') \<Longrightarrow> logins d' = logins d"
  shows "keeps (\<lambda>d. P (logins d)) (stmt f)"
  using assms by (intro keeps_stmt) auto

lemma row_statements_logins:
  "update_instances P f d = Inr (x, d') \<Longrightarrow> logins d' = logins d"
  "insert_instance name p d = Inr (i, d') \<Longrightarrow> logins d' = logins d"
  "delete_instances P d = Inr (u, d') \<Longrightarrow> logins d' = logins d"
  "delete_secrets Q d = Inr (u, d') \<Longrightarrow> logins d' = logins d"
  "insert_secret r d = Inr (u, d') \<Longrightarrow> logins d' = logins d"
  "upsert_secret k q c n d = Inr (u, d') \<Longrightarrow> logins d' = logins d"
  "upsert_proxy cfg d = Inr (u, d') \<Longrightarrow> logins d' = logins d"
  "insert_profile name mode org d = Inr (j, d') \<Longrightarrow> logins d' = logins d"
  "update_profile_row q name mode org d = Inr (k', d') \<Longrightarrow> logins d' = logins d"
  "delete_profile_row q d = Inr (u, d') \<Longrightarrow> logins d' = logins d"
  by (auto simp: logins_def update_instances_Inr insert_instance_def delete_instances_def delete_secrets_def insert_secret_def
      upsert_secret_def upsert_proxy_def insert_profile_def update_profile_row_def delete_profile_row_def Let_def
      split: if_splits)

lemma keeps_row_statements [inv_intros]:
  "keeps (\<lambda>d. P (logins d)) (stmt (update_instances Q f))" "keeps (\<lambda>d. P (logins d)) (stmt (insert_instance name p))"
  "keeps (\<lambda>d. P (logins d)) (stmt (delete_instances Q))" "keeps (\<lambda>d. P (logins d)) (stmt (delete_secrets R))"
  "keeps (\<lambda>d. P (logins d)) (stmt (insert_secret r))" "keeps (\<lambda>d. P (logins d)) (stmt (upsert_secret k q c n))"
  "keeps (\<lambda>d. P (logins d)) (stmt (upsert_proxy cfg))" "keeps (\<lambda>d. P (logins d)) (stmt (insert_profile name mode org))"
  "keeps (\<lambda>d. P (logins d)) (stmt (update_profile_row q name mode org))"
  "keeps (\<lambda>d. P (logins d)) (stmt (delete_profile_row q))"
  by (rule keeps_logins_stmt; erule row_statements_logins)+

lemma request_restart_logins [inv_intros]: "keeps (\<lambda>d. P (logins d)) (repo_request_restart i)"
  unfolding repo_request_restart_def
  by (intro keeps_mapping_err keeps_logins_stmt) (auto simp: bind_res_eq_Inr dest: row_statements_logins)

lemma instance_ops_logins [inv_intros]:
  "keeps (\<lambda>d. P (logins d)) (update_id i f)" "keeps (\<lambda>d. P (logins d)) (repo_set_desired i en ds)"
  "keeps (\<lambda>d. P (logins d)) (repo_delete i)"
  "keeps (\<lambda>d. P (logins d)) (repo_rebind_profile_guarded i p)" "keeps (\<lambda>d. P (logins d)) (repo_create_guarded name p)"
  unfolding update_id_def update_where_def repo_set_desired_def repo_delete_def repo_rebind_profile_guarded_def
    repo_rebind_profile_def repo_create_guarded_def insert_row_def
  by (intro inv_intros)+

lemma instances_handlers_logins:
  "keeps (\<lambda>d. P (logins d)) (instances_create reg q)" "keeps (\<lambda>d. P (logins d)) (instances_update reg i b)"
  "keeps (\<lambda>d. P (logins d)) (instances_start i)" "keeps (\<lambda>d. P (logins d)) (instances_stop i)"
  "keeps (\<lambda>d. P (logins d)) (instances_restart reg i)" "keeps (\<lambda>d. P (logins d)) (instances_delete i)"
  unfolding instances_create_def instances_update_def instances_start_def instances_stop_def instances_set_desired_def
    instances_restart_def instances_delete_def
  by (intro inv_intros; auto intro!: inv_intros split: if_splits)+

lemma replace_global_logins [inv_intros]: "keeps (\<lambda>d. P (logins d)) (replace_global er k c n)"
  unfolding replace_global_def by (intro inv_intros)

lemma secret_ops_logins [inv_intros]:
  "keeps (\<lambda>d. P (logins d)) (set_profile_secret cy k p v)" "keeps (\<lambda>d. P (logins d)) (delete_profile_secret k p)"
  "keeps (\<lambda>d. P (logins d)) (set_global_secret cy k v)" "keeps (\<lambda>d. P (logins d)) (secret_set cy k v)"
  "keeps (\<lambda>d. P (logins d)) (secret_delete k)"
  unfolding set_profile_secret_def delete_profile_secret_def set_global_secret_def secret_set_def secret_delete_def
  by (intro keeps_andthen keeps_mapping_err encrypt_keeps keeps_row_statements; clarsimp intro!: inv_intros)+

lemma secret_lists_logins [inv_intros]:
  "keeps (\<lambda>d. P (logins d)) (set_new_secrets cy p cs)" "keeps (\<lambda>d. P (logins d)) (change_secrets cy p cs)"
proof -
  show "keeps (\<lambda>d. P (logins d)) (set_new_secrets cy p cs)"
  proof (induction cs)
    case (Cons c cs)
    obtain k v where "c = (k, v)" by (cases c)
    with Cons show ?case by (cases v) (auto intro!: inv_intros)
  qed (simp only: set_new_secrets.simps keeps_simple)
  show "keeps (\<lambda>d. P (logins d)) (change_secrets cy p cs)"
  proof (induction cs)
    case (Cons c cs)
    obtain k v where "c = (k, v)" by (cases c)
    with Cons show ?case by (cases v) (auto intro!: inv_intros)
  qed (simp only: change_secrets.simps keeps_simple)
qed

lemma profile_ops_logins [inv_intros]:
  "keeps (\<lambda>d. P (logins d)) (create_profile_with_credentials cy name mode org creds)"
  "keeps (\<lambda>d. P (logins d)) (update_profile_with_credentials cy p name mode org creds)"
  "keeps (\<lambda>d. P (logins d)) (profile_delete p)" "keeps (\<lambda>d. P (logins d)) (write_password cy pw)"
  unfolding create_profile_with_credentials_def update_profile_with_credentials_def profile_delete_def
    write_password_def
  by (auto intro!: inv_intros split: option.splits)

lemma accounts_handlers_logins:
  "keeps (\<lambda>d. P (logins d)) (accounts_create cy q)" "keeps (\<lambda>d. P (logins d)) (accounts_delete p)"
  "keeps (\<lambda>d. P (logins d)) (accounts_update cy p q)"
  unfolding accounts_create_def accounts_delete_def accounts_update_def accounts_update_check_def
    accounts_update_write_def update_target_def Let_def
  by (auto intro!: inv_intros)

lemma account_set_mode_logins [inv_intros]: "keeps (\<lambda>d. P (logins d)) (account_set_mode mode org)"
  unfolding account_set_mode_def by (intro inv_intros keeps_logins_stmt) (auto simp: logins_def)

lemma apply_secret_logins [inv_intros]: "keeps (\<lambda>d. P (logins d)) (apply_secret cy k v)"
  by (cases v) (auto simp: apply_secret_def intro!: inv_intros)

lemma config_handlers_logins:
  "keeps (\<lambda>d. P (logins d)) (account_api_update cy body)" "keeps (\<lambda>d. P (logins d)) (proxy_api_update cy st pbody)"
  unfolding account_api_update_def proxy_api_update_def update_proxy_with_password_def Let_def
  by (auto intro!: inv_intros split: option.splits)

lemma api_exec_logins: "logins (st_db (api_exec cy c s)) = logins (st_db s)"
proof -
  have k: "logins (st_db (snd (m s))) = logins (st_db s)" if "\<And>P. keeps (\<lambda>d. P (logins d)) m" for m :: "(api_error, 'a) op"
    using keepsD [OF that [of "\<lambda>x. x = logins (st_db s)"], of s] by simp
  show ?thesis
    by (cases c) (simp_all add: k instances_handlers_logins accounts_handlers_logins config_handlers_logins)
qed

section \<open>What the guard lets through\<close>

definition desired_part where
  "desired_part d = (db_instances d, db_profiles d, db_secrets d, db_proxy d, db_account d, db_users d)"

lemma session_get_Some:
  assumes "session_get env now i s = (Inr (Some se), s')"
  shows "st_db s' = st_db s \<and> find (\<lambda>r. se_id r = i) (db_sessions (st_db s)) = Some se \<and> \<not> is_expired env now (se_expires se)"
  using assms
  by (auto simp: session_get_def andthen_eq_Inr mapping_err_eq_Inr case_option_op dest!: select_Inr split: if_splits)

lemma session_statements_desired:
  "keeps (\<lambda>d. P (desired_part d)) (session_delete i)" "keeps (\<lambda>d. P (desired_part d)) (session_touch i)"
  "keeps (\<lambda>d. P (desired_part d)) (session_delete_expired env now)"
  unfolding session_delete_def session_touch_def session_delete_expired_def Let_def
  by (intro keeps_mapping_err keeps_stmt; auto simp: desired_part_def)+

lemma session_get_desired: "keeps (\<lambda>d. P (desired_part d)) (session_get env now i)"
  unfolding session_get_def
  by (intro keeps_andthen keeps_mapping_err keeps_simple)
     (auto intro!: keeps_andthen keeps_unwrap_or session_statements_desired keeps_simple split: option.splits)

lemma draw_keeps [inv_intros]: "keeps I draw"
  unfolding keeps_def by (rule tripleI) (auto simp: draw_def)

lemma session_create_desired: "keeps (\<lambda>d. P (desired_part d)) (session_create env now uid)"
  unfolding session_create_def Let_def
  by (intro keeps_andthen keeps_mapping_err keeps_simple draw_keeps keeps_stmt)
     (auto simp: insert_session_def desired_part_def split: if_splits)

lemma user_reads_keep [inv_intros]:
  "keeps I user_count" "keeps I (user_get i)" "keeps I (user_find_by_username name)"
  unfolding user_count_def user_get_def user_find_by_username_def by (intro inv_intros)+

lemma desired_same:
  assumes "\<And>P. keeps (\<lambda>d. P (desired_part d)) m" "m s = (r, s')"
  shows "desired_part (st_db s') = desired_part (st_db s)"
  using keepsD [OF assms(1) [of "\<lambda>x. x = desired_part (st_db s)"], of s] assms(2) by simp

text \<open>Either the guard answers itself and changes sessions at most, or the request carries a live
  session of a user and, unless it only reads, the session's token.\<close>

lemma auth_guard_cases:
  assumes "auth_guard env now rq k s = (r, s')"
  obtains (refused) e where "r = Inl e" "desired_part (st_db s') = desired_part (st_db s)"
  | (passed) sid se u s1 where "session_id_from_cookie (hr_headers rq) = Some sid"
      "find (\<lambda>x. se_id x = sid) (db_sessions (st_db s)) = Some se" "\<not> is_expired env now (se_expires se)"
      "find (\<lambda>x. us_id x = se_user se) (db_users (st_db s)) = Some u"
      "hr_method rq = ''GET'' \<or> header_token (hr_headers rq) = se_csrf se"
      "desired_part (st_db s1) = desired_part (st_db s)"
      "k \<lparr>au_id = us_id u, au_name = us_name u\<rparr> (se_csrf se) sid s1 = (r, s')"
proof (cases "session_id_from_cookie (hr_headers rq)")
  case None
  with assms refused show thesis by (auto simp: auth_guard_def)
next
  case (Some sid)
  obtain a s1 where a: "session_get env now sid s = (a, s1)" by fastforce
  have d1: "desired_part (st_db s1) = desired_part (st_db s)" by (rule desired_same [OF session_get_desired a])
  show thesis
  proof (cases "\<exists>se. a = Inr (Some se)")
    case False
    with assms Some a have "r = Inl unauthorized" "s' = s1"
      by (auto simp: auth_guard_def split: sum.splits option.splits)
    with d1 refused show thesis by blast
  next
    case True
    then obtain se where se: "a = Inr (Some se)" by blast
    note found = session_get_Some [OF a [unfolded se]]
    obtain b s2 where b: "user_get (se_user se) s1 = (b, s2)" by fastforce
    have d2: "st_db s2 = st_db s1"
      using keepsD [OF user_reads_keep(2) [of "\<lambda>d. d = st_db s1"], of s1 "se_user se"] b by simp
    show thesis
    proof (cases "\<exists>u. b = Inr (Some u)")
      case False
      with assms Some a se b have "r = Inl unauthorized" "s' = s2"
        by (auto simp: auth_guard_def split: sum.splits option.splits)
      with d1 d2 refused show thesis by simp
    next
      case True
      then obtain u where u: "b = Inr (Some u)" by blast
      then have uf: "find (\<lambda>x. us_id x = se_user se) (db_users (st_db s)) = Some u"
        using b found by (auto simp: user_get_def mapping_err_eq_Inr dest!: select_Inr)
      show thesis
      proof (cases "hr_method rq \<noteq> ''GET'' \<and> header_token (hr_headers rq) \<noteq> se_csrf se")
        case True
        with assms Some a se b u have "r = Inl (Forbidden ''invalid CSRF token'')" "s' = s2"
          by (auto simp: auth_guard_def)
        with d1 d2 refused show thesis by simp
      next
        case False
        let ?s3 = "snd (session_touch sid s2)"
        have "desired_part (st_db ?s3) = desired_part (st_db s2)"
          using desired_same [OF session_statements_desired(2), of sid s2 "fst (session_touch sid s2)" ?s3] by simp
        moreover have "k \<lparr>au_id = us_id u, au_name = us_name u\<rparr> (se_csrf se) sid ?s3 = (r, s')"
          using assms Some a se b u False by (auto simp: auth_guard_def)
        ultimately show thesis using passed [of sid se u ?s3] Some found uf False d1 d2 by auto
      qed
    qed
  qed
qed

section \<open>Properties\<close>

text \<open>Users: nothing but the first setup creates one.\<close>

lemma create_admin_if_empty_users:
  assumes "create_admin_if_empty name h s = (r, s')"
  shows "db_users (st_db s') = db_users (st_db s) \<or>
    db_users (st_db s) = [] \<and> length (db_users (st_db s')) = 1"
proof (cases r)
  case (Inl e)
  then have "st_db s' = st_db s" using assms unfolding create_admin_if_empty_def by (auto dest: tx_atomic)
  then show ?thesis by simp
next
  case (Inr x)
  from assms [unfolded Inr create_admin_if_empty_def] obtain s1 s2 where
    b: "andthen user_count (\<lambda>n. if 0 < n then ret AlreadyInitialized
        else andthen (mapping_err user_sql (stmt (insert_user name h))) (\<lambda>i. ret (Created i))) s1 = (Inr x, s2)"
    and d: "st_db s1 = st_db s" "st_db s' = st_db s2" by (elim tx_Inr)
  from b obtain n s0 where n: "user_count s1 = (Inr n, s0)"
    and c: "(if 0 < n then ret AlreadyInitialized
        else andthen (mapping_err user_sql (stmt (insert_user name h))) (\<lambda>i. ret (Created i))) s0 = (Inr x, s2)"
    by (auto simp: andthen_eq_Inr)
  from n have n': "n = length (db_users (st_db s1))" "st_db s0 = st_db s1"
    by (auto simp: user_count_def mapping_err_eq_Inr dest!: select_Inr)
  show ?thesis
  proof (cases "0 < n")
    case True
    with c n' d show ?thesis by (auto split: if_splits)
  next
    case False
    with c obtain i where i: "insert_user name h (st_db s0) = Inr (i, st_db s2)"
      by (auto simp: andthen_eq_Inr mapping_err_eq_Inr dest!: stmt_Inr)
    from False n' d have e: "db_users (st_db s0) = []" "db_users (st_db s) = []" by simp_all
    from i e(1) have u: "(st_db s0)\<lparr>db_users := [\<lparr>us_id = i, us_name = name, us_hash = h\<rparr>]\<rparr> = st_db s2"
      by (auto simp: insert_user_def Let_def)
    have "length (db_users (st_db s2)) = 1" unfolding u [symmetric] by simp
    with e(2) d show ?thesis by simp
  qed
qed

definition users_settled :: "database \<Rightarrow> database \<Rightarrow> bool" where
  "users_settled d d' \<longleftrightarrow> db_users d' = db_users d \<or> db_users d = [] \<and> length (db_users d') = 1"

lemma users_settled_desired: "desired_part d' = desired_part d \<Longrightarrow> users_settled d d'"
  by (simp add: users_settled_def desired_part_def)

lemma create_admin_users: "users_settled (st_db s) (st_db (snd (create_admin env body s)))"
proof -
  have reads: "keeps (\<lambda>d. users_settled (st_db s) d) (json_body b)" "keeps (\<lambda>d. users_settled (st_db s) d) (hash_password env pw)"
    for b :: "login_request option" and pw
    unfolding json_body_def hash_password_def by (intro inv_intros)+
  have create: "keeps (\<lambda>d. users_settled (st_db s) d) (create_admin_if_empty name h)" for name h
    unfolding keeps_def
    by (rule tripleI) (auto simp: users_settled_def dest!: create_admin_if_empty_users)
  have finish: "keeps I (case x of Created _ \<Rightarrow> ret True | AlreadyInitialized \<Rightarrow> raise e)"
    for I x and e :: api_error
    by (cases x) (simp_all only: admin_setup_result.case keeps_simple)
  have "keeps (\<lambda>d. users_settled (st_db s) d) (create_admin env body)"
    unfolding create_admin_def
    by (intro keeps_andthen reads keeps_simple, simp only: split_paired_all prod.case)
       (intro keeps_andthen keeps_mapping_err reads create finish)
  from keepsD [OF this, of s] show ?thesis by (simp add: users_settled_def)
qed

lemma create_admin_only_users:
  "desired_part ((st_db (snd (create_admin env body s)))\<lparr>db_users := us\<rparr>) = desired_part ((st_db s)\<lparr>db_users := us\<rparr>)"
proof -
  let ?I = "\<lambda>d. desired_part (d\<lparr>db_users := us\<rparr>) = desired_part ((st_db s)\<lparr>db_users := us\<rparr>)"
  have ins: "keeps ?I (stmt (insert_user name h))" for name h
    by (intro keeps_stmt) (auto simp: insert_user_def Let_def desired_part_def split: if_splits)
  have create: "keeps ?I (create_admin_if_empty name h)" for name h
    unfolding create_admin_if_empty_def
    by (intro inv_intros) (auto intro!: keeps_andthen keeps_mapping_err ins keeps_simple simp only: split: if_splits)
  have finish: "keeps I (case x of Created _ \<Rightarrow> ret True | AlreadyInitialized \<Rightarrow> raise e)"
    for I x and e :: api_error
    by (cases x) (simp_all only: admin_setup_result.case keeps_simple)
  have reads: "keeps I (json_body b)" "keeps I (hash_password env pw)" for I and b :: "login_request option" and pw
    unfolding json_body_def hash_password_def by (intro inv_intros)+
  have "keeps ?I (create_admin env body)"
    unfolding create_admin_def
    by (intro keeps_andthen reads keeps_simple, simp only: split_paired_all prod.case)
       (intro keeps_andthen keeps_mapping_err reads create finish)
  from keepsD [OF this, of s] show ?thesis by simp
qed

lemma guard_desired:
  assumes "\<And>u c i s. desired_part (st_db (snd (k u c i s))) = desired_part (st_db s)"
  shows "desired_part (st_db (snd (auth_guard env now rq k s))) = desired_part (st_db s)"
proof -
  obtain r s' where g: "auth_guard env now rq k s = (r, s')" by fastforce
  then show ?thesis
  proof (cases rule: auth_guard_cases)
    case (passed sid se u s1)
    with assms [of "\<lparr>au_id = us_id u, au_name = us_name u\<rparr>" "se_csrf se" sid s1] g show ?thesis by simp
  qed (use g in simp)
qed

lemma guard_users:
  assumes "\<And>u c i s. db_users (st_db (snd (k u c i s))) = db_users (st_db s)"
  shows "db_users (st_db (snd (auth_guard env now rq k s))) = db_users (st_db s)"
proof -
  obtain r s' where g: "auth_guard env now rq k s = (r, s')" by fastforce
  then show ?thesis
  proof (cases rule: auth_guard_cases)
    case (passed sid se u s1)
    with assms [of "\<lparr>au_id = us_id u, au_name = us_name u\<rparr>" "se_csrf se" sid s1] g show ?thesis
      by (simp add: desired_part_def)
  qed (use g in \<open>simp add: desired_part_def\<close>)
qed

lemma logout_desired: "desired_part (st_db (snd (logout u c i s))) = desired_part (st_db s)"
proof -
  have "keeps (\<lambda>d. P (desired_part d)) (logout u c i)" for P
    unfolding logout_def by (intro keeps_andthen keeps_unwrap_or session_statements_desired keeps_simple)
  from desired_same [OF this, of s "fst (logout u c i s)" "snd (logout u c i s)"] show ?thesis by simp
qed

lemma logout_users: "db_users (st_db (snd (logout u c i s))) = db_users (st_db s)"
  using logout_desired [of u c i s] by (simp add: desired_part_def)

lemma setup_status_db: "st_db (snd (setup_status s)) = st_db s"
proof -
  have "keeps (\<lambda>d. d = st_db s) setup_status" unfolding setup_status_def by (intro inv_intros)
  from keepsD [OF this, of s] show ?thesis by simp
qed

lemma login_desired: "desired_part (st_db (snd (snd (login env secure now inst ip q l s)))) = desired_part (st_db s)"
proof -
  have f: "user_find_by_username n s = (a, s1) \<Longrightarrow> st_db s1 = st_db s" for n a s1
    using keepsD [OF user_reads_keep(3) [of "\<lambda>d. d = st_db s"], of s n] by simp
  have x: "desired_part (st_db (snd (session_delete_expired env now s1))) = desired_part (st_db s1)" for s1
    using desired_same [OF session_statements_desired(3), of env now s1 "fst (session_delete_expired env now s1)"
        "snd (session_delete_expired env now s1)"] by simp
  have c: "session_create env now u s1 = (a, s2) \<Longrightarrow> desired_part (st_db s2) = desired_part (st_db s1)" for u s1 a s2
    by (rule desired_same [OF session_create_desired])
  show ?thesis
    unfolding login_def Let_def
    by (auto split: prod.splits rate_decision.splits option.splits sum.splits dest!: f c simp: x)
qed

text \<open>C1: Nothing changes without a login, except that the very first setup creates the first user.
  When any request changes instances, profiles, secrets, the proxy configuration, the account or the
  users, it is either a request to one of the guarded endpoints, and then its cookie names a stored
  session that has not expired and belongs to a stored user, and its token header is the token of that
  session; or it is the public setup request, and then there was no user before, and the user is all
  that it adds. This holds whichever statements fail.\<close>

theorem changes_need_session:
  assumes "serve env cy (now, rq) (l, s) = (l', s')"
    and "desired_part (st_db s') \<noteq> desired_part (st_db s)"
  shows "(\<exists>hr c se u. rq = Api hr c \<and> se \<in> set (db_sessions (st_db s)) \<and>
      session_id_from_cookie (hr_headers hr) = Some (se_id se) \<and> \<not> is_expired env now (se_expires se) \<and>
      u \<in> set (db_users (st_db s)) \<and> us_id u = se_user se \<and> header_token (hr_headers hr) = se_csrf se) \<or>
    (\<exists>q u. rq = Setup q \<and> db_users (st_db s) = [] \<and>
      desired_part (st_db s') = desired_part ((st_db s)\<lparr>db_users := [u]\<rparr>))"
proof (cases rq)
  case (Setup q)
  then have s': "s' = snd (create_admin env q s)" using assms(1) by simp
  have one: "db_users (st_db s) = []" "length (db_users (st_db s')) = 1"
    using create_admin_users [of s env q] create_admin_only_users [where us = "db_users (st_db s)" and s = s and env = env and body = q] assms(2)
    unfolding s' users_settled_def desired_part_def by auto
  from one(2) obtain u where "db_users (st_db s') = [u]" by (auto simp: length_Suc_conv)
  with create_admin_only_users [where us = "[u]" and s = s and env = env and body = q] have "desired_part (st_db s') = desired_part ((st_db s)\<lparr>db_users := [u]\<rparr>)"
    unfolding s' by (simp add: desired_part_def)
  with Setup one(1) show ?thesis by blast
next
  case (Api hr c)
  with assms obtain r where m: "hr_method hr = method_of c"
    and g: "auth_guard env now hr (\<lambda>_ _ _ s. (Inr (), api_exec cy c s)) s = (r, s')"
    by (cases "auth_guard env now hr (\<lambda>_ _ _ s. (Inr (), api_exec cy c s)) s") (auto split: if_splits)
  have "method_of c \<noteq> ''GET''" by (cases c) auto
  with m have "hr_method hr \<noteq> ''GET''" by simp
  with g assms(2) Api show ?thesis
    by (cases rule: auth_guard_cases) (auto simp: find_Some_iff in_set_conv_nth)
next
  case (Login secure inst ip q)
  have "l' = fst (snd (login env secure now inst ip q l s))" "s' = snd (snd (login env secure now inst ip q l s))"
    using assms(1) Login by (cases "login env secure now inst ip q l s"; simp)+
  with assms(2) login_desired show ?thesis by simp
next
  case (Me r)
  then have "s' = (if hr_method r = ''GET'' then snd (auth_guard env now r me s) else s)" using assms(1) by simp
  with assms(2) guard_desired [of me env now r s] show ?thesis by (simp add: me_def split: if_splits)
qed (use assms in \<open>auto simp: setup_status_db guard_desired logout_desired split: if_splits\<close>)

lemma serve_users: "users_settled (st_db s) (st_db (snd (serve env cy (now, rq) (l, s))))"
proof (cases rq)
  case (Setup q)
  then show ?thesis by (simp add: create_admin_users)
next
  case SetupStatus
  then show ?thesis by (simp add: users_settled_def setup_status_db)
next
  case (Login secure inst ip q)
  then show ?thesis using login_desired by (auto intro: users_settled_desired)
next
  case (Logout r)
  then show ?thesis by (simp add: users_settled_def guard_users logout_users)
next
  case (Me r)
  then show ?thesis by (simp add: users_settled_def guard_users me_def)
next
  case (Api r c)
  have "db_users (st_db (api_exec cy c s)) = db_users (st_db s)" for s
    using api_exec_logins [of cy c s] by (simp add: logins_def)
  with Api show ?thesis by (simp add: users_settled_def guard_users)
qed

text \<open>C20: Setup can be done once. Starting with at most one user, there is never a second one,
  whatever requests come and whichever statements fail; and once there is a user, no request
  changes or removes it.\<close>

theorem setup_only_once:
  assumes "length (db_users (st_db s)) \<le> 1" and "(l', s') = fold (serve env cy) reqs (l, s)"
  shows "length (db_users (st_db s')) \<le> 1 \<and> (db_users (st_db s) \<noteq> [] \<longrightarrow> db_users (st_db s') = db_users (st_db s))"
  using assms
proof (induction reqs arbitrary: l s)
  case (Cons rq reqs)
  obtain now x where rq: "rq = (now, x)" by (cases rq)
  obtain l1 s1 where 1: "serve env cy rq (l, s) = (l1, s1)" by (cases "serve env cy rq (l, s)")
  from serve_users [of s env cy now x l] 1 rq have u: "users_settled (st_db s) (st_db s1)" by simp
  with Cons.prems have "length (db_users (st_db s1)) \<le> 1" by (auto simp: users_settled_def)
  with Cons.IH [of s1 l1] Cons.prems(2) 1 u show ?case by (auto simp: users_settled_def)
qed simp

section \<open>Guessing passwords\<close>

text \<open>Requests at work at the same time: a login under way is either admitted by the limiter or has
  its password compared and the outcome not yet recorded. Each event is one part of one login, or a
  whole other request.\<close>

datatype attempt = Admitted login_request | Compared "user_row option"

type_synonym attempts = "(nat \<times> ip_addr \<times> attempt) list"

datatype login_event =
    LoginCheck nat millis ip_addr "login_request option"
  | LoginCompare nat
  | LoginFinish nat bool int millis
  | Between int request

definition done_with :: "nat \<Rightarrow> attempts \<Rightarrow> attempts" where
  "done_with j ts = filter (\<lambda>x. fst x \<noteq> j) ts"

fun login_step :: "auth_env \<Rightarrow> crypto \<Rightarrow> login_event \<Rightarrow> limiter \<times> store \<times> attempts \<Rightarrow> limiter \<times> store \<times> attempts" where
  "login_step env cy (LoginCheck j inst ip body) (l, s, ts) =
     (if j \<in> fst ` set ts then (l, s, ts)
      else (case login_check inst ip body l of
              (Inl e, l1) \<Rightarrow> (l1, s, ts)
            | (Inr q, l1) \<Rightarrow> (l1, s, (j, ip, Admitted q) # ts)))"
| "login_step env cy (LoginCompare j) (l, s, ts) =
     (case map_of ts j of
        Some (ip, Admitted q) \<Rightarrow>
          (case login_compare env q s of
             (Inl e, s1) \<Rightarrow> (l, s1, done_with j ts)
           | (Inr user, s1) \<Rightarrow> (l, s1, (j, ip, Compared user) # done_with j ts))
      | _ \<Rightarrow> (l, s, ts))"
| "login_step env cy (LoginFinish j secure now inst) (l, s, ts) =
     (case map_of ts j of
        Some (ip, Compared user) \<Rightarrow>
          (case login_finish env secure now inst ip user l s of (_, l1, s1) \<Rightarrow> (l1, s1, done_with j ts))
      | _ \<Rightarrow> (l, s, ts))"
| "login_step env cy (Between now rq) (l, s, ts) =
     (case serve env cy (now, rq) (l, s) of (l1, s1) \<Rightarrow> (l1, s1, ts))"

text \<open>One login after the other is what \<open>serve\<close> does.\<close>

lemma login_events_serve:
  assumes "j \<notin> fst ` set ts" and "serve env cy (now, Login secure inst ip body) (l, s) = (l', s')"
  shows "fold (login_step env cy) [LoginCheck j inst ip body, LoginCompare j, LoginFinish j secure now inst] (l, s, ts) = (l', s', ts)"
proof -
  have "done_with j ts = ts" using assms(1) by (force simp: done_with_def filter_id_conv)
  moreover have "map_of ts j = None" using assms(1) by (simp add: map_of_eq_None_iff)
  ultimately show ?thesis
    using assms by (auto simp: login_parts done_with_def split: prod.splits sum.splits)
qed

text \<open>How many logins of \<open>a\<close> are under way, at most; and how many of its passwords are compared.\<close>

definition under_way :: "ip_addr \<Rightarrow> attempts \<Rightarrow> nat" where
  "under_way a ts = length (filter (\<lambda>x. fst (snd x) = a) ts)"

fun most_under_way :: "auth_env \<Rightarrow> crypto \<Rightarrow> ip_addr \<Rightarrow> login_event list \<Rightarrow> limiter \<times> store \<times> attempts \<Rightarrow> nat" where
  "most_under_way env cy a [] x = under_way a (snd (snd x))"
| "most_under_way env cy a (e # es) x =
     max (under_way a (snd (snd x))) (most_under_way env cy a es (login_step env cy e x))"

definition guess_made :: "auth_env \<Rightarrow> ip_addr \<Rightarrow> login_event \<Rightarrow> store \<times> attempts \<Rightarrow> bool" where
  "guess_made env a e = (\<lambda>(s, ts).
     (case e of
        LoginCompare j \<Rightarrow>
          (case map_of ts j of
             Some (ip, Admitted q) \<Rightarrow> ip = a \<and> (case fst (login_compare env q s) of Inl _ \<Rightarrow> False | Inr _ \<Rightarrow> True)
           | _ \<Rightarrow> False)
      | _ \<Rightarrow> False))"

fun guesses :: "auth_env \<Rightarrow> crypto \<Rightarrow> ip_addr \<Rightarrow> login_event list \<Rightarrow> limiter \<times> store \<times> attempts \<Rightarrow> nat" where
  "guesses env cy a [] x = 0"
| "guesses env cy a (e # es) x =
     (if guess_made env a e (snd x) then 1 else 0) + guesses env cy a es (login_step env cy e x)"

text \<open>Every login within the window that starts at \<open>t0\<close>, in parts, and wrong passwords from \<open>a\<close> only.\<close>

definition wrong_body :: "auth_env \<Rightarrow> login_request \<Rightarrow> bool" where
  "wrong_body env q \<longleftrightarrow> (\<forall>h. \<not> av_verify env h (lq_password q))"

definition wrong_within :: "auth_env \<Rightarrow> ip_addr \<Rightarrow> millis \<Rightarrow> millis \<Rightarrow> login_event \<Rightarrow> bool" where
  "wrong_within env a t0 w e =
     (case e of
        LoginCheck j inst ip body \<Rightarrow> t0 \<le> inst \<and> inst < t0 + w \<and> (ip = a \<longrightarrow> pred_option (wrong_body env) body)
      | LoginCompare j \<Rightarrow> True
      | LoginFinish j secure now inst \<Rightarrow> t0 \<le> inst \<and> inst < t0 + w
      | Between now rq \<Rightarrow> (case rq of Login _ _ _ _ \<Rightarrow> False | _ \<Rightarrow> True))"

definition counted :: "ip_addr \<Rightarrow> millis \<Rightarrow> nat \<Rightarrow> limiter \<Rightarrow> bool" where
  "counted a t0 n l \<longleftrightarrow>
     (case lm_table l a of None \<Rightarrow> n = 0 | Some f \<Rightarrow> fs_count f = n \<and> t0 \<le> fs_start f)"

lemma not_over: "t0 \<le> fs_start f \<Longrightarrow> inst < t0 + lm_window l \<Longrightarrow> 0 < lm_window l \<Longrightarrow> \<not> window_over l inst f"
  by (auto simp: window_over_def)

lemma check_counted:
  assumes "counted a t0 n l" "t0 \<le> inst" "inst < t0 + lm_window l" "limiter_check inst ip l = (dec, l1)"
  shows "counted a t0 n l1 \<and> lm_max l1 = lm_max l \<and> lm_window l1 = lm_window l \<and>
    (ip = a \<longrightarrow> (dec = Blocked \<longleftrightarrow> lm_table l a \<noteq> None \<and> lm_max l \<le> n))"
proof -
  have w: "0 < lm_window l" using assms(2,3) by simp
  show ?thesis
  proof (cases "lm_table l a")
    case None
    with assms show ?thesis
      by (auto simp: limiter_check_def limiter_snapshot_def counted_def Let_def split: option.splits if_splits)
  next
    case (Some f)
    with assms not_over [of t0 f inst l] w show ?thesis
      by (auto simp: limiter_check_def limiter_snapshot_def counted_def Let_def split: option.splits if_splits)
  qed
qed

lemma failure_counted:
  assumes "counted a t0 n l" "t0 \<le> inst" "inst < t0 + lm_window l" "limiter_failure inst ip l = (dec, l1)"
  shows "counted a t0 (if ip = a then Suc n else n) l1 \<and> lm_max l1 = lm_max l \<and> lm_window l1 = lm_window l"
proof -
  have w: "0 < lm_window l" using assms(2,3) by simp
  have fresh: "\<not> window_over l inst \<lparr>fs_count = 0, fs_start = inst\<rparr>" using w by (simp add: window_over_def)
  show ?thesis
  proof (cases "lm_table l a")
    case None
    with assms fresh show ?thesis by (auto simp: limiter_failure_def counted_def Let_def)
  next
    case (Some f)
    with assms not_over [of t0 f inst l] w show ?thesis
      by (auto simp: limiter_failure_def counted_def Let_def)
  qed
qed

text \<open>What is owed: the failures recorded for \<open>a\<close> and its logins under way.\<close>

definition compared :: "ip_addr \<Rightarrow> attempts \<Rightarrow> nat" where
  "compared a ts = length (filter (\<lambda>x. fst (snd x) = a \<and> snd (snd x) = Compared None) ts)"

definition attempts_ok :: "auth_env \<Rightarrow> ip_addr \<Rightarrow> attempts \<Rightarrow> bool" where
  "attempts_ok env a ts \<longleftrightarrow> distinct (List.map fst ts) \<and>
     (\<forall>(j, ip, x) \<in> set ts. ip = a \<longrightarrow> (case x of Admitted q \<Rightarrow> wrong_body env q | Compared u \<Rightarrow> u = None))"

lemma count_done_with:
  assumes "distinct (List.map fst ts)" and "map_of ts j = Some y"
  shows "length (filter P ts) = length (filter P (done_with j ts)) + (if P (j, y) then 1 else 0)"
  using assms
proof (induction ts)
  case (Cons t ts)
  show ?case
  proof (cases "fst t = j")
    case True
    with Cons.prems have "done_with j (t # ts) = ts" "t = (j, y)"
      by (cases t; force simp: done_with_def filter_id_conv)+
    then show ?thesis by simp
  qed (use Cons in \<open>auto simp: done_with_def\<close>)
qed simp

lemma attempts_ok_done: "attempts_ok env a ts \<Longrightarrow> attempts_ok env a (done_with j ts)"
  by (auto simp: attempts_ok_def done_with_def distinct_map_filter)

lemma compare_wrong: "wrong_body env q \<Longrightarrow> login_compare env q s = (Inr u, s1) \<Longrightarrow> u = None"
  by (auto simp: login_compare_def wrong_body_def split: prod.splits sum.splits option.splits)

lemma login_check_counted:
  assumes "counted a t0 n l" "t0 \<le> inst" "inst < t0 + lm_window l" "0 < lm_max l" "login_check inst ip body l = (r, l1)"
  shows "counted a t0 n l1 \<and> lm_max l1 = lm_max l \<and> lm_window l1 = lm_window l \<and>
    (\<forall>q. ip = a \<longrightarrow> r = Inr q \<longrightarrow> n < lm_max l \<and> body = Some q)"
proof -
  obtain dec l2 where c: "limiter_check inst ip l = (dec, l2)" by fastforce
  note h = check_counted [OF assms(1-3) c]
  have room: "dec = Allow \<Longrightarrow> ip = a \<Longrightarrow> n < lm_max l"
    using h assms(1,4) by (auto simp: counted_def split: option.splits)
  show ?thesis
    using assms(5) c h room by (cases dec) (auto simp: login_check_def ok_or_def split: option.splits)
qed

lemma login_finish_counted:
  assumes "counted a t0 n l" "t0 \<le> inst" "inst < t0 + lm_window l" "ip = a \<longrightarrow> user = None"
    and "login_finish env secure now inst ip user l s = (r, l1, s1)"
  shows "counted a t0 (if ip = a then Suc n else n) l1 \<and> lm_max l1 = lm_max l \<and> lm_window l1 = lm_window l"
proof (cases user)
  case None
  obtain dec l2 where f: "limiter_failure inst ip l = (dec, l2)" by fastforce
  then have "l1 = l2" using None assms(5) by (auto simp: login_finish_def split: rate_decision.splits)
  with failure_counted [OF assms(1-3) f] show ?thesis by simp
next
  case (Some u)
  then have "l1 = limiter_success ip l"
    using assms(5) by (auto simp: login_finish_def Let_def split: prod.splits sum.splits)
  with assms(1,4) Some show ?thesis by (simp add: limiter_success_def counted_def)
qed

text \<open>\<open>owed\<close>: \<open>g\<close> passwords have been compared, all of them recorded or still to be recorded; and a
  login was admitted only while fewer than the maximum were recorded.\<close>

definition owed :: "auth_env \<Rightarrow> ip_addr \<Rightarrow> millis \<Rightarrow> nat \<Rightarrow> nat \<Rightarrow> limiter \<Rightarrow> attempts \<Rightarrow> bool" where
  "owed env a t0 k g l ts \<longleftrightarrow> attempts_ok env a ts \<and>
     (\<exists>n. counted a t0 n l \<and> g \<le> n + compared a ts \<and> n + under_way a ts \<le> lm_max l + (k - 1))"

lemma login_step_owed:
  assumes "owed env a t0 k g l ts" "0 < lm_max l" "wrong_within env a t0 (lm_window l) e"
    and "login_step env cy e (l, s, ts) = (l', s', ts')" "under_way a ts' \<le> k"
  shows "owed env a t0 k (g + (if guess_made env a e (s, ts) then 1 else 0)) l' ts' \<and>
    lm_max l' = lm_max l \<and> lm_window l' = lm_window l"
proof -
  from assms(1) obtain n where ok: "attempts_ok env a ts" and n: "counted a t0 n l"
    and g: "g \<le> n + compared a ts" and b: "n + under_way a ts \<le> lm_max l + (k - 1)" by (auto simp: owed_def)
  have dist: "distinct (List.map fst ts)" using ok by (simp add: attempts_ok_def)
  show ?thesis
  proof (cases e)
    case (LoginCheck j inst ip body)
    obtain r l1 where c: "login_check inst ip body l = (r, l1)" by fastforce
    have t: "t0 \<le> inst" "inst < t0 + lm_window l" "ip = a \<longrightarrow> pred_option (wrong_body env) body"
      using assms(3) LoginCheck by (simp_all add: wrong_within_def)
    note h = login_check_counted [OF n t(1,2) assms(2) c]
    show ?thesis
    proof (cases "j \<notin> fst ` set ts \<and> (\<exists>q. r = Inr q)")
      case False
      then have "l' = l1 \<or> l' = l" "ts' = ts" using assms(4) LoginCheck c by (auto split: if_splits sum.splits)
      with h ok n g b LoginCheck show ?thesis by (auto simp: owed_def guess_made_def)
    next
      case True
      then obtain q where q: "r = Inr q" "j \<notin> fst ` set ts" by blast
      with assms(4) LoginCheck c have e: "l' = l1" "ts' = (j, ip, Admitted q) # ts" by auto
      have "attempts_ok env a ts'" using ok q t(3) h e by (auto simp: attempts_ok_def)
      moreover have "compared a ts' = compared a ts" by (simp add: e compared_def)
      moreover have "n + under_way a ts' \<le> lm_max l + (k - 1)"
        using h b q(1) assms(5) e by (cases "ip = a") (auto simp: under_way_def)
      ultimately show ?thesis using h g e LoginCheck by (auto simp: owed_def guess_made_def)
    qed
  next
    case (LoginCompare j)
    show ?thesis
    proof (cases "\<exists>ip q. map_of ts j = Some (ip, Admitted q)")
      case False
      then have "l' = l" "ts' = ts" "\<not> guess_made env a e (s, ts)"
        using assms(4) LoginCompare by (auto simp: guess_made_def split: option.splits attempt.splits)
      with assms(1) show ?thesis by simp
    next
      case True
      then obtain ip q where m: "map_of ts j = Some (ip, Admitted q)" by blast
      obtain r s1 where c: "login_compare env q s = (r, s1)" by fastforce
      have wrong: "ip = a \<Longrightarrow> wrong_body env q" using ok m by (fastforce simp: attempts_ok_def dest: map_of_SomeD)
      note cnt = count_done_with [OF dist m]
      have ts': "ts' = (case r of Inl _ \<Rightarrow> done_with j ts | Inr u \<Rightarrow> (j, ip, Compared u) # done_with j ts)" "l' = l"
        using assms(4) LoginCompare m c by (auto split: sum.splits)
      have made: "guess_made env a e (s, ts) \<longleftrightarrow> ip = a \<and> (\<exists>u. r = Inr u)"
        using LoginCompare m c by (auto simp: guess_made_def split: sum.splits)
      have none: "r = Inr u \<Longrightarrow> ip = a \<Longrightarrow> u = None" for u using compare_wrong [of env q s u s1] wrong c by simp
      have "j \<notin> fst ` set (done_with j ts)" by (auto simp: done_with_def)
      then have ok': "attempts_ok env a ts'" using attempts_ok_done [OF ok, of j] none ts'(1)
        by (cases r) (auto simp: attempts_ok_def)
      have "under_way a ts' \<le> under_way a ts"
        using cnt [of "\<lambda>x. fst (snd x) = a"] ts'(1) by (cases r) (auto simp: under_way_def)
      moreover have "compared a ts' = compared a ts + (if guess_made env a e (s, ts) then 1 else 0) \<or>
          ip \<noteq> a \<and> compared a ts' = compared a ts"
        using cnt [of "\<lambda>x. fst (snd x) = a \<and> snd (snd x) = Compared None"] ts'(1) made none
        by (cases r) (auto simp: compared_def)
      ultimately show ?thesis using ok' n g b ts'(2) made by (auto simp: owed_def)
    qed
  next
    case (LoginFinish j secure now inst)
    then have made: "\<not> guess_made env a e (s, ts)" by (simp add: guess_made_def)
    show ?thesis
    proof (cases "\<exists>ip u. map_of ts j = Some (ip, Compared u)")
      case False
      then have "l' = l" "ts' = ts"
        using assms(4) LoginFinish by (auto split: option.splits attempt.splits)
      with assms(1) made show ?thesis by simp
    next
      case True
      then obtain ip u where m: "map_of ts j = Some (ip, Compared u)" by blast
      obtain r l1 s1 where f: "login_finish env secure now inst ip u l s = (r, l1, s1)" by (metis prod_cases3)
      have none: "ip = a \<longrightarrow> u = None" using ok m by (fastforce simp: attempts_ok_def dest: map_of_SomeD)
      have t: "t0 \<le> inst" "inst < t0 + lm_window l" using assms(3) LoginFinish by (simp_all add: wrong_within_def)
      note h = login_finish_counted [OF n t none f]
      note cnt = count_done_with [OF dist m]
      have e: "l' = l1" "ts' = done_with j ts" using assms(4) LoginFinish m f by auto
      have "under_way a ts = under_way a ts' + (if ip = a then 1 else 0)"
        using cnt [of "\<lambda>x. fst (snd x) = a"] e by (simp add: under_way_def)
      moreover have "compared a ts = compared a ts' + (if ip = a then 1 else 0)"
        using cnt [of "\<lambda>x. fst (snd x) = a \<and> snd (snd x) = Compared None"] e none by (simp add: compared_def)
      ultimately show ?thesis
        using h g b made attempts_ok_done [OF ok, of j] e by (auto simp: owed_def split: if_splits)
    qed
  next
    case (Between now rq)
    then have "l' = l" "ts' = ts" "\<not> guess_made env a e (s, ts)"
      using assms(3,4) by (cases rq; auto simp: wrong_within_def guess_made_def split: prod.splits)+
    with assms(1) show ?thesis by simp
  qed
qed


text \<open>A wrong guess from the local host at a given time.\<close>

definition demo_auth :: auth_env where
  "demo_auth = \<lparr>av_hash = (\<lambda>_ p. Some p), av_verify = (\<lambda>h p. False), av_uuid = (\<lambda>n. show_nat n),
     av_parse = (\<lambda>s. Some (int (length s))), av_format = (\<lambda>x. Some (replicate (nat x) CHR ''i''))\<rparr>"

definition demo_wrong :: "login_request option" where
  "demo_wrong = Some \<lparr>lq_username = ''admin'', lq_password = ''x''\<rparr>"

definition demo_guess :: "millis \<Rightarrow> login_event list" where
  "demo_guess t = [LoginCheck 0 t (IpV4 0) demo_wrong, LoginCompare 0, LoginFinish 0 False 0 t]"

lemma demo_compare: "login_compare demo_auth q (demo_store db_migrated) = (Inr None, demo_store db_migrated)"
  by (simp add: login_compare_def user_find_by_username_def mapping_err_def demo_store_def db_migrated_def)

lemma demo_check:
  "login_check t a demo_wrong l =
     (case limiter_check t a l of
        (Blocked, l1) \<Rightarrow> (Inl (Forbidden ''too many login attempts, try again later''), l1)
      | (Allow, l1) \<Rightarrow> (Inr \<lparr>lq_username = ''admin'', lq_password = ''x''\<rparr>, l1))"
  by (auto simp: login_check_def demo_wrong_def ok_or_def split: prod.splits rate_decision.splits)

lemma demo_finish:
  "\<exists>r. login_finish env secure now inst ip None l s = (r, snd (limiter_failure inst ip l), s)"
  by (auto simp: login_finish_def split: prod.splits rate_decision.splits)

lemma demo_finish_event:
  "map_of ts j = Some (ip, Compared None) \<Longrightarrow>
     login_step env cy (LoginFinish j secure now inst) (l, s, ts) = (snd (limiter_failure inst ip l), s, done_with j ts)"
  using demo_finish [of env secure now inst ip l s] by (auto split: prod.splits)

lemma demo_no_finish: "map_of ts j = None \<Longrightarrow> login_step env cy (LoginFinish j secure now inst) (l, s, ts) = (l, s, ts)"
  by simp

lemma demo_guess_step:
  "guesses demo_auth cy (IpV4 0) (demo_guess t @ es) (l, demo_store db_migrated, []) =
     (case limiter_check t (IpV4 0) l of
        (Blocked, l1) \<Rightarrow> guesses demo_auth cy (IpV4 0) es (l1, demo_store db_migrated, [])
      | (Allow, l1) \<Rightarrow> Suc (guesses demo_auth cy (IpV4 0) es (snd (limiter_failure t (IpV4 0) l1), demo_store db_migrated, [])))"
  by (auto simp: demo_guess_def guess_made_def demo_check demo_compare demo_finish_event demo_no_finish done_with_def
      simp del: login_step.simps(3) split: prod.splits rate_decision.splits)

definition demo_limiter :: "(nat \<times> millis) option \<Rightarrow> limiter" where
  "demo_limiter e = \<lparr>lm_table = (\<lambda>a. if a = IpV4 0 then map_option (\<lambda>(n, t). \<lparr>fs_count = n, fs_start = t\<rparr>) e else None),
     lm_max = 5, lm_window = 900000\<rparr>"

lemma demo_limiter_steps:
  "limiter_check t (IpV4 0) (demo_limiter None) = (Allow, demo_limiter None)"
  "limiter_check t (IpV4 0) (demo_limiter (Some (n, t0))) =
     (if 900000 \<le> t - t0 then (Allow, demo_limiter None)
      else (if 5 \<le> n then Blocked else Allow, demo_limiter (Some (n, t0))))"
  "snd (limiter_failure t (IpV4 0) (demo_limiter None)) = demo_limiter (Some (1, t))"
  "t - t0 < 900000 \<Longrightarrow> snd (limiter_failure t (IpV4 0) (demo_limiter (Some (n, t0)))) = demo_limiter (Some (Suc n, t0))"
  by (auto simp: demo_limiter_def limiter_check_def limiter_snapshot_def limiter_failure_def window_over_def Let_def
      fun_eq_iff)

text \<open>The window of the login limiter does not slide. It starts with the first failure and is
  thrown away as a whole: after one failure at time 0 and three just before the window ends, five
  more are allowed right after its end, so that eight passwords from one address are compared
  within one millisecond, although at most five failures in 15 minutes are meant to be possible.\<close>

theorem login_window_not_sliding:
  "guesses demo_auth demo_crypto (IpV4 0)
     (concat (List.map demo_guess ([0] @ replicate 3 (default_window - 1) @ replicate 5 default_window)))
     (limiter_new default_max_failures default_window, demo_store db_migrated, []) = 1 + 3 + 5"
proof -
  have r: "replicate 3 x = [x, x, x]" "replicate 5 x = [x, x, x, x, x]" for x :: nat
    by (simp_all add: numeral_eq_Suc)
  have "limiter_new default_max_failures default_window = demo_limiter None"
    by (simp add: limiter_new_def demo_limiter_def default_window_def default_max_failures_def fun_eq_iff)
  moreover note last_guess = demo_guess_step [where es = "[]", simplified append_Nil2]
  ultimately show ?thesis
    by (simp only: r append.simps list.map concat.simps append_Nil2)
       (simp add: demo_guess_step last_guess demo_limiter_steps default_window_def)
qed

text \<open>Four wrong passwords, one after the other, leave one more before the address is blocked; three
  logins at once are then all admitted, and seven passwords are compared.\<close>

definition demo_race :: "login_event list" where
  "demo_race = concat (List.map demo_guess [0, 0, 0, 0]) @
     [LoginCheck 0 0 (IpV4 0) demo_wrong, LoginCheck 1 0 (IpV4 0) demo_wrong, LoginCheck 2 0 (IpV4 0) demo_wrong,
      LoginCompare 0, LoginCompare 1, LoginCompare 2, LoginFinish 0 False 0 0, LoginFinish 1 False 0 0, LoginFinish 2 False 0 0]"

lemma concurrent_logins_pass:
  "guesses demo_auth cy (IpV4 0) demo_race (demo_limiter None, demo_store db_migrated, []) = 7"
  "most_under_way demo_auth cy (IpV4 0) demo_race (demo_limiter None, demo_store db_migrated, []) = 3"
proof -
  note run = demo_check demo_compare demo_finish_event done_with_def demo_limiter_steps
  show "guesses demo_auth cy (IpV4 0) demo_race (demo_limiter None, demo_store db_migrated, []) = 7"
    unfolding demo_race_def
    by (simp only: list.map concat.simps append.simps append_assoc append_Nil2 demo_guess_step)
       (simp add: run guess_made_def del: login_step.simps(3))
  show "most_under_way demo_auth cy (IpV4 0) demo_race (demo_limiter None, demo_store db_migrated, []) = 3"
    unfolding demo_race_def demo_guess_def
    by (simp add: run under_way_def del: login_step.simps(3))
qed

section \<open>A session works\<close>

lemma cookie_found:
  assumes "graphic sid" "CHR '';'' \<notin> set sid"
  shows "session_id_from_cookie ((''cookie'', session_cookie @ ''='' @ sid) # hs) = Some sid"
proof -
  let ?v = "session_cookie @ ''='' @ sid"
  have g: "graphic ?v" using assms(1) by (simp add: graphic_def session_cookie_def)
  moreover have "33 \<le> k \<and> k < 127 \<Longrightarrow> 32 \<le> k \<and> k < 127 \<or> k = 9" for k :: nat by simp
  ultimately have "header_str ?v = Some ?v" unfolding header_str_def graphic_def list_all_iff by (meson list.pred_mono_strong)
  moreover have "split_on (CHR '';'') ?v = [?v]"
    by (rule split_on_none) (use assms(2) in \<open>simp add: session_cookie_def\<close>)
  moreover have "split_once (CHR ''='') ?v = Some (session_cookie, sid)"
    by (simp add: split_once_Some session_cookie_def)
  moreover have "trim_str ?v = ?v" by (rule trim_graphic [OF g])
  ultimately show ?thesis by simp
qed

lemma login_Inr:
  assumes "login env secure now inst ip (Some q) l s = (Inr v, l', s')"
  obtains u a se s2 where "find (\<lambda>x. us_name x = lq_username q) (db_users (st_db s)) = Some u"
    "av_verify env (us_hash u) (lq_password q)" "session_create env now (us_id u) s2 = (Inr se, s')"
    "db_users (st_db s2) = db_users (st_db s)" "lv_cookie v = session_cookie_value (se_id se) secure"
    "lv_csrf v = se_csrf se" "lv_user v = \<lparr>au_id = us_id u, au_name = us_name u\<rparr>"
proof -
  from assms obtain s1 u se where
    f: "user_find_by_username (lq_username q) s = (Inr (Some u), s1)" and av: "av_verify env (us_hash u) (lq_password q)"
    and c: "session_create env now (us_id u) (snd (session_delete_expired env now s1)) = (Inr se, s')"
    and v: "v = \<lparr>lv_user = \<lparr>au_id = us_id u, au_name = us_name u\<rparr>, lv_csrf = se_csrf se,
              lv_cookie = session_cookie_value (se_id se) secure\<rparr>"
    by (auto simp: login_def Let_def split: prod.splits rate_decision.splits option.splits sum.splits if_splits)
  from f have uf: "find (\<lambda>x. us_name x = lq_username q) (db_users (st_db s)) = Some u" "st_db s1 = st_db s"
    by (auto simp: user_find_by_username_def mapping_err_eq_Inr dest!: select_Inr)
  have "desired_part (st_db (snd (session_delete_expired env now s1))) = desired_part (st_db s1)"
    using desired_same [OF session_statements_desired(3), of env now s1 "fst (session_delete_expired env now s1)"
        "snd (session_delete_expired env now s1)"] by simp
  with uf that [OF uf(1) av c] v show thesis by (simp add: desired_part_def)
qed

lemma session_create_Inr:
  assumes "session_create env now uid s = (Inr se, s')"
  shows "find (\<lambda>r. se_id r = se_id se) (db_sessions (st_db s')) = Some se \<and> se_user se = uid \<and>
    db_users (st_db s') = db_users (st_db s) \<and> se_expires se = expires_at_rfc3339 env now \<and>
    (\<exists>n. se_id se = av_uuid env n)"
proof -
  from assms have i: "insert_session se (st_db s) = Inr ((), st_db s')" and e: "se_user se = uid"
      "se_expires se = expires_at_rfc3339 env now" "se_id se = av_uuid env (st_draws s)"
    by (auto simp: session_create_def andthen_eq_Inr mapping_err_eq_Inr draw_def Let_def dest!: stmt_Inr)
  from i have n: "se_id se \<notin> se_id ` set (db_sessions (st_db s))"
    and d: "(st_db s)\<lparr>db_sessions := db_sessions (st_db s) @ [se]\<rparr> = st_db s'"
    by (auto simp: insert_session_def split: if_splits)
  have "\<forall>r\<in>set (db_sessions (st_db s)). se_id r \<noteq> se_id se"
  proof
    fix r
    assume "r \<in> set (db_sessions (st_db s))"
    then have "se_id r \<in> se_id ` set (db_sessions (st_db s))" by (rule imageI)
    with n show "se_id r \<noteq> se_id se" by metis
  qed
  then have "find (\<lambda>r. se_id r = se_id se) (db_sessions (st_db s)) = None" by (auto simp: find_None_iff)
  then have "find (\<lambda>r. se_id r = se_id se) (db_sessions (st_db s')) = Some se"
    unfolding d [symmetric] by (simp add: find_append)
  moreover have "db_users (st_db s') = db_users (st_db s)" unfolding d [symmetric] by simp
  ultimately show ?thesis using e by blast
qed

text \<open>C22: A login works until it expires. After a successful login, a request that sends back the
  cookie up to its first semicolon and the token is let through as the same user, at any time
  before 30 days have passed, reading or writing, if the statements of that request do not fail.\<close>

theorem login_then_guard:
  assumes "login env secure now inst ip (Some q) l s = (Inr v, l', s')"
    and "st_faults s' = []" and "distinct (List.map us_id (db_users (st_db s)))"
    and "\<And>n. graphic (av_uuid env n) \<and> CHR '';'' \<notin> set (av_uuid env n)"
    and "Option.bind (av_format env (now + session_ttl)) (av_parse env) = Some (now + session_ttl)"
    and "now' < now + session_ttl"
    and "hr_headers rq = [(''cookie'', takeWhile (\<lambda>c. c \<noteq> CHR '';'') (lv_cookie v)), (csrf_header, lv_csrf v)]"
    and "header_str (lv_csrf v) = Some (lv_csrf v)"
  shows "\<exists>sid. auth_guard env now' rq k s' = k (lv_user v) (lv_csrf v) sid s'"
proof -
  from assms(1) obtain u se s2 where uf: "find (\<lambda>x. us_name x = lq_username q) (db_users (st_db s)) = Some u"
    and c: "session_create env now (us_id u) s2 = (Inr se, s')" and us: "db_users (st_db s2) = db_users (st_db s)"
    and v: "lv_cookie v = session_cookie_value (se_id se) secure" "lv_csrf v = se_csrf se"
      "lv_user v = \<lparr>au_id = us_id u, au_name = us_name u\<rparr>"
    by (elim login_Inr)
  note cr = session_create_Inr [OF c]
  then have sid: "graphic (se_id se)" "CHR '';'' \<notin> set (se_id se)" using assms(4) by metis+
  have "takeWhile (\<lambda>c. c \<noteq> CHR '';'') (lv_cookie v) = session_cookie @ ''='' @ se_id se"
    using sid(2) by (auto simp: v session_cookie_value_def session_cookie_def takeWhile_append)
  then have cookie: "session_id_from_cookie (hr_headers rq) = Some (se_id se)"
    using cookie_found [OF sid] assms(7) by simp
  have live: "\<not> is_expired env now' (se_expires se)"
    using assms(5,6) cr by (auto simp: is_expired_def expires_at_rfc3339_def bind_eq_Some_conv)
  have token: "header_token (hr_headers rq) = se_csrf se"
    using assms(7,8) v(2) by (simp add: header_token_def csrf_header_def)
  from uf have "u \<in> set (db_users (st_db s))" by (auto simp: find_Some_iff)
  moreover have "distinct (List.map us_id us) \<Longrightarrow> u \<in> set us \<Longrightarrow> find (\<lambda>x. us_id x = us_id u) us = Some u" for us
    by (induction us) auto
  ultimately have user: "find (\<lambda>x. us_id x = us_id u) (db_users (st_db s')) = Some u"
    using assms(3) cr us by simp
  have "session_get env now' (se_id se) s' = (Inr (Some se), s')"
    using cr live assms(2) by (simp add: session_get_def andthen_def mapping_err_def)
  moreover have "user_get (se_user se) s' = (Inr (Some u), s')"
    using user cr assms(2) by (simp add: user_get_def mapping_err_def)
  moreover have "session_touch (se_id se) s' = (Inr (), s')"
    using assms(2) by (simp add: session_touch_def mapping_err_def)
  ultimately show ?thesis
    using cookie token v by (auto simp: auth_guard_def)
qed

section \<open>Concrete requests\<close>

definition demo_login :: auth_env where
  "demo_login = \<lparr>av_hash = (\<lambda>_ p. Some p), av_verify = (\<lambda>h p. h = p), av_uuid = (\<lambda>n. replicate (Suc n) CHR ''a''),
     av_parse = (\<lambda>_. Some session_ttl), av_format = (\<lambda>_. Some ''t'')\<rparr>"

definition demo_admin :: database where
  "demo_admin = db_migrated\<lparr>db_instances := [default_instance 1 ''one'' None],
     db_users := [\<lparr>us_id = 1, us_name = ''admin'', us_hash = ''secret''\<rparr>],
     db_sessions := [\<lparr>se_id = ''x'', se_user = 1, se_csrf = ''y'', se_expires = ''t''\<rparr>]\<rparr>"

definition demo_request :: http_request where
  "demo_request = \<lparr>hr_method = ''POST'', hr_headers = [(''cookie'', ''warpdeck_session=x''), (''x-csrf-token'', ''y'')]\<rparr>"

theorem changes_need_session_witness:
  "\<exists>l' s'. serve demo_login demo_crypto (0, Api demo_request (CallStop 1)) (limiter_new 5 10, demo_store demo_admin) = (l', s') \<and>
     List.map wi_desired (db_instances (st_db s')) = [''stopped''] \<and>
     (\<exists>se \<in> set (db_sessions demo_admin). header_token (hr_headers demo_request) = se_csrf se)"
proof -
  obtain l' s' where r: "serve demo_login demo_crypto (0, Api demo_request (CallStop 1)) (limiter_new 5 10, demo_store demo_admin) = (l', s')"
    by fastforce
  have "List.map wi_desired (db_instances (st_db (snd (serve demo_login demo_crypto (0, Api demo_request (CallStop 1))
      (limiter_new 5 10, demo_store demo_admin))))) = [''stopped'']"
    by code_simp
  then have stopped: "List.map wi_desired (db_instances (st_db s')) = [''stopped'']" by (simp only: r snd_conv)
  moreover have "List.map wi_desired (db_instances (st_db (demo_store demo_admin))) = [''running'']"
    by (simp add: demo_store_def demo_admin_def default_instance_def)
  ultimately have "desired_part (st_db s') \<noteq> desired_part (st_db (demo_store demo_admin))"
    by (auto simp: desired_part_def)
  from changes_need_session [OF r this] r stopped show ?thesis by (auto simp: demo_store_def)
qed

theorem setup_only_once_witness:
  "length (db_users (st_db (snd (fold (serve demo_login demo_crypto)
     [(0, Setup (Some \<lparr>lq_username = ''a'', lq_password = ''12345678''\<rparr>)),
      (0, Setup (Some \<lparr>lq_username = ''b'', lq_password = ''12345678''\<rparr>))] (limiter_new 5 10, demo_store db_migrated))))) \<le> 1"
proof -
  have "length (db_users (st_db (demo_store db_migrated))) \<le> 1" by (simp add: demo_store_def db_migrated_def)
  from setup_only_once [OF this, of "fst (fold (serve demo_login demo_crypto)
     [(0, Setup (Some \<lparr>lq_username = ''a'', lq_password = ''12345678''\<rparr>)),
      (0, Setup (Some \<lparr>lq_username = ''b'', lq_password = ''12345678''\<rparr>))] (limiter_new 5 10, demo_store db_migrated))" _
      demo_login demo_crypto _ "limiter_new 5 10", OF prod.collapse] show ?thesis by (rule conjunct1)
qed


theorem login_then_guard_witness:
  "\<exists>v l' s' sid. login demo_login False 0 0 (IpV4 0) (Some \<lparr>lq_username = ''admin'', lq_password = ''secret''\<rparr>)
       (limiter_new 5 10) (demo_store demo_admin) = (Inr v, l', s') \<and>
     auth_guard demo_login 1 \<lparr>hr_method = ''POST'', hr_headers = [(''cookie'', takeWhile (\<lambda>c. c \<noteq> CHR '';'') (lv_cookie v)),
       (csrf_header, lv_csrf v)]\<rparr> me s' = (Inr (lv_user v, lv_csrf v), s')"
proof -
  have "case login demo_login False 0 0 (IpV4 0) (Some \<lparr>lq_username = ''admin'', lq_password = ''secret''\<rparr>)
       (limiter_new 5 10) (demo_store demo_admin) of
      (Inr v, l', s') \<Rightarrow> st_faults s' = [] \<and> header_str (lv_csrf v) = Some (lv_csrf v) | _ \<Rightarrow> False"
    by (simp add: login_def limiter_check_def limiter_snapshot_def limiter_new_def user_find_by_username_def mapping_err_def
        demo_store_def demo_admin_def demo_login_def session_delete_expired_def session_create_def andthen_def draw_def
        insert_session_def expires_at_rfc3339_def header_str_def Let_def)
  then obtain v l' s' where r: "login demo_login False 0 0 (IpV4 0) (Some \<lparr>lq_username = ''admin'', lq_password = ''secret''\<rparr>)
       (limiter_new 5 10) (demo_store demo_admin) = (Inr v, l', s')"
    and f: "st_faults s' = []" and h: "header_str (lv_csrf v) = Some (lv_csrf v)"
    by (auto split: prod.splits sum.splits)
  let ?rq = "\<lparr>hr_method = ''POST'', hr_headers = [(''cookie'', takeWhile (\<lambda>c. c \<noteq> CHR '';'') (lv_cookie v)),
       (csrf_header, lv_csrf v)]\<rparr>"
  have "\<exists>sid. auth_guard demo_login 1 ?rq me s' = me (lv_user v) (lv_csrf v) sid s'"
    by (rule login_then_guard [OF r f _ _ _ _ _ h])
       (simp_all add: demo_store_def demo_admin_def demo_login_def graphic_def session_ttl_def list_all_iff)
  with r show ?thesis by (auto simp: me_def)
qed

end
