(* ===== verification/WebUi.thy ===== *)
theory WebUi
  imports RuntimeEnv "HOL-Library.AList"
begin

text \<open>
  What surrounds the API: the web UI's static files with the fallback to \<open>index.html\<close>
  (\<open>src/app.rs\<close>) and the request-id layer around every handler
  (\<open>src/observability/mod.rs\<close>). The file system is a partial function from path names to
  contents, without symbolic links; JSON text is read and written by another crate
  (\<open>json_codec\<close>).
\<close>

section \<open>Static files\<close>

text \<open>The loop over the segments of the path, pushing onto a relative path.\<close>

fun push_segments :: "string list \<Rightarrow> string \<Rightarrow> string option" where
  "push_segments [] target = Some target"
| "push_segments (seg # segs) target =
     (if seg = [] then push_segments segs target
      else if seg = ''.'' \<or> seg = ''..'' then None
      else if CHR 0x5C \<in> set seg then None
      else push_segments segs (path_join target seg))"

definition resolve_ui_target :: "string \<Rightarrow> string \<Rightarrow> string option" where
  "resolve_ui_target ui_dir path =
     (let rel = dropWhile (\<lambda>c. c = CHR ''/'') path
      in map_option (\<lambda>target. path_join ui_dir (if target = [] then ''index.html'' else target))
           (push_segments (split_on (CHR ''/'') rel) []))"

definition cache_header_for :: "string \<Rightarrow> string" where
  "cache_header_for path =
     (if starts_with ''/assets/'' path then ''public, max-age=31536000, immutable'' else ''no-cache'')"

text \<open>\<open>Path::extension\<close> of the last segment: what follows its last dot, unless the dot is at the start.\<close>

definition path_extension :: "string \<Rightarrow> string" where
  "path_extension path =
     (case rsplit_once (CHR ''.'') (last (split_on (CHR ''/'') path)) of
        None \<Rightarrow> [] | Some (stem, ext) \<Rightarrow> if stem = [] then [] else ext)"

definition content_type_for :: "string \<Rightarrow> string" where
  "content_type_for path =
     (let e = to_ascii_lowercase (path_extension path) in
      if e = ''html'' then ''text/html; charset=utf-8''
      else if e = ''js'' \<or> e = ''mjs'' then ''text/javascript''
      else if e = ''css'' then ''text/css''
      else if e = ''svg'' then ''image/svg+xml''
      else if e = ''png'' then ''image/png''
      else if e = ''ico'' then ''image/x-icon''
      else if e = ''woff2'' then ''font/woff2''
      else if e = ''json'' then ''application/json''
      else ''application/octet-stream'')"

definition read_file :: "(string \<Rightarrow> bytes option) \<Rightarrow> string \<Rightarrow> (bytes \<times> string) option" where
  "read_file fs path = map_option (\<lambda>b. (b, content_type_for path)) (fs path)"

text \<open>A response; the body of an error is the error contract before it becomes text.\<close>

record web_request =
  wq_method :: string
  wq_path :: string
  wq_request_id :: string

datatype web_body = Bytes bytes | ErrorContract string string string

record web_response =
  ws_status :: nat
  ws_headers :: "(string \<times> string) list"
  ws_body :: web_body

definition api_not_found :: "string \<Rightarrow> string \<Rightarrow> string \<Rightarrow> web_response" where
  "api_not_found method path request_id =
     \<lparr>ws_status = 404, ws_headers = [(''content-type'', ''application/json'')],
      ws_body = ErrorContract ''NOT_FOUND'' (''no such endpoint: '' @ method @ '' '' @ path) request_id\<rparr>"

definition spa_call :: "(string \<Rightarrow> bytes option) \<Rightarrow> string \<Rightarrow> web_request \<Rightarrow> web_response" where
  "spa_call fs ui_dir rq =
     (let path = wq_path rq in
      if starts_with ''/api/'' path then api_not_found (wq_method rq) path (wq_request_id rq)
      else (case resolve_ui_target ui_dir path of
          None \<Rightarrow> \<lparr>ws_status = 404, ws_headers = [(''content-type'', ''text/plain; charset=utf-8'')],
                   ws_body = Bytes ''not found''\<rparr>
        | Some target \<Rightarrow>
            (case read_file fs target of
               Some (b, ct) \<Rightarrow>
                 \<lparr>ws_status = 200, ws_headers = [(''content-type'', ct), (''cache-control'', cache_header_for path)],
                  ws_body = Bytes b\<rparr>
             | None \<Rightarrow>
                 (case read_file fs (path_join ui_dir ''index.html'') of
                    Some (b, ct) \<Rightarrow>
                      \<lparr>ws_status = 200, ws_headers = [(''content-type'', ct), (''cache-control'', ''no-cache'')],
                       ws_body = Bytes b\<rparr>
                  | None \<Rightarrow>
                      \<lparr>ws_status = 404, ws_headers = [(''content-type'', ''text/plain; charset=utf-8'')],
                       ws_body = Bytes ''web ui not found: missing index.html in ui dir (`WARPDECK_UI_DIR`)''\<rparr>))))"

section \<open>Request ids\<close>

definition request_id_header :: string where "request_id_header = ''x-request-id''"

definition is_alnum :: "char \<Rightarrow> bool" where
  "is_alnum c \<longleftrightarrow> is_digit c \<or> (97 \<le> (of_char (ascii_lower c) :: nat) \<and> (of_char (ascii_lower c) :: nat) \<le> 122)"

definition sanitize_incoming :: "string \<Rightarrow> bool" where
  "sanitize_incoming value \<longleftrightarrow>
     1 \<le> length value \<and> length value \<le> 64 \<and>
     list_all (\<lambda>c. is_alnum c \<or> c \<in> {CHR ''-'', CHR ''_'', CHR ''.''}) value"

datatype json = JNull | JBool bool | JNumber string | JString string | JArray "json list" | JObject "(string \<times> json) list"

record json_codec =
  jc_parse :: "bytes \<Rightarrow> json option"
  jc_print :: "json \<Rightarrow> bytes option"

definition inject_value :: "string \<Rightarrow> json \<Rightarrow> json option" where
  "inject_value i v =
     (case v of
        JObject kvs \<Rightarrow>
          (case map_of kvs ''error'' of
             Some (JObject es) \<Rightarrow>
               Some (JObject (AList.update ''error'' (JObject (AList.update ''request_id'' (JString i) es)) kvs))
           | _ \<Rightarrow> None)
      | _ \<Rightarrow> None)"

definition inject_request_id :: "json_codec \<Rightarrow> bytes \<Rightarrow> string \<Rightarrow> bytes" where
  "inject_request_id jc body i =
     (case jc_parse jc body of
        None \<Rightarrow> body
      | Some v \<Rightarrow>
          (case inject_value i v of
             None \<Rightarrow> body
           | Some v' \<Rightarrow> (case jc_print jc v' of None \<Rightarrow> body | Some b \<Rightarrow> b)))"

record http_message =
  hm_status :: nat
  hm_headers :: "(string \<times> bytes) list"
  hm_body :: bytes

text \<open>The layer around a handler \<open>next\<close>, which is given the id; \<open>fresh\<close> is a new UUID. Inserting
  a header replaces every one of its name.\<close>

definition request_id_for :: "string \<Rightarrow> (string \<times> bytes) list \<Rightarrow> string" where
  "request_id_for fresh headers =
     (case Option.bind (map_of headers request_id_header) header_str of
        Some v \<Rightarrow> if sanitize_incoming v then v else fresh
      | None \<Rightarrow> fresh)"

definition request_id_layer :: "json_codec \<Rightarrow> string \<Rightarrow> (string \<Rightarrow> http_message) \<Rightarrow> (string \<times> bytes) list \<Rightarrow> http_message" where
  "request_id_layer jc fresh next_handler headers =
     (let i = request_id_for fresh headers;
          resp = next_handler i;
          stamped = resp\<lparr>hm_headers := (request_id_header, i) # filter (\<lambda>(k, _). k \<noteq> request_id_header) (hm_headers resp)\<rparr>
      in if 400 \<le> hm_status resp \<and> hm_status resp < 600
         then stamped\<lparr>hm_body := inject_request_id jc (hm_body resp) i,
                hm_headers := filter (\<lambda>(k, _). k \<noteq> ''content-length'') (hm_headers stamped)\<rparr>
         else stamped)"

section \<open>Where a path leads\<close>

text \<open>The meaning of a path name, independently of the code: the directories it passes through from
  the root, where an empty segment and a dot stay and two dots go up.\<close>

fun walk :: "string list \<Rightarrow> string list \<Rightarrow> string list" where
  "walk here [] = here"
| "walk here (s # ss) =
     walk (if s = [] \<or> s = ''.'' then here else if s = ''..'' then butlast here else here @ [s]) ss"

definition place :: "string \<Rightarrow> string list" where
  "place p = walk [] (split_on (CHR ''/'') p)"

lemma walk_append: "walk here (xs @ ys) = walk (walk here xs) ys"
  by (induction xs arbitrary: here) auto

lemma walk_join:
  "walk here (split_on (CHR ''/'') (path_join p q)) = walk (walk here (split_on (CHR ''/'') p)) (split_on (CHR ''/'') q)"
proof (cases "p \<noteq> [] \<and> last p = CHR ''/''")
  case True
  then obtain p' where p: "p = p' @ [CHR ''/'']" by (metis append_butlast_last_id)
  then have "path_join p q = p' @ CHR ''/'' # q" by (simp add: path_join_def)
  then show ?thesis by (simp add: p split_on_append walk_append)
next
  case False
  then show ?thesis by (auto simp: path_join_def split_on_append walk_append)
qed

definition safe_segment :: "string \<Rightarrow> bool" where
  "safe_segment s \<longleftrightarrow> s \<notin> {[], ''.'', ''..''} \<and> CHR ''/'' \<notin> set s"

lemma push_segments_walk:
  "push_segments segs t = Some t' \<Longrightarrow> \<forall>s\<in>set segs. CHR ''/'' \<notin> set s \<Longrightarrow>
    \<exists>ss. list_all safe_segment ss \<and> (t \<noteq> [] \<or> ss \<noteq> [] \<longrightarrow> t' \<noteq> []) \<and> (t = [] \<and> ss = [] \<longrightarrow> t' = []) \<and>
      (\<forall>here. walk here (split_on (CHR ''/'') t') = walk here (split_on (CHR ''/'') t) @ ss)"
proof (induction segs t rule: push_segments.induct)
  case (1 target)
  then show ?case by (intro exI [of _ "[]"]) auto
next
  case (2 seg segs target)
  show ?case
  proof (cases "seg = []")
    case True
    with 2 show ?thesis by simp
  next
    case False
    with 2(3) have s: "seg \<noteq> ''.''" "seg \<noteq> ''..''" "CHR 0x5C \<notin> set seg" "push_segments segs (path_join target seg) = Some t'"
      by (auto split: if_splits)
    with 2(2) [OF False] 2(4) obtain ss where ss: "list_all safe_segment ss"
      "\<forall>here. walk here (split_on (CHR ''/'') t') = walk here (split_on (CHR ''/'') (path_join target seg)) @ ss"
      "path_join target seg \<noteq> [] \<or> ss \<noteq> [] \<longrightarrow> t' \<noteq> []" by auto
    have "walk here (split_on (CHR ''/'') seg) = here @ [seg]" for here
      using False s 2(4) by (simp add: split_on_none)
    moreover have "path_join target seg \<noteq> []" using False by (simp add: path_join_def)
    moreover have "safe_segment seg" using s False 2(4) by (simp add: safe_segment_def)
    ultimately show ?thesis
      using ss by (intro exI [of _ "seg # ss"]) (simp add: walk_join)
  qed
qed

text \<open>The paths that lead to a file below the directory.\<close>

definition inside :: "string \<Rightarrow> string \<Rightarrow> bool" where
  "inside ui_dir p \<longleftrightarrow> (\<exists>ss. ss \<noteq> [] \<and> list_all safe_segment ss \<and> place p = place ui_dir @ ss)"

lemma inside_index: "inside ui_dir (path_join ui_dir ''index.html'')"
proof -
  have "split_on (CHR ''/'') ''index.html'' = [''index.html'']" by (simp add: split_on_none)
  then show ?thesis
    by (auto simp: inside_def place_def walk_join safe_segment_def intro!: exI [of _ "[''index.html'']"])
qed

lemma resolve_inside:
  assumes "resolve_ui_target ui_dir path = Some t"
  shows "inside ui_dir t"
proof -
  let ?segs = "split_on (CHR ''/'') (dropWhile (\<lambda>c. c = CHR ''/'') path)"
  from assms obtain t' where p: "push_segments ?segs [] = Some t'"
    and t: "t = path_join ui_dir (if t' = [] then ''index.html'' else t')"
    by (auto simp: resolve_ui_target_def Let_def)
  show ?thesis
  proof (cases "t' = []")
    case True
    with t show ?thesis by (simp add: inside_index)
  next
    case False
    from push_segments_walk [OF p] split_on_segment [of _ "CHR ''/''"] obtain ss where
      "list_all safe_segment ss" "ss = [] \<longrightarrow> t' = []"
      "\<forall>here. walk here (split_on (CHR ''/'') t') = walk here [[]] @ ss" by auto
    with False t show ?thesis by (auto simp: inside_def place_def walk_join)
  qed
qed

section \<open>Properties\<close>

text \<open>C14: The web UI serves nothing outside its directory. Whatever the path of a request, the
  response depends only on files whose names lead below the UI directory, in the sense of the
  independent reading of path names: two file systems that agree there give the same response, and
  every target that is opened is such a file. Dots, double slashes and backslashes do not escape.\<close>

theorem ui_path_confined:
  assumes "\<And>p. inside ui_dir p \<Longrightarrow> fs p = fs' p"
  shows "spa_call fs ui_dir rq = spa_call fs' ui_dir rq \<and>
    (\<forall>t. resolve_ui_target ui_dir (wq_path rq) = Some t \<longrightarrow> inside ui_dir t)"
proof -
  have "read_file fs t = read_file fs' t" if "inside ui_dir t" for t
    using assms [OF that] by (simp add: read_file_def)
  with resolve_inside [of ui_dir "wq_path rq"] inside_index [of ui_dir] show ?thesis
    by (auto simp: spa_call_def Let_def split: option.splits)
qed

text \<open>Every response carries exactly one request id, and it is harmless: at most 64 letters,
  digits, dots, dashes and underscores, so a client cannot put line breaks into headers or logs
  through it. The handler sees the same id, and if the body of an error response is an error
  contract then the body sent has that id in it and is otherwise the same contract.\<close>

theorem request_id_stamped:
  assumes "sanitize_incoming fresh"
  shows "\<exists>i. sanitize_incoming i \<and>
    filter (\<lambda>(k, _). k = request_id_header) (hm_headers (request_id_layer jc fresh h headers)) = [(request_id_header, i)] \<and>
    hm_status (request_id_layer jc fresh h headers) = hm_status (h i) \<and>
    (400 \<le> hm_status (h i) \<and> hm_status (h i) < 600 \<and> jc_parse jc (hm_body (h i)) = Some (JObject kvs) \<and>
     map_of kvs ''error'' = Some (JObject es) \<and>
     (\<forall>v. jc_print jc v \<noteq> None) \<longrightarrow>
       (\<exists>kvs' es'. jc_print jc (JObject kvs') = Some (hm_body (request_id_layer jc fresh h headers)) \<and>
          map_of kvs' = (map_of kvs)(''error'' \<mapsto> JObject es') \<and>
          map_of es' = (map_of es)(''request_id'' \<mapsto> JString i)))"
proof -
  let ?i = "request_id_for fresh headers"
  have "sanitize_incoming ?i" using assms by (simp add: request_id_for_def split: option.splits)
  moreover have "filter (\<lambda>(k, _). k = request_id_header) (hm_headers (request_id_layer jc fresh h headers)) = [(request_id_header, ?i)]"
    by (auto simp: request_id_layer_def Let_def filter_empty_conv request_id_header_def)
  moreover have "hm_status (request_id_layer jc fresh h headers) = hm_status (h ?i)"
    by (simp add: request_id_layer_def Let_def)
  moreover have "\<exists>kvs' es'. jc_print jc (JObject kvs') = Some (hm_body (request_id_layer jc fresh h headers)) \<and>
          map_of kvs' = (map_of kvs)(''error'' \<mapsto> JObject es') \<and>
          map_of es' = (map_of es)(''request_id'' \<mapsto> JString ?i)"
    if "400 \<le> hm_status (h ?i)" "hm_status (h ?i) < 600" "jc_parse jc (hm_body (h ?i)) = Some (JObject kvs)"
      "map_of kvs ''error'' = Some (JObject es)" "\<forall>v. jc_print jc v \<noteq> None"
  proof -
    let ?es = "AList.update ''request_id'' (JString ?i) es"
    let ?kvs = "AList.update ''error'' (JObject ?es) kvs"
    from that(5) obtain b where "jc_print jc (JObject ?kvs) = Some b" by blast
    with that show ?thesis
      by (intro exI [of _ ?kvs] exI [of _ ?es])
         (simp add: request_id_layer_def Let_def inject_request_id_def inject_value_def AList.update_conv')
  qed
  ultimately show ?thesis by blast
qed

section \<open>Witnesses\<close>

text \<open>A file system that holds the index page and a secret beside the UI directory.\<close>

definition demo_site :: "bool \<Rightarrow> string \<Rightarrow> bytes option" where
  "demo_site secret p =
     (if p = ''/ui/index.html'' then Some ''page''
      else if p = ''/master.key'' \<and> secret then Some ''key'' else None)"

theorem ui_path_confined_witness:
  "spa_call (demo_site True) ''/ui'' \<lparr>wq_method = ''GET'', wq_path = ''/../master.key'', wq_request_id = []\<rparr> =
   spa_call (demo_site False) ''/ui'' \<lparr>wq_method = ''GET'', wq_path = ''/../master.key'', wq_request_id = []\<rparr>"
proof (rule ui_path_confined [THEN conjunct1])
  fix p
  assume "inside ''/ui'' p"
  moreover have "place ''/ui'' = [''ui'']" by code_simp
  moreover have "place ''/master.key'' = [''master.key'']" by code_simp
  ultimately show "demo_site True p = demo_site False p" by (auto simp: demo_site_def inside_def)
qed

definition demo_codec :: json_codec where
  "demo_codec = \<lparr>jc_parse = (\<lambda>b. if b = ''e'' then Some (JObject [(''error'', JObject [(''code'', JString ''X'')])]) else None),
     jc_print = (\<lambda>v. Some (if v = JNull then ''n'' else ''v''))\<rparr>"

theorem request_id_stamped_witness:
  "\<exists>i. sanitize_incoming i \<and>
     (request_id_header, i) \<in> set (hm_headers (request_id_layer demo_codec ''fresh''
        (\<lambda>_. \<lparr>hm_status = 404, hm_headers = [], hm_body = ''e''\<rparr>) [(request_id_header, ''a b'')]))"
proof -
  have "sanitize_incoming ''fresh''" by code_simp
  from request_id_stamped [OF this, of demo_codec "\<lambda>_. \<lparr>hm_status = 404, hm_headers = [], hm_body = ''e''\<rparr>"
      "[(request_id_header, ''a b'')]"]
  obtain i where "sanitize_incoming i" and
    f: "filter (\<lambda>(k, _). k = request_id_header) (hm_headers (request_id_layer demo_codec ''fresh''
        (\<lambda>_. \<lparr>hm_status = 404, hm_headers = [], hm_body = ''e''\<rparr>) [(request_id_header, ''a b'')])) = [(request_id_header, i)]"
    by blast
  from arg_cong [OF f, of set] have "(request_id_header, i) \<in> set (hm_headers (request_id_layer demo_codec ''fresh''
        (\<lambda>_. \<lparr>hm_status = 404, hm_headers = [], hm_body = ''e''\<rparr>) [(request_id_header, ''a b'')]))"
    by auto
  with \<open>sanitize_incoming i\<close> show ?thesis by blast
qed

end
