(* ===== verification/Config.thy ===== *)
theory Config
  imports RuntimeEnv
begin

text \<open>
  What the server reads before it starts: the environment (\<open>src/config.rs\<close>) and the master key
  (\<open>src/crypto/master_key.rs\<close>). The environment is a partial function from names to values.
  Base64 and the random source belong to other crates (\<open>key_codec\<close>); the files are a partial
  function from names to contents with the set of those that only their owner can read, and any
  operation on them can fail (\<open>kf_faults\<close>).
\<close>

section \<open>The environment\<close>

record app_config =
  ac_web_bind :: socket_addr
  ac_data_dir :: string
  ac_runtime_dir :: string
  ac_ui_dir :: string
  ac_database_url :: string
  ac_log_level :: string
  ac_master_key :: "string option"
  ac_secure_cookie :: bool
  ac_socks5_bind :: socket_addr
  ac_http_bind :: socket_addr

datatype config_error = Invalid (ce_var: string) (ce_value: string) (ce_reason: string)

definition default_data_dir :: string where "default_data_dir = ''/var/lib/warpdeck''"
definition default_runtime_dir :: string where "default_runtime_dir = ''/run/warpdeck''"
definition default_bind_ip :: ip_addr where "default_bind_ip = IpV4 0"
definition default_log_level :: string where "default_log_level = ''info''"

definition parse_port :: "string \<Rightarrow> string + port" where
  "parse_port v =
     (case parse_u16 v of
        None \<Rightarrow> Inl (''`'' @ v @ ''` is not a valid u16 port'')
      | Some p \<Rightarrow>
          if p = 0 then Inl (''`'' @ v @ ''` is 0; port must be in 1..=65535'') else Inr (of_nat p))"

definition parse_absolute_dir :: "string \<Rightarrow> string + string" where
  "parse_absolute_dir v =
     (if starts_with ''/'' v then Inr v else Inl (''`'' @ v @ ''` is not an absolute path''))"

text \<open>A variable that must parse when it is set, and one that counts as unset when it is empty.\<close>

definition env_parsed :: "(string \<Rightarrow> string option) \<Rightarrow> string \<Rightarrow> (string \<Rightarrow> string + 'a) \<Rightarrow> 'a \<Rightarrow> config_error + 'a" where
  "env_parsed env var parse dflt =
     (case env var of None \<Rightarrow> Inr dflt | Some v \<Rightarrow> map_err (Invalid var v) (parse v))"

definition env_nonempty :: "(string \<Rightarrow> string option) \<Rightarrow> string \<Rightarrow> string option" where
  "env_nonempty env var = (case env var of Some v \<Rightarrow> if v \<noteq> [] then Some v else None | None \<Rightarrow> None)"

definition env_or :: "(string \<Rightarrow> string option) \<Rightarrow> string \<Rightarrow> string \<Rightarrow> string" where
  "env_or env var dflt = (case env_nonempty env var of Some v \<Rightarrow> v | None \<Rightarrow> dflt)"

definition bind_addr :: "string \<Rightarrow> string + socket_addr" where
  "bind_addr v = ok_or ''not a valid SocketAddr'' (parse_socket_addr v)"

definition env_gateway :: "(string \<Rightarrow> string option) \<Rightarrow> config_error + unit" where
  "env_gateway env =
     (case env_nonempty env ''WARPDECK_GATEWAY'' of
        None \<Rightarrow> Inr ()
      | Some v \<Rightarrow>
          if v \<noteq> ''builtin''
          then Inl (Invalid ''WARPDECK_GATEWAY'' v
            ''the gost gateway was removed in Phase C; only `builtin` is supported (or unset the variable)'')
          else Inr ())"

definition config_from :: "(string \<Rightarrow> string option) \<Rightarrow> config_error + app_config" where
  "config_from env =
     bind_res (env_parsed env ''WARPDECK_BIND'' (\<lambda>v. ok_or ''not a valid IP address'' (parse_ip v)) default_bind_ip) (\<lambda>bind_ip.
     bind_res (env_parsed env ''WARPDECK_PORT'' parse_port (of_nat web_port)) (\<lambda>web_p.
     bind_res (env_parsed env ''WARPDECK_DATA_DIR'' parse_absolute_dir default_data_dir) (\<lambda>data_dir.
     bind_res (env_parsed env ''WARPDECK_RUNTIME_DIR'' parse_absolute_dir default_runtime_dir) (\<lambda>runtime_dir.
     bind_res (env_gateway env) (\<lambda>_.
     bind_res (env_parsed env ''WARPDECK_SOCKS5_BIND'' bind_addr \<lparr>sa_ip = IpV4 0, sa_port = of_nat socks5_port\<rparr>) (\<lambda>socks5.
     bind_res (env_parsed env ''WARPDECK_HTTP_BIND'' bind_addr \<lparr>sa_ip = IpV4 0, sa_port = of_nat http_port\<rparr>) (\<lambda>http.
       Inr \<lparr>ac_web_bind = \<lparr>sa_ip = bind_ip, sa_port = web_p\<rparr>, ac_data_dir = data_dir, ac_runtime_dir = runtime_dir,
         ac_ui_dir = env_or env ''WARPDECK_UI_DIR'' ''ui'',
         ac_database_url = env_or env ''DATABASE_URL'' (''sqlite:'' @ path_join data_dir ''warpdeck.db''),
         ac_log_level = env_or env ''WARPDECK_LOG'' default_log_level,
         ac_master_key = env_nonempty env ''WARPDECK_MASTER_KEY'',
         ac_secure_cookie = (case env ''WARPDECK_SECURE_COOKIE'' of
            Some v \<Rightarrow> to_ascii_lowercase v = ''true'' \<or> v = ''1'' | None \<Rightarrow> False),
         ac_socks5_bind = socks5, ac_http_bind = http\<rparr>)))))))"

section \<open>The master key\<close>

definition key_len :: nat where "key_len = 32"

definition master_key_file :: string where "master_key_file = ''master.key''"

record key_codec =
  kc_encode :: "bytes \<Rightarrow> string"
  kc_decode :: "string \<Rightarrow> bytes option"

record key_fs =
  kf_files :: "string \<Rightarrow> bytes option"
  kf_private :: "string set"
  kf_faults :: "string option list"

text \<open>One operation on the file system; the head of \<open>kf_faults\<close> says whether it fails.\<close>

definition fs_op :: "(key_fs \<Rightarrow> 'a \<times> key_fs) \<Rightarrow> key_fs \<Rightarrow> (string + 'a) \<times> key_fs" where
  "fs_op f s =
     (case kf_faults s of
        Some e # fs \<Rightarrow> (Inl e, s\<lparr>kf_faults := fs\<rparr>)
      | None # fs \<Rightarrow> (case f (s\<lparr>kf_faults := fs\<rparr>) of (x, s1) \<Rightarrow> (Inr x, s1))
      | [] \<Rightarrow> (case f s of (x, s1) \<Rightarrow> (Inr x, s1)))"

definition set_private :: "string \<Rightarrow> key_fs \<Rightarrow> key_fs" where
  "set_private p s = snd (fs_op (\<lambda>s. ((), s\<lparr>kf_private := insert p (kf_private s)\<rparr>)) s)"

definition append_file :: "string \<Rightarrow> bytes \<Rightarrow> key_fs \<Rightarrow> unit \<times> key_fs" where
  "append_file p b s =
     ((), s\<lparr>kf_files := (kf_files s)(p \<mapsto> (case kf_files s p of None \<Rightarrow> b | Some old \<Rightarrow> old @ b))\<rparr>)"

text \<open>\<open>OpenOptions::create_new\<close>: an error when the file is there.\<close>

definition create_new :: "string \<Rightarrow> key_fs \<Rightarrow> (string + unit) \<times> key_fs" where
  "create_new p s =
     (case fs_op (\<lambda>s. if kf_files s p = None then (Inr (), s\<lparr>kf_files := (kf_files s)(p \<mapsto> [])\<rparr>) else (Inl ''File exists'', s)) s of
        (Inl e, s1) \<Rightarrow> (Inl e, s1)
      | (Inr r, s1) \<Rightarrow> (r, s1))"

definition rename_file :: "string \<Rightarrow> string \<Rightarrow> key_fs \<Rightarrow> unit \<times> key_fs" where
  "rename_file p q s =
     ((), s\<lparr>kf_files := (kf_files s)(q := kf_files s p, p := None),
        kf_private := (if p \<in> kf_private s then insert q (kf_private s) else kf_private s - {q}) - {p}\<rparr>)"

definition read_key_file :: "key_codec \<Rightarrow> string \<Rightarrow> key_fs \<Rightarrow> (string + bytes) \<times> key_fs" where
  "read_key_file kc path s =
     (case fs_op (\<lambda>s. (case kf_files s path of
             None \<Rightarrow> Inl ''No such file'' | Some b \<Rightarrow> if valid_utf8 b then Inr b else Inl ''invalid UTF-8'', s)) s of
        (Inl e, s1) \<Rightarrow> (Inl (''cannot read key file: '' @ e), s1)
      | (Inr (Inl e), s1) \<Rightarrow> (Inl (''cannot read key file: '' @ e), s1)
      | (Inr (Inr raw), s1) \<Rightarrow>
          (case kc_decode kc (trim_str raw) of
             None \<Rightarrow> (Inl ''master.key is not valid base64'', s1)
           | Some k \<Rightarrow>
               if length k \<noteq> key_len then (Inl ''master.key must contain 32 bytes'', s1)
               else (Inr k, set_private path s1)))"

definition load_or_create :: "key_codec \<Rightarrow> bytes \<Rightarrow> string option \<Rightarrow> string \<Rightarrow> key_fs \<Rightarrow> (string + bytes) \<times> key_fs" where
  "load_or_create kc random env_key data_dir s =
     (case (case env_key of Some v \<Rightarrow> if v \<noteq> [] then Some v else None | None \<Rightarrow> None) of
        Some raw \<Rightarrow>
          (case kc_decode kc raw of
             None \<Rightarrow> (Inl ''WARPDECK_MASTER_KEY is not valid base64'', s)
           | Some k \<Rightarrow>
               if length k \<noteq> key_len then (Inl ''WARPDECK_MASTER_KEY must decode to 32 bytes'', s) else (Inr k, s))
      | None \<Rightarrow>
          (let path = path_join data_dir master_key_file;
               tmp = path_join data_dir (master_key_file @ ''.tmp'')
           in if kf_files s path \<noteq> None then read_key_file kc path s
              else
               (case fs_op (\<lambda>s. ((), s)) s of
                  (Inl e, s1) \<Rightarrow> (Inl (''cannot create data dir: '' @ e), s1)
                | (Inr _, s1) \<Rightarrow>
               (case create_new tmp s1 of
                  (Inl e, s2) \<Rightarrow> (Inl (''cannot create key file: '' @ e), s2)
                | (Inr _, s2) \<Rightarrow>
               (case fs_op (append_file tmp (kc_encode kc random)) s2 of
                  (Inl e, s3) \<Rightarrow> (Inl (''cannot write key file: '' @ e), s3)
                | (Inr _, s3) \<Rightarrow>
               (case fs_op (append_file tmp [CHR 0x0A]) s3 of
                  (Inl e, s4) \<Rightarrow> (Inl (''cannot write key file: '' @ e), s4)
                | (Inr _, s4) \<Rightarrow>
               (case fs_op (rename_file tmp path) (set_private tmp s4) of
                  (Inl e, s5) \<Rightarrow> (Inl (''cannot finalize key file: '' @ e), s5)
                | (Inr _, s5) \<Rightarrow> (Inr random, set_private path s5))))))))"

section \<open>Facts\<close>

definition env_vars :: "string list" where
  "env_vars = [''WARPDECK_BIND'', ''WARPDECK_PORT'', ''WARPDECK_DATA_DIR'', ''WARPDECK_RUNTIME_DIR'', ''WARPDECK_GATEWAY'',
     ''WARPDECK_SOCKS5_BIND'', ''WARPDECK_HTTP_BIND'', ''WARPDECK_UI_DIR'', ''DATABASE_URL'', ''WARPDECK_LOG'',
     ''WARPDECK_MASTER_KEY'', ''WARPDECK_SECURE_COOKIE'']"

lemma env_parsed_Inr:
  "env_parsed env var parse dflt = Inr x \<longleftrightarrow> (case env var of None \<Rightarrow> x = dflt | Some v \<Rightarrow> parse v = Inr x)"
  by (auto simp: env_parsed_def split: option.splits)

lemma env_parsed_Inl:
  "env_parsed env var parse dflt = Inl e \<longleftrightarrow> (\<exists>v r. env var = Some v \<and> parse v = Inl r \<and> e = Invalid var v r)"
  by (auto simp: env_parsed_def map_err_def split: option.splits sum.splits)

lemma env_gateway_Inl: "env_gateway env = Inl e \<Longrightarrow> \<exists>v. env ''WARPDECK_GATEWAY'' = Some v \<and> v \<noteq> ''builtin'' \<and> (\<exists>r. e = Invalid ''WARPDECK_GATEWAY'' v r)"
  by (auto simp: env_gateway_def env_nonempty_def split: option.splits if_splits)

lemma parse_port_Inr: "parse_port v = Inr p \<Longrightarrow> p \<noteq> 0 \<and> parse_u16 v = Some (unat p)"
  using parse_uint_bound [of 65535 v]
  by (auto simp: parse_port_def unat_of_nat word_of_nat_eq_0_iff dvd_def split: option.splits if_splits)

lemma parse_absolute_Inr: "parse_absolute_dir v = Inr d \<longleftrightarrow> d = v \<and> starts_with ''/'' v"
  by (auto simp: parse_absolute_dir_def)

text \<open>A refusal that names a variable which is set, with its value.\<close>

definition blames :: "(string \<Rightarrow> string option) \<Rightarrow> config_error \<Rightarrow> bool" where
  "blames env e \<longleftrightarrow> ce_var e \<in> set env_vars \<and> env (ce_var e) = Some (ce_value e)"

lemma blames_parsed: "env_parsed env var parse dflt = Inl e \<Longrightarrow> var \<in> set env_vars \<Longrightarrow> blames env e"
  by (auto simp: env_parsed_Inl blames_def)

lemma blames_gateway: "env_gateway env = Inl e \<Longrightarrow> blames env e"
  by (auto simp: blames_def env_vars_def dest!: env_gateway_Inl)

lemma bind_res_blames:
  "bind_res r f = Inl e \<Longrightarrow> (r = Inl e \<Longrightarrow> blames env e) \<Longrightarrow> (\<And>x. r = Inr x \<Longrightarrow> f x = Inl e \<Longrightarrow> blames env e) \<Longrightarrow> blames env e"
  by (cases r) (auto simp: bind_res_def)

lemma config_blames: "config_from env = Inl e \<Longrightarrow> blames env e"
  unfolding config_from_def
  by (erule bind_res_blames, (erule blames_parsed blames_gateway, simp add: env_vars_def)?)+
     (simp_all add: blames_gateway)

text \<open>C33: A configuration that is accepted is usable, and a refusal is to the point. If the
  environment is accepted, the directories are absolute, the web port is not 0, the removed
  gateway was not asked for, and an empty database URL means the file in the data directory. If it
  is refused, the error names a variable that is set, with its value. No variables matter but the
  twelve that the code reads; the documentation of \<open>from_env\<close> names eight of them.\<close>

theorem config_checked:
  "(case config_from env of
      Inr c \<Rightarrow> starts_with ''/'' (ac_data_dir c) \<and> starts_with ''/'' (ac_runtime_dir c) \<and> sa_port (ac_web_bind c) \<noteq> 0 \<and>
        env ''WARPDECK_GATEWAY'' \<in> {None, Some [], Some ''builtin''} \<and> ac_master_key c \<noteq> Some [] \<and>
        (env ''DATABASE_URL'' \<in> {None, Some []} \<longrightarrow> ac_database_url c = ''sqlite:'' @ path_join (ac_data_dir c) ''warpdeck.db'')
    | Inl e \<Rightarrow> ce_var e \<in> set env_vars \<and> env (ce_var e) = Some (ce_value e)) \<and>
   ((\<forall>v\<in>set env_vars. env' v = env v) \<longrightarrow> config_from env' = config_from env)"
proof (intro conjI impI)
  show "case config_from env of
      Inr c \<Rightarrow> starts_with ''/'' (ac_data_dir c) \<and> starts_with ''/'' (ac_runtime_dir c) \<and> sa_port (ac_web_bind c) \<noteq> 0 \<and>
        env ''WARPDECK_GATEWAY'' \<in> {None, Some [], Some ''builtin''} \<and> ac_master_key c \<noteq> Some [] \<and>
        (env ''DATABASE_URL'' \<in> {None, Some []} \<longrightarrow> ac_database_url c = ''sqlite:'' @ path_join (ac_data_dir c) ''warpdeck.db'')
    | Inl e \<Rightarrow> ce_var e \<in> set env_vars \<and> env (ce_var e) = Some (ce_value e)"
  proof (cases "config_from env")
    case (Inl e)
    with config_blames [OF Inl] show ?thesis by (simp add: blames_def)
  next
    case (Inr c)
    then obtain ip p d r g s h where
      "env_parsed env ''WARPDECK_PORT'' parse_port (of_nat web_port) = Inr p"
      "env_parsed env ''WARPDECK_DATA_DIR'' parse_absolute_dir default_data_dir = Inr d"
      "env_parsed env ''WARPDECK_RUNTIME_DIR'' parse_absolute_dir default_runtime_dir = Inr r"
      "env_gateway env = Inr g"
      "c = \<lparr>ac_web_bind = \<lparr>sa_ip = ip, sa_port = p\<rparr>, ac_data_dir = d, ac_runtime_dir = r,
         ac_ui_dir = env_or env ''WARPDECK_UI_DIR'' ''ui'',
         ac_database_url = env_or env ''DATABASE_URL'' (''sqlite:'' @ path_join d ''warpdeck.db''),
         ac_log_level = env_or env ''WARPDECK_LOG'' default_log_level,
         ac_master_key = env_nonempty env ''WARPDECK_MASTER_KEY'',
         ac_secure_cookie = (case env ''WARPDECK_SECURE_COOKIE'' of
            Some v \<Rightarrow> to_ascii_lowercase v = ''true'' \<or> v = ''1'' | None \<Rightarrow> False),
         ac_socks5_bind = s, ac_http_bind = h\<rparr>"
      by (auto simp: config_from_def bind_res_eq_Inr)
    note c = this
    have roots: "starts_with ''/'' default_data_dir" "starts_with ''/'' default_runtime_dir" "of_nat web_port \<noteq> (0 :: port)"
      by (simp_all add: default_data_dir_def default_runtime_dir_def starts_with_iff web_port_def)
    have "starts_with ''/'' d" "starts_with ''/'' r"
      using c(2,3) roots by (auto simp: env_parsed_Inr parse_absolute_Inr split: option.splits)
    moreover have "p \<noteq> 0" using c(1) roots by (auto simp: env_parsed_Inr dest: parse_port_Inr split: option.splits)
    moreover have "env ''WARPDECK_GATEWAY'' \<in> {None, Some [], Some ''builtin''}"
      using c(4) by (auto simp: env_gateway_def env_nonempty_def split: option.splits if_splits)
    moreover have "env_nonempty env v \<noteq> Some []" for v by (simp add: env_nonempty_def split: option.splits)
    moreover have "env v \<in> {None, Some []} \<Longrightarrow> env_or env v x = x" for v x
      by (auto simp: env_or_def env_nonempty_def)
    ultimately show ?thesis using Inr c(5) by simp
  qed
next
  assume "\<forall>v\<in>set env_vars. env' v = env v"
  then show "config_from env' = config_from env"
    by (simp add: config_from_def env_vars_def env_parsed_def env_gateway_def env_nonempty_def env_or_def)
qed

text \<open>Base64 as the key file needs it: decoding inverts encoding, and the text is visible ASCII.\<close>

definition key_codec_ok :: "key_codec \<Rightarrow> bool" where
  "key_codec_ok kc \<longleftrightarrow> (\<forall>k. kc_decode kc (kc_encode kc k) = Some k \<and> graphic (kc_encode kc k))"

lemma graphic_ascii: "graphic s \<Longrightarrow> is_ascii (s @ [CHR 0x0A])"
  by (auto simp: graphic_def is_ascii_def list_all_iff)

lemma key_paths: "path_join d master_key_file \<noteq> path_join d (master_key_file @ ''.tmp'')"
  by (simp add: path_join_def master_key_file_def)

lemma fs_op_Inr: "fs_op f s = (Inr x, s') \<Longrightarrow> \<exists>fs s1. f (s\<lparr>kf_faults := fs\<rparr>) = (x, s1) \<and> s' = s1"
  by (cases s) (auto simp: fs_op_def split: list.splits option.splits prod.splits)

lemma set_private_files [simp]: "kf_files (set_private p s) = kf_files s"
  by (auto simp: set_private_def fs_op_def split: list.splits option.splits)

lemma create_new_Inr: "create_new p s = (Inr u, s') \<Longrightarrow> kf_files s p = None \<and> kf_files s' = (kf_files s)(p \<mapsto> [])"
  by (auto simp: create_new_def split: prod.splits sum.splits if_splits dest!: fs_op_Inr)

lemma create_new_taken: "kf_files s p \<noteq> None \<Longrightarrow> \<exists>e s'. create_new p s = (Inl e, s') \<and> kf_files s' = kf_files s"
  by (auto simp: create_new_def fs_op_def split: list.splits option.splits)

lemma load_or_create_Inr:
  assumes "load_or_create kc random None d s = (Inr k, s1)" and "kf_files s (path_join d master_key_file) = None"
  shows "k = random \<and> kf_files s1 (path_join d master_key_file) = Some (kc_encode kc random @ [CHR 0x0A])"
  using assms key_paths [of d]
  by (auto simp: load_or_create_def Let_def append_file_def rename_file_def split: prod.splits sum.splits
      dest!: create_new_Inr fs_op_Inr)

text \<open>C19: A generated master key is the key of every later start. If a start without the environment
  variable generates a key and succeeds, then a later start that finds that file and can read it
  uses the same key, whatever the random source gives then; so secrets encrypted before stay
  readable.\<close>

theorem master_key_stable:
  assumes "key_codec_ok kc" and "length random = key_len"
    and "kf_files s (path_join d master_key_file) = None" and "load_or_create kc random None d s = (Inr k, s1)"
    and "kf_files s2 (path_join d master_key_file) = kf_files s1 (path_join d master_key_file)" and "kf_faults s2 = []"
  shows "k = random \<and> (\<exists>s3. load_or_create kc random' None d s2 = (Inr k, s3) \<and> kf_files s3 = kf_files s2)"
proof -
  let ?raw = "kc_encode kc random @ [CHR 0x0A]"
  from load_or_create_Inr [OF assms(4,3)] have k: "k = random" "kf_files s1 (path_join d master_key_file) = Some ?raw" by auto
  have g: "graphic (kc_encode kc random)" "kc_decode kc (kc_encode kc random) = Some random"
    using assms(1) by (simp_all add: key_codec_ok_def)
  have "valid_utf8 ?raw" by (rule ascii_valid [OF graphic_ascii [OF g(1)]])
  then show ?thesis
    using k assms(2,5,6) g trim_graphic_newline [OF g(1)]
    by (simp add: load_or_create_def read_key_file_def fs_op_def)
qed

text \<open>One failed write during the first start blocks every later start: the temporary file stays
  behind, and creating it anew fails for ever, although nothing else is wrong.\<close>

theorem failed_key_creation_blocks:
  assumes "kf_files s (path_join d master_key_file) = None"
    and "kf_files s (path_join d (master_key_file @ ''.tmp'')) = None" and "kf_faults s = [None, None, Some e]"
  shows "\<exists>s1. load_or_create kc random None d s = (Inl (''cannot write key file: '' @ e), s1) \<and>
    (\<forall>s2 random'. kf_files s2 = kf_files s1 \<longrightarrow>
       (\<exists>e' s3. load_or_create kc random' None d s2 = (Inl e', s3) \<and> kf_files s3 = kf_files s2))"
proof -
  let ?tmp = "path_join d (master_key_file @ ''.tmp'')"
  let ?s1 = "s\<lparr>kf_files := (kf_files s)(?tmp \<mapsto> []), kf_faults := []\<rparr>"
  have "load_or_create kc random None d s = (Inl (''cannot write key file: '' @ e), ?s1)"
    using assms by (simp add: load_or_create_def Let_def fs_op_def create_new_def)
  moreover have "\<exists>e' s3. load_or_create kc random' None d s2 = (Inl e', s3) \<and> kf_files s3 = kf_files s2"
    if s2: "kf_files s2 = kf_files ?s1" for s2 random'
  proof (cases "fs_op (\<lambda>s. ((), s)) s2")
    case (Pair r s3)
    have "kf_files s3 = kf_files s2" using Pair by (auto simp: fs_op_def split: list.splits option.splits)
    moreover from this s2 create_new_taken [of s3 ?tmp] obtain e' s4 where
      "create_new ?tmp s3 = (Inl e', s4)" "kf_files s4 = kf_files s3" by auto
    ultimately show ?thesis
      using Pair s2 assms(1) key_paths [of d] by (cases r) (auto simp: load_or_create_def Let_def)
  qed
  ultimately show ?thesis by blast
qed

section \<open>Witnesses\<close>

theorem config_checked_witness:
  "config_from (\<lambda>v. if v = ''HOME'' then Some ''/root'' else None) = config_from (\<lambda>_. None)"
  by (rule config_checked [THEN conjunct2, rule_format]) (auto simp: env_vars_def)

text \<open>A codec with two letters for each byte.\<close>

definition letters :: "byte \<Rightarrow> string" where
  "letters c = [char_of (65 + (of_char c :: nat) div 16), char_of (65 + (of_char c :: nat) mod 16)]"

fun unletters :: "string \<Rightarrow> bytes option" where
  "unletters [] = Some []"
| "unletters [a] = None"
| "unletters (a # b # cs) = map_option (Cons (char_of (16 * ((of_char a :: nat) - 65) + (of_char b - 65)))) (unletters cs)"

definition demo_key_codec :: key_codec where
  "demo_key_codec = \<lparr>kc_encode = (\<lambda>k. concat (List.map letters k)), kc_decode = unletters\<rparr>"

lemma demo_key_codec_ok: "key_codec_ok demo_key_codec"
proof -
  have b: "(65 + (of_char c :: nat) div 16) mod 256 = 65 + of_char c div 16"
    "(65 + (of_char c :: nat) mod 16) mod 256 = 65 + of_char c mod 16" "(of_char c :: nat) div 16 < 16" for c
  proof -
    show "(of_char c :: nat) div 16 < 16" using nat_of_char_less_256 [of c] by linarith
    then show "(65 + (of_char c :: nat) div 16) mod 256 = 65 + of_char c div 16"
      "(65 + (of_char c :: nat) mod 16) mod 256 = 65 + of_char c mod 16" by simp_all
  qed
  have "unletters (letters c @ cs) = map_option (Cons c) (unletters cs)" for c cs
    by (simp add: letters_def b)
  then have "unletters (concat (List.map letters k)) = Some k" for k by (induction k) simp_all
  moreover have "graphic (letters c)" for c
    using b(3) [of c] by (simp add: graphic_def letters_def b(1,2))
  then have "graphic (concat (List.map letters k))" for k
    by (induction k) (auto simp: graphic_def)
  ultimately show ?thesis by (simp add: key_codec_ok_def demo_key_codec_def)
qed

definition demo_key_fs :: "string option list \<Rightarrow> key_fs" where
  "demo_key_fs faults = \<lparr>kf_files = (\<lambda>_. None), kf_private = {}, kf_faults = faults\<rparr>"

theorem master_key_stable_witness:
  "\<exists>s1 s3. load_or_create demo_key_codec (replicate 32 CHR ''k'') None ''/d'' (demo_key_fs []) = (Inr (replicate 32 CHR ''k''), s1) \<and>
     load_or_create demo_key_codec (replicate 32 CHR ''x'') None ''/d'' s1 = (Inr (replicate 32 CHR ''k''), s3)"
proof -
  obtain s1 where l: "load_or_create demo_key_codec (replicate 32 CHR ''k'') None ''/d'' (demo_key_fs []) = (Inr (replicate 32 CHR ''k''), s1)"
    "kf_faults s1 = []"
    by (simp add: load_or_create_def Let_def fs_op_def create_new_def demo_key_fs_def set_private_def append_file_def
        rename_file_def)
  have "length (replicate 32 (CHR ''k'')) = key_len" "kf_files (demo_key_fs []) (path_join ''/d'' master_key_file) = None"
    by (simp_all add: key_len_def demo_key_fs_def)
  from master_key_stable [OF demo_key_codec_ok this l(1) HOL.refl l(2)] l(1) show ?thesis by blast
qed

theorem failed_key_creation_blocks_witness:
  "\<exists>s1. load_or_create demo_key_codec (replicate 32 CHR ''k'') None ''/d'' (demo_key_fs [None, None, Some ''disk full'']) =
     (Inl ''cannot write key file: disk full'', s1) \<and>
     (\<exists>e' s3. load_or_create demo_key_codec (replicate 32 CHR ''k'') None ''/d'' s1 = (Inl e', s3))"
proof -
  let ?s = "demo_key_fs [None, None, Some ''disk full'']" and ?k = "replicate 32 (CHR ''k'')"
  have h: "kf_files ?s (path_join ''/d'' master_key_file) = None"
    "kf_files ?s (path_join ''/d'' (master_key_file @ ''.tmp'')) = None" "kf_faults ?s = [None, None, Some ''disk full'']"
    by (simp_all add: demo_key_fs_def)
  obtain s1 where s1: "load_or_create demo_key_codec ?k None ''/d'' ?s = (Inl (''cannot write key file: '' @ ''disk full''), s1)"
    "\<And>s2 random'. kf_files s2 = kf_files s1 \<Longrightarrow>
       \<exists>e' s3. load_or_create demo_key_codec random' None ''/d'' s2 = (Inl e', s3) \<and> kf_files s3 = kf_files s2"
    using failed_key_creation_blocks [OF h, of demo_key_codec ?k] by blast
  from s1(2) [OF HOL.refl, of ?k] obtain e' s3 where "load_or_create demo_key_codec ?k None ''/d'' s1 = (Inl e', s3)" by blast
  with s1(1) show ?thesis by (intro exI [of _ s1]) simp
qed

end
