(* ===== verification/Logs.thy ===== *)
theory Logs
  imports RuntimeEnv "HOL-Library.Sublist"
begin

text \<open>
  Log files and what leaves them: the sources and the paged reading of \<open>src/runtime/logs.rs\<close>, the
  follower of \<open>src/runtime/log_tail.rs\<close>, the history endpoint of \<open>src/api/logs.rs\<close>, the
  redaction of \<open>src/observability/redactor.rs\<close>, and the pump that writes an instance's log
  (\<open>src/runtime/process.rs\<close>). Replacing the matches of the two patterns is the work of the
  regular-expression crate (\<open>patterns\<close>). A file is read as it is at one moment. What a source
  sends to its readers is the list of numbered lines.
\<close>

section \<open>Redaction\<close>

definition redacted :: string where "redacted = ''[REDACTED]''"

definition redact :: "string \<Rightarrow> string" where
  "redact value = (if value = [] then [] else redacted)"

text \<open>\<open>replace_all\<close> for the JSON pattern and for the key-value pattern.\<close>

record patterns =
  rx_json :: "string \<Rightarrow> string"
  rx_key_value :: "string \<Rightarrow> string"

definition scrub_line :: "patterns \<Rightarrow> string \<Rightarrow> string" where
  "scrub_line rx line = (if line = [] then [] else rx_key_value rx (rx_json rx line))"

section \<open>Sources\<close>

datatype log_source = ManagerLog | InstanceLog instance_id

definition source_id :: "log_source \<Rightarrow> string" where
  "source_id s = (case s of ManagerLog \<Rightarrow> ''manager'' | InstanceLog i \<Rightarrow> ''instance:'' @ show_int i)"

text \<open>\<open>parse::<i64>()\<close>\<close>

definition parse_i64 :: "string \<Rightarrow> int option" where
  "parse_i64 s =
     (case s of
        [] \<Rightarrow> None
      | c # cs \<Rightarrow>
          if c = CHR ''-'' then (if cs = [] then None else map_option (\<lambda>n. - int n) (parse_digits (2 ^ 63) 0 cs))
          else map_option int (parse_uint (nat i64_max) s))"

definition instance_source :: "string \<Rightarrow> log_source option" where
  "instance_source rest = Option.bind (parse_i64 rest) (\<lambda>v. map_option InstanceLog (res_ok (id_from_db v)))"

definition source_from_file_name :: "string \<Rightarrow> log_source option" where
  "source_from_file_name name =
     (if name = ''manager.log'' then Some ManagerLog
      else Option.bind (strip_prefix ''instance-'' name) (\<lambda>r.
           Option.bind (map_option rev (strip_prefix (rev ''.log'') (rev r))) instance_source))"

definition source_parse :: "string \<Rightarrow> log_source option" where
  "source_parse i =
     (if i = ''manager'' then Some ManagerLog else Option.bind (strip_prefix ''instance:'' i) instance_source)"

definition logs_dir :: "string \<Rightarrow> string" where
  "logs_dir data_dir = path_join data_dir ''logs''"

definition file_name_for :: "log_source \<Rightarrow> string" where
  "file_name_for s = (case s of ManagerLog \<Rightarrow> ''manager.log'' | InstanceLog i \<Rightarrow> ''instance-'' @ show_int i @ ''.log'')"

text \<open>The manager's log, and the instance logs among the names in the directory, in the order of
  their identifiers as text.\<close>

fun str_less :: "string \<Rightarrow> string \<Rightarrow> bool" where
  "str_less _ [] = False"
| "str_less [] (_ # _) = True"
| "str_less (a # as) (b # bs) =
     ((of_char a :: nat) < of_char b \<or> (of_char a = (of_char b :: nat) \<and> str_less as bs))"

fun insert_by_id :: "log_source \<times> string \<Rightarrow> (log_source \<times> string) list \<Rightarrow> (log_source \<times> string) list" where
  "insert_by_id x [] = [x]"
| "insert_by_id x (y # ys) =
     (if str_less (source_id (fst y)) (source_id (fst x)) then y # insert_by_id x ys else x # y # ys)"

definition enumerate_sources :: "string \<Rightarrow> string list \<Rightarrow> (log_source \<times> string) list" where
  "enumerate_sources data_dir names =
     (let dir = logs_dir data_dir;
          found = List.map_filter (\<lambda>n. case source_from_file_name n of
                    Some (InstanceLog i) \<Rightarrow> Some (InstanceLog i, path_join dir n) | _ \<Rightarrow> None) names
      in (ManagerLog, path_join dir ''manager.log'') # foldr insert_by_id found [])"

section \<open>Reading a page from the end\<close>

record tail_page =
  tp_lines :: "string list"
  tp_more :: bool

definition tail_chunk_bytes :: nat where "tail_chunk_bytes = 32 * 1024"

text \<open>The loop that reads blocks from the end: \<open>len\<close> is where the blocks read so far begin. A block
  that does not begin at the start of the file loses everything up to its first line feed.\<close>

definition drop_partial :: "bytes \<Rightarrow> bytes" where
  "drop_partial raw = (case split_once (CHR 0x0A) raw of None \<Rightarrow> raw | Some (_, rest) \<Rightarrow> rest)"

function tail_blocks :: "bytes \<Rightarrow> nat \<Rightarrow> nat \<Rightarrow> bytes \<Rightarrow> bytes" where
  "tail_blocks file collect len raw =
     (if len = 0 then raw
      else (let read_from = len - tail_chunk_bytes;
                raw1 = take (len - read_from) (drop read_from file) @ raw;
                raw2 = (if 0 < read_from then drop_partial raw1 else raw1)
            in if read_from = 0 \<or> collect \<le> count_list raw2 (CHR 0x0A) then raw2
               else tail_blocks file collect read_from raw2))"
  by pat_completeness auto
termination
  by (relation "measure (\<lambda>(file, collect, len, raw). len)") (auto simp: tail_chunk_bytes_def)

declare tail_blocks.simps [simp del]

text \<open>\<open>raw.split\<close>, without the empty pieces, decoded.\<close>

definition file_lines :: "bytes \<Rightarrow> string list" where
  "file_lines raw = List.map from_utf8_lossy (filter (\<lambda>l. l \<noteq> []) (split_on (CHR 0x0A) raw))"

text \<open>Sums are on \<open>usize\<close>, without overflow checks.\<close>

definition read_tail :: "bytes option \<Rightarrow> nat \<Rightarrow> nat \<Rightarrow> tail_page" where
  "read_tail file limit0 offset =
     (case file of
        None \<Rightarrow> \<lparr>tp_lines = [], tp_more = False\<rparr>
      | Some content \<Rightarrow>
          (let limit = max 1 (min limit0 500);
               skip = min u64_max (offset * limit);
               collect = (skip + limit + 1) mod 2 ^ 64;
               lines = file_lines (tail_blocks content collect (length content) []);
               end_at = length lines - skip;
               start = end_at - limit
           in \<lparr>tp_lines = take (end_at - start) (drop start lines), tp_more = 0 < start\<rparr>))"

section \<open>Following a file\<close>

definition read_batch_bytes :: nat where "read_batch_bytes = 64 * 1024"
definition pending_max_bytes :: nat where "pending_max_bytes = 1024 * 1024"

record tail =
  tl_pos :: nat
  tl_prev :: "byte option"
  tl_pending :: bytes
  tl_seq :: nat

definition tail_at :: "nat \<Rightarrow> tail" where
  "tail_at pos = \<lparr>tl_pos = pos, tl_prev = None, tl_pending = [], tl_seq = 0\<rparr>"

text \<open>Publishing the complete lines of the pending bytes: the published lines with their numbers,
  the last number, the rest.\<close>

function publish_lines :: "(string \<Rightarrow> string) \<Rightarrow> nat \<Rightarrow> bytes \<Rightarrow> (nat \<times> string) list \<times> nat \<times> bytes" where
  "publish_lines f seq pending =
     (case split_once (CHR 0x0A) pending of
        None \<Rightarrow> ([], seq, pending)
      | Some (raw, rest) \<Rightarrow>
          (let text = from_utf8_lossy raw in
           if trim_str text = [] then publish_lines f seq rest
           else (case publish_lines f (seq + 1) rest of (ls, s, p) \<Rightarrow> ((seq + 1, f text) # ls, s, p))))"
  by pat_completeness auto
termination
  by (relation "measure (\<lambda>(f, seq, pending). length pending)") (auto simp: split_once_Some)

declare publish_lines.simps [simp del]

text \<open>More than the limit without a line feed is thrown away.\<close>

definition trim_pending :: "bytes \<Rightarrow> bytes" where
  "trim_pending pending =
     (if pending_max_bytes < length pending
      then (case rsplit_once (CHR 0x0A) pending of Some (_, rest) \<Rightarrow> rest | None \<Rightarrow> [])
      else pending)"

text \<open>One turn of the inner loop on the file's content.\<close>

definition poll :: "(string \<Rightarrow> string) \<Rightarrow> bytes \<Rightarrow> tail \<Rightarrow> (nat \<times> string) list \<times> tail" where
  "poll f file t =
     (let len = length file; pos = tl_pos t in
      if len < pos then ([], tail_at 0)
      else if (case tl_prev t of Some b \<Rightarrow> 0 < pos \<and> file ! (pos - 1) \<noteq> b | None \<Rightarrow> False) then ([], tail_at 0)
      else if len = pos then ([], t)
      else (let end_at = min len (pos + read_batch_bytes);
                buf = take (end_at - pos) (drop pos file)
            in (case publish_lines f (tl_seq t) (trim_pending (tl_pending t @ buf)) of
                  (ls, s, p) \<Rightarrow>
                    (ls, \<lparr>tl_pos = end_at, tl_prev = (if buf = [] then None else Some (last buf)),
                          tl_pending = p, tl_seq = s\<rparr>))))"

text \<open>What the watcher meets at a turn: no file, another file under the name, or the content. The
  first time it opens a file it starts at the end, afterwards at the beginning.\<close>

datatype observation = FileGone | FileSwapped | FileIs bytes

fun tail_watch :: "(string \<Rightarrow> string) \<Rightarrow> bool \<Rightarrow> tail option \<Rightarrow> observation list \<Rightarrow> (nat \<times> string) list" where
  "tail_watch f first t [] = []"
| "tail_watch f first None (FileIs b # obs) = tail_watch f False (Some (tail_at (if first then length b else 0))) obs"
| "tail_watch f first None (_ # obs) = tail_watch f first None obs"
| "tail_watch f first (Some t) (FileIs b # obs) =
     (case poll f b t of (ls, t1) \<Rightarrow> ls @ tail_watch f first (Some t1) obs)"
| "tail_watch f first (Some t) (_ # obs) = tail_watch f first None obs"

definition line_filter :: "patterns \<Rightarrow> log_source \<Rightarrow> string \<Rightarrow> string" where
  "line_filter rx s = (case s of ManagerLog \<Rightarrow> (\<lambda>l. l) | InstanceLog _ \<Rightarrow> scrub_line rx)"

definition tail_watcher_loop :: "patterns \<Rightarrow> log_source \<Rightarrow> observation list \<Rightarrow> (nat \<times> string) list" where
  "tail_watcher_loop rx s obs = tail_watch (line_filter rx s) True None obs"

section \<open>The history endpoint and the pump\<close>

record history_response =
  hy_source :: string
  hy_offset :: nat
  hy_next :: nat
  hy_more :: bool
  hy_lines :: "string list"

definition resolve_source :: "string \<Rightarrow> string \<Rightarrow> string + string" where
  "resolve_source data_dir i =
     (case source_parse i of
        None \<Rightarrow> Inl (''unknown log source: '' @ i)
      | Some s \<Rightarrow> Inr (path_join (logs_dir data_dir) (file_name_for s)))"

definition history :: "patterns \<Rightarrow> (string \<Rightarrow> bytes option) \<Rightarrow> string \<Rightarrow> string \<Rightarrow> nat \<Rightarrow> nat \<Rightarrow> string + history_response" where
  "history rx fs data_dir source limit offset =
     (case resolve_source data_dir source of
        Inl e \<Rightarrow> Inl e
      | Inr path \<Rightarrow>
          (let page = read_tail (fs path) (max 1 (min limit 500)) offset in
           Inr \<lparr>hy_source = source, hy_offset = offset, hy_next = (offset + 1) mod 2 ^ 64, hy_more = tp_more page,
             hy_lines = List.map (if source \<noteq> ''manager'' then scrub_line rx else (\<lambda>l. l)) (tp_lines page)\<rparr>))"

text \<open>What the pump appends to the log file for the output of a process.\<close>

function pump_redacted :: "patterns \<Rightarrow> bytes \<Rightarrow> bytes" where
  "pump_redacted rx stream =
     (if stream = [] then []
      else (case split_once (CHR 0x0A) stream of
              Some (l, rest) \<Rightarrow> scrub_line rx (from_utf8_lossy (strip_cr l)) @ [CHR 0x0A] @ pump_redacted rx rest
            | None \<Rightarrow> scrub_line rx (from_utf8_lossy stream) @ [CHR 0x0A]))"
  by pat_completeness auto
termination
  by (relation "measure (\<lambda>(rx, s). length s)") (auto simp: split_once_Some)

section \<open>Streaming and batches\<close>

text \<open>The reference: the complete lines of a text that are not blank, decoded and filtered, and
  their numbers.\<close>

definition lines_out :: "(string \<Rightarrow> string) \<Rightarrow> bytes \<Rightarrow> string list" where
  "lines_out f b = List.map f (filter (\<lambda>t. trim_str t \<noteq> []) (List.map from_utf8_lossy (butlast (split_on (CHR 0x0A) b))))"

fun number :: "nat \<Rightarrow> 'a list \<Rightarrow> (nat \<times> 'a) list" where
  "number n [] = []"
| "number n (x # xs) = (n + 1, x) # number (n + 1) xs"

lemma number_append: "number n (xs @ ys) = number n xs @ number (n + length xs) ys"
  by (induction xs arbitrary: n) simp_all

lemma split_on_prefix: "split_on d (p @ q) = butlast (split_on d p) @ split_on d (last (split_on d p) @ q)"
proof (induction p)
  case (Cons c p)
  then show ?case
    by (cases "split_on d p"; cases "tl (split_on d p)") (auto split: list.splits)
qed simp

lemma lines_out_append: "lines_out f (p @ q) = lines_out f p @ lines_out f (last (split_on (CHR 0x0A) p) @ q)"
  by (simp add: lines_out_def split_on_prefix [of _ p q] butlast_append)

lemma last_split_append: "last (split_on d (p @ q)) = last (split_on d (last (split_on d p) @ q))"
  by (simp add: split_on_prefix [of d p q])

lemma lines_out_nil [simp]: "lines_out f [] = []"
  by (simp add: lines_out_def)

lemma publish_lines_eq:
  "publish_lines f n p = (number n (lines_out f p), n + length (lines_out f p), last (split_on (CHR 0x0A) p))"
proof (induction f n p rule: publish_lines.induct)
  case (1 f n p)
  show ?case
  proof (cases "split_once (CHR 0x0A) p")
    case None
    then have "CHR 0x0A \<notin> set p" by (simp add: split_once_None)
    with None show ?thesis by (simp add: publish_lines.simps [of f n p] split_on_none lines_out_def)
  next
    case (Some x)
    obtain raw rest where x: "x = (raw, rest)" by fastforce
    with Some have p: "p = raw @ CHR 0x0A # rest" "CHR 0x0A \<notin> set raw" by (auto simp: split_once_Some)
    then have s: "split_on (CHR 0x0A) p = raw # split_on (CHR 0x0A) rest" by (simp add: split_on_append split_on_none)
    show ?thesis
      using 1(1) [OF Some x [symmetric] HOL.refl] 1(2) [OF Some x [symmetric] HOL.refl]
      by (cases "trim_str (from_utf8_lossy raw) = []")
         (simp_all add: publish_lines.simps [of f n p] Some x s lines_out_def Let_def)
  qed
qed

text \<open>What holds while a file is followed from position \<open>base\<close>: everything read so far has been
  published, up to the incomplete line that is pending.\<close>

definition followed :: "nat \<Rightarrow> bytes \<Rightarrow> tail \<Rightarrow> bytes" where
  "followed base file t = take (tl_pos t - base) (drop base file)"

definition following :: "(string \<Rightarrow> string) \<Rightarrow> nat \<Rightarrow> bytes \<Rightarrow> (nat \<times> string) list \<Rightarrow> tail \<Rightarrow> bool" where
  "following f base file out t \<longleftrightarrow>
     base \<le> tl_pos t \<and> tl_pos t \<le> length file \<and>
     out = number 0 (lines_out f (followed base file t)) \<and>
     tl_seq t = length (lines_out f (followed base file t)) \<and>
     tl_pending t = last (split_on (CHR 0x0A) (followed base file t)) \<and>
     (\<forall>b. tl_prev t = Some b \<longrightarrow> 0 < tl_pos t \<and> b = file ! (tl_pos t - 1))"

lemma followed_prefix: "prefix file file' \<Longrightarrow> tl_pos t \<le> length file \<Longrightarrow> followed base file' t = followed base file t"
  by (auto simp: followed_def prefix_def)

lemma following_prefix: "following f base file out t \<Longrightarrow> prefix file file' \<Longrightarrow> following f base file' out t"
  by (auto simp: following_def followed_prefix) (auto simp: prefix_def nth_append)

definition short_lines :: "nat \<Rightarrow> bytes \<Rightarrow> bool" where
  "short_lines base file \<longleftrightarrow>
     (\<forall>l\<in>set (split_on (CHR 0x0A) (drop base file)). length l \<le> pending_max_bytes - read_batch_bytes)"

lemma hd_split_append: "length p \<le> length (hd (split_on d (p @ r)))" if "d \<notin> set p"
  using that by (induction p) (auto split: list.splits)

lemma pending_short:
  assumes "short_lines base F" and "prefix file F"
  shows "length (last (split_on (CHR 0x0A) (followed base file t))) \<le> pending_max_bytes - read_batch_bytes"
proof -
  let ?c = "followed base file t"
  have "prefix ?c (drop base F)" using assms(2) unfolding followed_def
    by (metis append_take_drop_id drop_append prefixI prefix_def prefix_order.trans take_is_prefix)
  then obtain r where r: "drop base F = ?c @ r" by (auto simp: prefix_def)
  let ?l = "last (split_on (CHR 0x0A) ?c)"
  have "CHR 0x0A \<notin> set ?l" using split_on_segment [of ?l "CHR 0x0A" ?c] by simp
  from hd_split_append [OF this, of r]
  have "length ?l \<le> length (hd (split_on (CHR 0x0A) (?l @ r)))" .
  moreover have "hd (split_on (CHR 0x0A) (?l @ r)) \<in> set (split_on (CHR 0x0A) (drop base F))"
    by (simp add: r split_on_prefix [of _ ?c r])
  ultimately show ?thesis using assms(1) by (fastforce simp: short_lines_def)
qed

lemma poll_follows:
  assumes inv: "following f base file out t" and short: "short_lines base F" "prefix file F"
    and p: "poll f file t = (ls, t1)"
  shows "following f base file (out @ ls) t1 \<and> tl_pos t1 = min (length file) (tl_pos t + read_batch_bytes)"
proof (cases "length file = tl_pos t")
  case True
  moreover from inv have "(case tl_prev t of Some b \<Rightarrow> 0 < tl_pos t \<and> file ! (tl_pos t - 1) \<noteq> b | None \<Rightarrow> False) = False"
    by (auto simp: following_def split: option.splits)
  ultimately have "ls = [] \<and> t1 = t" using p by (simp add: poll_def Let_def)
  with inv True show ?thesis by simp
next
  case False
  let ?c = "followed base file t"
  let ?stop = "min (length file) (tl_pos t + read_batch_bytes)"
  let ?buf = "take (?stop - tl_pos t) (drop (tl_pos t) file)"
  let ?p = "tl_pending t @ ?buf"
  from inv False have pos: "base \<le> tl_pos t" "tl_pos t < length file" by (auto simp: following_def)
  have len: "length ?buf = ?stop - tl_pos t" by simp
  have buf: "?buf \<noteq> []" "last ?buf = file ! (?stop - 1)"
  proof -
    show "?buf \<noteq> []" using pos by (simp add: read_batch_bytes_def)
    then show "last ?buf = file ! (?stop - 1)"
      using pos by (subst last_conv_nth) (auto simp: read_batch_bytes_def min_def)
  qed
  have "length ?p \<le> pending_max_bytes"
    using pending_short [OF short, of t] inv len
    by (simp add: following_def read_batch_bytes_def pending_max_bytes_def)
  then have "trim_pending ?p = ?p" by (simp add: trim_pending_def)
  moreover have "(case tl_prev t of Some b \<Rightarrow> 0 < tl_pos t \<and> file ! (tl_pos t - 1) \<noteq> b | None \<Rightarrow> False) = False"
    using inv by (auto simp: following_def split: option.splits)
  ultimately have eq: "ls = number (tl_seq t) (lines_out f ?p)"
    "t1 = \<lparr>tl_pos = ?stop, tl_prev = Some (last ?buf), tl_pending = last (split_on (CHR 0x0A) ?p),
       tl_seq = tl_seq t + length (lines_out f ?p)\<rparr>"
    using p pos buf(1) by (simp_all add: poll_def Let_def publish_lines_eq)
  have c: "followed base file t1 = ?c @ ?buf"
  proof -
    have "?stop - base = (tl_pos t - base) + (?stop - tl_pos t)" using pos by simp
    then have "take (?stop - base) (drop base file) =
        take (tl_pos t - base) (drop base file) @ take (?stop - tl_pos t) (drop (tl_pos t - base) (drop base file))"
      by (simp only: take_add)
    then show ?thesis using pos by (simp add: followed_def eq(2))
  qed
  have pend: "tl_pending t = last (split_on (CHR 0x0A) ?c)" "tl_seq t = length (lines_out f ?c)"
    "out = number 0 (lines_out f ?c)" using inv by (simp_all add: following_def)
  have "file \<noteq> []" "0 < read_batch_bytes" using pos by (auto simp: read_batch_bytes_def)
  then show ?thesis
    unfolding following_def c
    using pos buf pend by (simp add: eq lines_out_append [of f ?c ?buf] last_split_append [of _ ?c ?buf] number_append)
qed

lemma polls_follow:
  assumes "following f base file out t" and "sorted_wrt prefix (file # gs)" and "\<forall>g\<in>set gs. prefix g F"
    and "short_lines base F"
  shows "\<exists>out' t'. (\<forall>rest. tail_watch f b (Some t) (List.map FileIs gs @ rest) = out' @ tail_watch f b (Some t') rest) \<and>
    following f base (last (file # gs)) (out @ out') t'"
  using assms
proof (induction gs arbitrary: "file" "out" t)
  case Nil
  then show ?case by (intro exI [of _ "[]"] exI [of _ t]) simp
next
  case (Cons g gs)
  obtain ls t1 where p: "poll f g t = (ls, t1)" by fastforce
  from Cons.prems(1,2) have "following f base g out t" by (auto intro: following_prefix)
  from poll_follows [OF this Cons.prems(4) _ p] Cons.prems(3) have "following f base g (out @ ls) t1" by simp
  from Cons.IH [OF this _ _ Cons.prems(4)] Cons.prems(2,3) obtain out' t' where
    "\<forall>rest. tail_watch f b (Some t1) (List.map FileIs gs @ rest) = out' @ tail_watch f b (Some t') rest"
    "following f base (last (g # gs)) ((out @ ls) @ out') t'" by auto
  then show ?case by (intro exI [of _ "ls @ out'"] exI [of _ t']) (simp add: p)
qed

lemma polls_drain:
  assumes "following f base F out t" and "short_lines base F"
  shows "\<exists>t'. following f base F (out @ tail_watch f b (Some t) (replicate m (FileIs F))) t' \<and>
    tl_pos t' = min (length F) (tl_pos t + m * read_batch_bytes)"
  using assms(1)
proof (induction m arbitrary: out t)
  case 0
  then show ?case by (intro exI [of _ t]) (auto simp: following_def)
next
  case (Suc m)
  obtain ls t1 where p: "poll f F t = (ls, t1)" by fastforce
  from poll_follows [OF Suc.prems assms(2) _ p] have t1: "following f base F (out @ ls) t1"
    "tl_pos t1 = min (length F) (tl_pos t + read_batch_bytes)" by auto
  from Suc.IH [OF t1(1)] show ?case by (auto simp: p t1(2))
qed

section \<open>Pages\<close>

lemma read_tail_small:
  assumes "length content \<le> tail_chunk_bytes" and "1 \<le> limit" and "limit \<le> 500" and "k * limit \<le> u64_max"
  shows "read_tail (Some content) limit k =
    \<lparr>tp_lines = drop (length (file_lines content) - (k + 1) * limit) (take (length (file_lines content) - k * limit) (file_lines content)),
     tp_more = (k + 1) * limit < length (file_lines content)\<rparr>"
proof -
  have "tail_blocks content c (length content) [] = content" for c
    using assms(1) by (simp add: tail_blocks.simps Let_def)
  then show ?thesis using assms(2-4) by (auto simp: read_tail_def Let_def drop_take min_def add.commute)
qed

lemma pages_suffix:
  "concat (rev (List.map (\<lambda>k. drop (length L - (k + 1) * n) (take (length L - k * n) L)) [0..<m])) = drop (length L - m * n) L"
proof (induction m)
  case (Suc m)
  have "drop a (take b L @ drop b L) = drop a (take b L) @ drop b L" if "a \<le> b" "b \<le> length L" for a b
    using that by (simp del: append_take_drop_id)
  from this [of "length L - (m + 1) * n" "length L - m * n"]
  have "drop (length L - (m + 1) * n) L =
      drop (length L - (m + 1) * n) (take (length L - m * n) L) @ drop (length L - m * n) L"
    by (simp add: diff_le_mono2)
  with Suc show ?case by simp
qed simp

section \<open>Identifiers in text\<close>

lemma parse_digits_append: "parse_digits lim acc (xs @ ys) = Option.bind (parse_digits lim acc xs) (\<lambda>v. parse_digits lim v ys)"
  by (induction lim acc xs rule: parse_digits.induct) (auto simp: Let_def)

lemma digit_char: "d < 10 \<Longrightarrow> is_digit (char_of (48 + d)) \<and> digit_val (char_of (48 + d)) = d"
  by (simp add: is_digit_def digit_val_def)

lemma parse_show_nat: "n \<le> lim \<Longrightarrow> parse_digits lim 0 (show_nat n) = Some n"
proof (induction n rule: show_nat.induct)
  case (1 n)
  show ?case
  proof (cases "n < 10")
    case True
    with 1(2) digit_char [OF True] show ?thesis by (simp add: show_nat.simps [of n] Let_def)
  next
    case False
    then have "parse_digits lim 0 (show_nat (n div 10)) = Some (n div 10)" using 1 by simp
    moreover have "n div 10 * 10 + n mod 10 = n" by simp
    moreover have "is_digit (char_of (48 + n mod 10)) \<and> digit_val (char_of (48 + n mod 10)) = n mod 10"
      by (rule digit_char) simp
    ultimately show ?thesis
      using False 1(2) by (simp add: show_nat.simps [of n] parse_digits_append Let_def)
  qed
qed

lemma show_nat_digits: "list_all is_digit (show_nat n) \<and> show_nat n \<noteq> []"
proof (induction n rule: show_nat.induct)
  case (1 n)
  then show ?case using digit_char [of n] digit_char [of "n mod 10"] by (cases "n < 10") (simp_all add: show_nat.simps [of n])
qed

lemma instance_source_show:
  assumes "0 \<le> i" "i \<le> i64_max"
  shows "instance_source (show_int i) = Some (InstanceLog i)"
proof -
  obtain c cs where c: "show_nat (nat i) = c # cs" "is_digit c"
    using show_nat_digits [of "nat i"] by (cases "show_nat (nat i)") auto
  then have "c \<noteq> CHR ''-''" "c \<noteq> CHR ''+''" by (auto simp: is_digit_def)
  moreover have "parse_digits (nat i64_max) 0 (c # cs) = Some (nat i)"
    using parse_show_nat [of "nat i" "nat i64_max"] assms by (simp only: c(1))
  ultimately show ?thesis
    using assms c by (simp add: instance_source_def show_int_def parse_i64_def parse_uint_def id_from_db_def res_ok_def
        del: parse_digits.simps)
qed

section \<open>Properties\<close>

text \<open>The names of a source lead back to it.\<close>

theorem log_source_roundtrip:
  assumes "\<And>i. s = InstanceLog i \<Longrightarrow> 0 \<le> i \<and> i \<le> i64_max"
  shows "source_parse (source_id s) = Some s \<and> source_from_file_name (file_name_for s) = Some s"
  using assms instance_source_show
  by (cases s) (auto simp: source_id_def source_parse_def source_from_file_name_def file_name_for_def)

text \<open>C29: The history endpoint reads only log files and redacts every instance's. An answer comes
  from the manager's log or from the log of an instance with a valid id, in the log directory,
  whatever the requested source looks like; other files do not influence it; and every line that
  does not come from the manager's log has been through the redactor.\<close>

theorem history_confined:
  assumes "history rx fs data_dir source limit offset = Inr r"
  shows "\<exists>s. source_parse source = Some s \<and> (\<forall>i. s = InstanceLog i \<longrightarrow> 0 \<le> i) \<and>
    (\<forall>fs'. fs' (path_join (logs_dir data_dir) (file_name_for s)) = fs (path_join (logs_dir data_dir) (file_name_for s)) \<longrightarrow>
       history rx fs' data_dir source limit offset = Inr r) \<and>
    (s \<noteq> ManagerLog \<longrightarrow> set (hy_lines r) \<subseteq> range (scrub_line rx))"
proof -
  from assms obtain s where s: "source_parse source = Some s"
    by (auto simp: history_def resolve_source_def split: option.splits)
  have valid: "\<forall>i. s = InstanceLog i \<longrightarrow> 0 \<le> i" and m: "s \<noteq> ManagerLog \<longrightarrow> source \<noteq> ''manager''"
    using s by (auto simp: source_parse_def instance_source_def id_from_db_def res_ok_def bind_eq_Some_conv
        split: if_splits)
  show ?thesis
    using assms s valid m
    by (intro exI [of _ s]) (auto simp: history_def resolve_source_def Let_def)
qed

text \<open>C23: Every line that is appended to a log is published exactly once, in order, and numbered from
  1. While a file only grows, the follower's output depends neither on when it polls nor on how the
  batches cut the text: once it has caught up, it is the list of the complete, non-blank lines
  added since it opened the file, an instance's redacted. The lines must fit into the buffer for
  pending text.\<close>

theorem tail_follows_appends:
  assumes "sorted_wrt prefix (f0 # fs)" and "short_lines (length f0) (last (f0 # fs))"
    and "length (last (f0 # fs)) - length f0 \<le> m * read_batch_bytes"
  shows "tail_watcher_loop rx s (List.map FileIs (f0 # fs) @ replicate m (FileIs (last (f0 # fs)))) =
    number 0 (lines_out (line_filter rx s) (drop (length f0) (last (f0 # fs))))"
proof -
  let ?F = "last (f0 # fs)" and ?f = "line_filter rx s"
  have start: "following ?f (length f0) f0 [] (tail_at (length f0))"
    by (simp add: following_def tail_at_def followed_def)
  have pre: "prefix g ?F" if "g \<in> set (f0 # fs)" for g
    using that assms(1) by (induction fs arbitrary: f0) auto
  from polls_follow [OF start assms(1) _ assms(2), of False] pre obtain out t where
    o: "\<forall>rest. tail_watch ?f False (Some (tail_at (length f0))) (List.map FileIs fs @ rest) =
      out @ tail_watch ?f False (Some t) rest" and t: "following ?f (length f0) ?F out t" by auto
  from polls_drain [OF t assms(2), of False m] obtain t' where
    t': "following ?f (length f0) ?F (out @ tail_watch ?f False (Some t) (replicate m (FileIs ?F))) t'"
    "tl_pos t' = min (length ?F) (tl_pos t + m * read_batch_bytes)" by blast
  have "length f0 \<le> tl_pos t" "tl_pos t \<le> length ?F" using t by (simp_all add: following_def)
  with assms(3) t'(2) have "tl_pos t' = length ?F" by simp
  with t'(1) have "out @ tail_watch ?f False (Some t) (replicate m (FileIs ?F)) = number 0 (lines_out ?f (drop (length f0) ?F))"
    by (simp add: following_def followed_def)
  with o show ?thesis by (simp add: tail_watcher_loop_def)
qed

text \<open>Paging through a log that fits into one block shows every line exactly once. The pages from
  the oldest to the newest, put together, are the file's non-empty lines in order, whatever the
  page size; and a page says that there are older lines exactly when there are.\<close>

theorem pages_partition:
  assumes "length content \<le> tail_chunk_bytes" and "1 \<le> limit" and "limit \<le> 500"
    and "length (file_lines content) \<le> n * limit" and "n * limit \<le> u64_max"
  shows "concat (rev (List.map (\<lambda>k. tp_lines (read_tail (Some content) limit k)) [0..<n])) = file_lines content \<and>
    (\<forall>k < n. tp_more (read_tail (Some content) limit k) \<longleftrightarrow> (k + 1) * limit < length (file_lines content))"
proof -
  have page: "read_tail (Some content) limit k =
      \<lparr>tp_lines = drop (length (file_lines content) - (k + 1) * limit) (take (length (file_lines content) - k * limit) (file_lines content)),
       tp_more = (k + 1) * limit < length (file_lines content)\<rparr>" if "k < n" for k
  proof (rule read_tail_small [OF assms(1-3)])
    have "k * limit \<le> n * limit" using that by (intro mult_le_mono1) simp
    from this assms(5) show "k * limit \<le> u64_max" by (rule order_trans)
  qed
  have pages: "List.map (\<lambda>k. tp_lines (read_tail (Some content) limit k)) [0..<n] =
      List.map (\<lambda>k. drop (length (file_lines content) - (k + 1) * limit)
        (take (length (file_lines content) - k * limit) (file_lines content))) [0..<n]"
    by (rule map_cong) (auto simp: page)
  show ?thesis
  proof (intro conjI allI impI)
    show "concat (rev (List.map (\<lambda>k. tp_lines (read_tail (Some content) limit k)) [0..<n])) = file_lines content"
      unfolding pages pages_suffix using assms(4) by simp
  qed (simp add: page)
qed

text \<open>C32: A page that needs more than one block invents lines. Where a block's edge falls inside a
  line, the reader drops the rest of that line from the later block and then puts the line's
  beginning directly before the next line: the newest page ends with a line that is not in the
  file, the beginning of one line joined to another. A label and its secret can be torn apart
  that way before the redaction sees them.\<close>

theorem tail_merges_lines:
  assumes "content = a @ CHR 0x0A # p @ q @ CHR 0x0A # b @ [CHR 0x0A]"
    and "CHR 0x0A \<notin> set p \<union> set q \<union> set b" and "b \<noteq> []"
    and "length (q @ CHR 0x0A # b @ [CHR 0x0A]) = tail_chunk_bytes" and "length (a @ CHR 0x0A # p) \<le> tail_chunk_bytes"
    and "1 \<le> limit" and "limit \<le> 500"
  shows "last (tp_lines (read_tail (Some content) limit 0)) = from_utf8_lossy (p @ b) \<and>
    last (file_lines content) = from_utf8_lossy b"
proof -
  let ?x = "a @ CHR 0x0A # p" and ?y = "q @ CHR 0x0A # b @ [CHR 0x0A]"
  have c: "content = ?x @ ?y" using assms(1) by simp
  have len: "length content - tail_chunk_bytes = length ?x" "0 < length ?x" "length ?x - tail_chunk_bytes = 0"
    "length content \<noteq> 0" "length content - length ?x = tail_chunk_bytes"
    using assms(4,5) by (simp_all add: c)
  have "split_once (CHR 0x0A) ?y = Some (q, b @ [CHR 0x0A])" using assms(2) by (simp add: split_once_Some)
  then have d: "drop_partial ?y = b @ [CHR 0x0A]" by (simp add: drop_partial_def)
  have n: "count_list (b @ [CHR 0x0A]) (CHR 0x0A) = 1" using assms(2) by (simp add: count_list_0_iff)
  have t: "take (length content - length ?x) (drop (length ?x) content) @ [] = ?y" by (simp add: c)
  have "tail_blocks content (limit + 1) (length content) [] = tail_blocks content (limit + 1) (length ?x) (b @ [CHR 0x0A])"
    using len d n assms(6) t by (subst tail_blocks.simps) (simp add: Let_def)
  also have "\<dots> = ?x @ b @ [CHR 0x0A]"
    using len by (subst tail_blocks.simps) (simp add: Let_def c)
  finally have blocks: "tail_blocks content (limit + 1) (length content) [] = a @ CHR 0x0A # (p @ b) @ [CHR 0x0A]" by simp
  have last_line: "last (file_lines (z @ CHR 0x0A # l @ [CHR 0x0A])) = from_utf8_lossy l \<and>
      file_lines (z @ CHR 0x0A # l @ [CHR 0x0A]) \<noteq> []" if "CHR 0x0A \<notin> set l" "l \<noteq> []" for z l
  proof -
    have "split_on (CHR 0x0A) (l @ [CHR 0x0A]) = [l, []]"
      using split_on_append [of "CHR 0x0A" l "[]"] that by (simp add: split_on_none)
    then show ?thesis using that by (simp add: file_lines_def split_on_append)
  qed
  have pb: "CHR 0x0A \<notin> set (p @ b)" "p @ b \<noteq> []" using assms(2,3) by auto
  let ?L = "file_lines (a @ CHR 0x0A # (p @ b) @ [CHR 0x0A])"
  have "(limit + 1) mod 2 ^ 64 = limit + 1" using assms(7) by simp
  then have "tp_lines (read_tail (Some content) limit 0) = drop (length ?L - limit) ?L"
    using blocks assms(6,7) by (simp add: read_tail_def Let_def)
  moreover have "last (drop (length ?L - limit) ?L) = last ?L" using last_line [OF pb] assms(6) by (simp add: last_drop)
  ultimately have "last (tp_lines (read_tail (Some content) limit 0)) = from_utf8_lossy (p @ b)"
    using last_line [OF pb] by simp
  moreover have "last (file_lines content) = from_utf8_lossy b"
    using last_line [of b "a @ CHR 0x0A # p @ q"] assms(2,3) by (simp add: assms(1))
  ultimately show ?thesis by blast
qed

section \<open>Witnesses\<close>

definition demo_patterns :: patterns where
  "demo_patterns = \<lparr>rx_json = (\<lambda>l. l), rx_key_value = (\<lambda>l. l)\<rparr>"

theorem tail_follows_appends_witness:
  "tail_watcher_loop demo_patterns (InstanceLog 1)
     [FileIs (''old'' @ [CHR 0x0A]), FileIs (''old'' @ CHR 0x0A # ''ne''), FileIs (''old'' @ CHR 0x0A # ''new'' @ [CHR 0x0A]),
      FileIs (''old'' @ CHR 0x0A # ''new'' @ [CHR 0x0A])] =
   number 0 (lines_out (line_filter demo_patterns (InstanceLog 1)) (''new'' @ [CHR 0x0A]))"
proof -
  let ?f = "[''old'' @ CHR 0x0A # ''ne'', ''old'' @ CHR 0x0A # ''new'' @ [CHR 0x0A]]"
  have "sorted_wrt prefix ((''old'' @ [CHR 0x0A]) # ?f)" by simp
  moreover have "short_lines (length (''old'' @ [CHR 0x0A])) (last ((''old'' @ [CHR 0x0A]) # ?f))"
    by (simp add: short_lines_def pending_max_bytes_def read_batch_bytes_def)
  moreover have "length (last ((''old'' @ [CHR 0x0A]) # ?f)) - length (''old'' @ [CHR 0x0A]) \<le> 1 * read_batch_bytes"
    by (simp add: read_batch_bytes_def)
  ultimately show ?thesis
    using tail_follows_appends [of "''old'' @ [CHR 0x0A]" ?f 1 demo_patterns "InstanceLog 1"] by simp
qed

theorem pages_partition_witness:
  "concat (rev (List.map (\<lambda>k. tp_lines (read_tail (Some (''a'' @ CHR 0x0A # ''b'' @ CHR 0x0A # ''c'')) 2 k)) [0..<2])) =
   file_lines (''a'' @ CHR 0x0A # ''b'' @ CHR 0x0A # ''c'')"
proof -
  have "length (file_lines (''a'' @ CHR 0x0A # ''b'' @ CHR 0x0A # ''c'')) \<le> 2 * 2" by (simp add: file_lines_def)
  from pages_partition [OF _ _ _ this] show ?thesis by (simp add: tail_chunk_bytes_def u64_max_def)
qed

theorem tail_merges_lines_witness:
  "last (tp_lines (read_tail (Some (''x'' @ CHR 0x0A # ''pass'' @ ''word=1'' @ CHR 0x0A # replicate 32760 (CHR ''b'') @ [CHR 0x0A])) 200 0))
     = from_utf8_lossy (''pass'' @ replicate 32760 (CHR ''b''))"
proof -
  have "last (tp_lines (read_tail (Some (''x'' @ CHR 0x0A # ''pass'' @ ''word=1'' @ CHR 0x0A # b @ [CHR 0x0A])) 200 0))
     = from_utf8_lossy (''pass'' @ b)" if b: "length b = 32760" "set b \<subseteq> {CHR ''b''}" for b
  proof (rule tail_merges_lines [THEN conjunct1, OF HOL.refl])
    show "CHR 0x0A \<notin> set ''pass'' \<union> set ''word=1'' \<union> set b" using b(2) by auto
    show "b \<noteq> []" using b(1) by auto
    show "length (''word=1'' @ CHR 0x0A # b @ [CHR 0x0A]) = tail_chunk_bytes" using b(1) by (simp add: tail_chunk_bytes_def)
  qed (simp_all add: tail_chunk_bytes_def)
  then show ?thesis by (metis length_replicate set_replicate_conv_if subset_refl empty_subsetI)
qed

theorem history_confined_witness:
  "\<exists>r. history demo_patterns (\<lambda>p. if p = ''/d/logs/instance-3.log'' then Some ''token abc'' else None) ''/d'' ''instance:3'' 10 0 = Inr r \<and>
     set (hy_lines r) \<subseteq> range (scrub_line demo_patterns)"
proof -
  have n: "show_int 3 = ''3''" by code_simp
  have p: "source_parse ''instance:3'' = Some (InstanceLog 3)"
    using instance_source_show [of 3] by (simp add: source_parse_def i64_max_def n)
  obtain r where r: "history demo_patterns (\<lambda>p. if p = ''/d/logs/instance-3.log'' then Some ''token abc'' else None) ''/d'' ''instance:3'' 10 0 = Inr r"
    by (simp add: history_def resolve_source_def p Let_def)
  from history_confined [OF r] p r show ?thesis by auto
qed

theorem log_source_roundtrip_witness: "source_parse ''instance:3'' = Some (InstanceLog 3)"
proof -
  have "show_int 3 = ''3''" by code_simp
  then show ?thesis using log_source_roundtrip [of "InstanceLog 3"] by (simp add: source_id_def i64_max_def)
qed

end
