(* ===== verification/WarpCli.thy ===== *)
theory WarpCli
  imports RuntimeEnv
begin

text \<open>
  \<open>src/runtime/warp_cli.rs\<close>, the adapter that drives an instance through the
  \<open>warp-cli\<close> program, and \<open>src/runtime/mdm.rs\<close>, the policy file of Zero Trust
  instances. The command executor and the file system are parameters. The adapter is an
  implementation of the control trait: \<open>real_control\<close>.
\<close>

section \<open>Commands\<close>

record command_output =
  co_stdout :: string
  co_stderr :: string
  co_exit :: "int option"

datatype executor_error = SpawnFailed string | TimedOut millis

type_synonym 'e executor = "spawn_command \<Rightarrow> millis \<Rightarrow> ('e, executor_error + command_output) ext"

definition cli_timeout :: millis where "cli_timeout = 10000"

definition parse_status :: "string \<Rightarrow> cli_status" where
  "parse_status stdout =
     (let hay = to_ascii_lowercase stdout in
      if contains_str ''disconnected'' hay then \<lparr>st_connected = False, st_raw = stdout\<rparr>
      else if contains_str ''connected'' hay then \<lparr>st_connected = True, st_raw = stdout\<rparr>
      else \<lparr>st_connected = False, st_raw = stdout\<rparr>)"

text \<open>\<open>format!("exit {:?}", code)\<close>\<close>

definition show_exit :: "int option \<Rightarrow> string" where
  "show_exit code = ''exit '' @ (case code of None \<Rightarrow> ''None'' | Some c \<Rightarrow> ''Some('' @ show_int c @ '')'')"

definition summarize :: "command_output \<Rightarrow> string" where
  "summarize out =
     (let stderr = trim_str (co_stderr out); stdout = trim_str (co_stdout out) in
      if stderr \<noteq> [] then stderr else if stdout \<noteq> [] then stdout else show_exit (co_exit out))"

definition cli_command :: "instance_context \<Rightarrow> string \<Rightarrow> string list \<Rightarrow> spawn_command" where
  "cli_command ctx subcommand extra_args =
     \<lparr>sc_program = ''warp-cli'', sc_args = [''--accept-tos'', subcommand] @ extra_args,
      sc_envs = [(''RUNTIME_DIRECTORY'', ip_runtime_dir (cx_paths ctx)),
                 (''DBUS_SYSTEM_BUS_ADDRESS'', dbus_system_bus_address (cx_paths ctx))],
      sc_stderr_log = None, sc_stdout_log = None\<rparr>"

definition run_cli :: "'e executor \<Rightarrow> instance_context \<Rightarrow> string \<Rightarrow> string list
    \<Rightarrow> ('e, control_error + command_output) ext" where
  "run_cli exec ctx subcommand extra_args e =
     (case exec (cli_command ctx subcommand extra_args) cli_timeout e of
        (Inr out, dt, e') \<Rightarrow> (Inr out, dt, e')
      | (Inl (TimedOut _), dt, e') \<Rightarrow> (Inl CommandTimeout, dt, e')
      | (Inl (SpawnFailed msg), dt, e') \<Rightarrow> (Inl (CommandFailed msg), dt, e'))"

text \<open>A command whose output matters only through its exit code.\<close>

definition cli_checked :: "(string \<Rightarrow> control_error) \<Rightarrow> 'e executor \<Rightarrow> instance_context \<Rightarrow> string
    \<Rightarrow> string list \<Rightarrow> ('e, control_error + unit) ext" where
  "cli_checked err exec ctx subcommand extra_args e =
     (case run_cli exec ctx subcommand extra_args e of
        (Inl x, dt, e') \<Rightarrow> (Inl x, dt, e')
      | (Inr out, dt, e') \<Rightarrow>
          if co_exit out \<noteq> Some 0 then (Inl (err (summarize out)), dt, e') else (Inr (), dt, e'))"

section \<open>The control operations\<close>

definition cli_status_op :: "'e executor \<Rightarrow> instance_context \<Rightarrow> ('e, control_error + cli_status) ext" where
  "cli_status_op exec ctx e =
     (case run_cli exec ctx ''status'' [] e of
        (Inl x, dt, e') \<Rightarrow> (Inl x, dt, e')
      | (Inr out, dt, e') \<Rightarrow>
          if co_exit out \<noteq> Some 0 then (Inl (CommandFailed (summarize out)), dt, e')
          else (Inr (parse_status (co_stdout out)), dt, e'))"

definition cli_register :: "'e executor \<Rightarrow> instance_context \<Rightarrow> ('e, control_error + unit) ext" where
  "cli_register exec ctx = cli_checked CommandFailed exec ctx ''registration'' [''new'']"

definition cli_apply_account :: "'e executor \<Rightarrow> instance_context \<Rightarrow> credentials \<Rightarrow> ('e, control_error + unit) ext" where
  "cli_apply_account exec ctx creds e =
     (case cd_mode creds of
        FreeMode \<Rightarrow> (Inr (), 0, e)
      | WarpPlus \<Rightarrow>
          (case cd_license creds of
             None \<Rightarrow> (Inl (CommandFailed ''warp_plus profile missing license secret''), 0, e)
           | Some license \<Rightarrow>
               cli_checked (\<lambda>s. CommandFailed (''license apply failed: '' @ s)) exec ctx
                 ''registration'' [''license'', license] e)
      | ZeroTrust \<Rightarrow> (Inr (), 0, e))"

definition cli_set_proxy_mode :: "'e executor \<Rightarrow> instance_context \<Rightarrow> ('e, control_error + unit) ext" where
  "cli_set_proxy_mode exec ctx = cli_checked CommandFailed exec ctx ''mode'' [''proxy'']"

definition cli_set_proxy_port :: "'e executor \<Rightarrow> instance_context \<Rightarrow> port \<Rightarrow> ('e, control_error + unit) ext" where
  "cli_set_proxy_port exec ctx p =
     cli_checked CommandFailed exec ctx ''proxy'' [''port'', show_nat (unat p)]"

definition cli_connect :: "'e executor \<Rightarrow> instance_context \<Rightarrow> ('e, control_error + unit) ext" where
  "cli_connect exec ctx = cli_checked ConnectFailure exec ctx ''connect'' []"

definition cli_disconnect :: "'e executor \<Rightarrow> instance_context \<Rightarrow> ('e, control_error + unit) ext" where
  "cli_disconnect exec ctx = cli_checked CommandFailed exec ctx ''disconnect'' []"

definition real_control :: "'e executor \<Rightarrow> 'e control_ops" where
  "real_control exec =
     \<lparr>ct_status = cli_status_op exec, ct_register = cli_register exec,
      ct_apply_account = cli_apply_account exec, ct_set_proxy_mode = cli_set_proxy_mode exec,
      ct_set_proxy_port = cli_set_proxy_port exec, ct_connect = cli_connect exec,
      ct_disconnect = cli_disconnect exec\<rparr>"

lemmas cli_defs = run_cli_def cli_checked_def cli_status_op_def cli_register_def cli_apply_account_def
  cli_set_proxy_mode_def cli_set_proxy_port_def cli_connect_def cli_disconnect_def

section \<open>The policy file\<close>

definition mdm_file :: string where "mdm_file = ''mdm.xml''"

definition escape_char :: "char \<Rightarrow> string" where
  "escape_char c =
     (if c = CHR ''&'' then ''&amp;''
      else if c = CHR ''<'' then ''&lt;''
      else if c = CHR ''>'' then ''&gt;''
      else if c = CHR 0x22 then ''&quot;''
      else if c = CHR 0x27 then ''&apos;''
      else [c])"

definition escape_xml :: "string \<Rightarrow> string" where
  "escape_xml s = concat (List.map escape_char s)"

definition xml_entry :: "string \<Rightarrow> string \<Rightarrow> string \<Rightarrow> string" where
  "xml_entry key tag val = ''  <key>'' @ key @ ''</key>'' @ [CHR 0x0A] @
     ''  <'' @ tag @ ''>'' @ val @ ''</'' @ tag @ ''>'' @ [CHR 0x0A]"

definition render_mdm_xml :: "credentials \<Rightarrow> port \<Rightarrow> string option" where
  "render_mdm_xml creds proxy_port =
     (if cd_mode creds \<noteq> ZeroTrust then None
      else (case (cd_org creds, cd_client_id creds, cd_client_secret creds) of
        (Some org, Some client_id, Some client_secret) \<Rightarrow>
          Some (''<dict>'' @ [CHR 0x0A] @
            xml_entry ''organization'' ''string'' (escape_xml org) @
            xml_entry ''auth_client_id'' ''string'' (escape_xml client_id) @
            xml_entry ''auth_client_secret'' ''string'' (escape_xml client_secret) @
            xml_entry ''service_mode'' ''string'' ''proxy'' @
            xml_entry ''proxy_port'' ''integer'' (show_nat (unat proxy_port)) @
            xml_entry ''warp_tunnel_protocol'' ''string'' ''masque'' @
            ''</dict>'' @ [CHR 0x0A])
      | _ \<Rightarrow> None))"

text \<open>The file system as the synchronisation uses it: whether a private write succeeds (with
  the directory created before it), and what removing the file gives.\<close>

datatype mdm_error = MdmIo string | MdmIncomplete string
datatype remove_result = Removed | NotFound | RemoveFailed string

record 'e fs_ops =
  fs_create_dir :: "string \<Rightarrow> ('e, string + unit) ext"
  fs_write_private :: "string \<Rightarrow> string \<Rightarrow> ('e, string + unit) ext"
  fs_remove_file :: "string \<Rightarrow> ('e, remove_result) ext"

definition sync_mdm_xml :: "'e fs_ops \<Rightarrow> string \<Rightarrow> credentials \<Rightarrow> port \<Rightarrow> 'e world
    \<Rightarrow> (mdm_error + unit) \<times> 'e world" where
  "sync_mdm_xml fs state_dir creds proxy_port w =
     (let path = path_join state_dir mdm_file in
      if cd_mode creds = ZeroTrust then
        (case render_mdm_xml creds proxy_port of
           None \<Rightarrow> (Inl (MdmIncomplete ''zero_trust profile missing organization/client id/client secret''), w)
         | Some content \<Rightarrow>
             (case call (fs_create_dir fs state_dir) w of
                (Inl e, w1) \<Rightarrow> (Inl (MdmIo e), w1)
              | (Inr _, w1) \<Rightarrow>
                  (case call (fs_write_private fs path content) w1 of
                     (Inl e, w2) \<Rightarrow> (Inl (MdmIo e), w2)
                   | (Inr _, w2) \<Rightarrow> (Inr (), w2))))
      else
        (case call (fs_remove_file fs path) w of
           (Removed, w1) \<Rightarrow> (Inr (), w1)
         | (NotFound, w1) \<Rightarrow> (Inr (), w1)
         | (RemoveFailed e, w1) \<Rightarrow> (Inl (MdmIo e), w1)))"

definition remove_after_enroll :: "'e fs_ops \<Rightarrow> string \<Rightarrow> 'e world \<Rightarrow> 'e world" where
  "remove_after_enroll fs state_dir w = snd (call (fs_remove_file fs (path_join state_dir mdm_file)) w)"

section \<open>Lemmas\<close>

text \<open>Reading the five entities back.\<close>

fun unescape_xml :: "string \<Rightarrow> string" where
  "unescape_xml [] = []"
| "unescape_xml (c # cs) =
     (if c = CHR ''&'' then
        (if starts_with ''amp;'' cs then CHR ''&'' # unescape_xml (drop 4 cs)
         else if starts_with ''lt;'' cs then CHR ''<'' # unescape_xml (drop 3 cs)
         else if starts_with ''gt;'' cs then CHR ''>'' # unescape_xml (drop 3 cs)
         else if starts_with ''quot;'' cs then CHR 0x22 # unescape_xml (drop 5 cs)
         else if starts_with ''apos;'' cs then CHR 0x27 # unescape_xml (drop 5 cs)
         else c # unescape_xml cs)
      else c # unescape_xml cs)"

lemma unescape_escape: "unescape_xml (escape_xml s @ t) = s @ unescape_xml t"
  by (induction s) (simp_all add: escape_xml_def escape_char_def starts_with_def)

lemma escape_char_safe: "c \<in> set (escape_char d) \<Longrightarrow> c \<notin> {CHR ''<'', CHR ''>'', CHR 0x22, CHR 0x27}"
  by (auto simp: escape_char_def split: if_splits)

lemma escape_xml_safe: "set (escape_xml s) \<inter> {CHR ''<'', CHR ''>'', CHR 0x22, CHR 0x27} = {}"
  using escape_char_safe by (fastforce simp: escape_xml_def)

section \<open>Properties\<close>

text \<open>Escaping for the policy file loses nothing and lets nothing out: the escaped text
  has no angle bracket and no quote, and reading the five entities back gives the original
  text, so an organisation, client id or secret cannot change the structure of the file.\<close>

theorem mdm_escape_roundtrip:
  "unescape_xml (escape_xml s) = s \<and>
   set (escape_xml s) \<inter> {CHR ''<'', CHR ''>'', CHR 0x22, CHR 0x27} = {}"
  using unescape_escape [of s "[]"] escape_xml_safe by simp

end
