(* ===== verification/Backoff.thy ===== *)
theory Backoff
  imports Prelude
begin

text \<open>
  \<open>src/runtime/backoff.rs\<close>: the \<open>BackoffPolicy\<close> trait as the locale
  \<open>backoff_policy\<close> and its only implementation, \<open>ExponentialBackoff\<close>. Durations are
  milliseconds. The retry loops of the program (\<open>Readiness\<close>, \<open>Flow\<close>,
  \<open>Supervisor\<close>) use a policy through the locale's laws only.
\<close>

section \<open>The implementation\<close>

record exponential_backoff =
  eb_base :: millis
  eb_factor :: nat
  eb_max :: millis

definition recommended_backoff :: exponential_backoff where
  "recommended_backoff = \<lparr>eb_base = 2000, eb_factor = 2, eb_max = 120000\<rparr>"

text \<open>\<open>Duration::checked_mul\<close> fails when the seconds leave \<open>u64\<close>.\<close>

definition checked_mul_duration :: "millis \<Rightarrow> nat \<Rightarrow> millis option" where
  "checked_mul_duration d n = (if d * n div 1000 \<le> u64_max then Some (d * n) else None)"

definition delay_for :: "exponential_backoff \<Rightarrow> nat \<Rightarrow> millis" where
  "delay_for p attempt =
     (let exponent = attempt - 1;
          growth = (case checked_mul_duration (eb_base p) (sat_pow32 (eb_factor p) exponent) of
                      None \<Rightarrow> eb_max p | Some d \<Rightarrow> d)
      in min growth (eb_max p))"

section \<open>The interface\<close>

locale backoff_policy =
  fixes delay :: "nat \<Rightarrow> millis" and cap :: millis
  assumes delay_cap: "delay n \<le> cap"
    and delay_mono: "m \<le> n \<Longrightarrow> delay m \<le> delay n"
begin

text \<open>A loop that sleeps \<open>delay 1, \<dots>, delay n\<close> sleeps at most \<open>n * cap\<close>.\<close>

lemma total_delay_cap: "(\<Sum>k = 1..n. delay k) \<le> n * cap"
proof -
  have "(\<Sum>k = 1..n. delay k) \<le> of_nat (card {1..n}) * cap"
    by (rule sum_bounded_above) (rule delay_cap)
  then show ?thesis by simp
qed

lemma delay_after_cap: "delay m = cap \<Longrightarrow> m \<le> n \<Longrightarrow> delay n = cap"
  using delay_mono [of m n] delay_cap [of n] by simp

end

section \<open>The implementation meets the interface\<close>

lemma sat_pow32_mono: "1 \<le> b \<Longrightarrow> m \<le> n \<Longrightarrow> sat_pow32 b m \<le> sat_pow32 b n"
proof -
  assume "1 \<le> b" "m \<le> n"
  then have "b ^ m \<le> b ^ n" by (intro power_increasing) auto
  with \<open>1 \<le> b\<close> show ?thesis by (auto simp: sat_pow32_eq min_def)
qed

lemma capped_mono:
  "x \<le> y \<Longrightarrow> min (if x div 1000 \<le> u then x else m) m \<le> min (if y div 1000 \<le> u then y else m) (m :: nat)"
  using div_le_mono [of x y 1000] by (auto simp: min_def)

lemma checked_mul_mono:
  "a \<le> b \<Longrightarrow> min (case checked_mul_duration d a of None \<Rightarrow> m | Some x \<Rightarrow> x) m
       \<le> min (case checked_mul_duration d b of None \<Rightarrow> m | Some x \<Rightarrow> x) m"
proof -
  assume "a \<le> b"
  have "(case checked_mul_duration d n of None \<Rightarrow> m | Some x \<Rightarrow> x)
      = (if d * n div 1000 \<le> u64_max then d * n else m)" for n
    by (simp add: checked_mul_duration_def)
  then show ?thesis
    using \<open>a \<le> b\<close> by (simp only:) (intro capped_mono mult_le_mono2)
qed

lemma delay_for_mono: "1 \<le> eb_factor p \<Longrightarrow> m \<le> n \<Longrightarrow> delay_for p m \<le> delay_for p n"
  unfolding delay_for_def Let_def by (intro checked_mul_mono sat_pow32_mono) auto

lemma delay_for_cap: "delay_for p n \<le> eb_max p"
  by (simp add: delay_for_def Let_def)

interpretation recommended: backoff_policy "delay_for recommended_backoff" 120000
proof unfold_locales
  fix n
  show "delay_for recommended_backoff n \<le> 120000"
    using delay_for_cap [of recommended_backoff n] by (simp add: recommended_backoff_def)
next
  fix m n :: nat
  assume "m \<le> n"
  then show "delay_for recommended_backoff m \<le> delay_for recommended_backoff n"
    by (intro delay_for_mono) (simp_all add: recommended_backoff_def)
qed

section \<open>Properties\<close>

text \<open>The recommended policy waits \<open>2 * 2 ^ (n - 1)\<close> seconds before retry \<open>n\<close>, cut at
  120 seconds; no attempt number, however large, overflows or waits longer.\<close>

theorem recommended_delay:
  "delay_for recommended_backoff n = min (2000 * 2 ^ (n - 1)) 120000 \<and>
   delay_for recommended_backoff n \<le> delay_for recommended_backoff (Suc n)"
proof -
  have p: "sat_pow32 2 k = min (2 ^ k) u32_max" for k
    by (rule sat_pow32_eq) simp
  have "2000 * sat_pow32 2 k div 1000 \<le> u64_max" for k
    using p [of k] by (simp add: u64_max_def u32_max_def)
  then have "delay_for recommended_backoff n = min (2000 * sat_pow32 2 (n - 1)) 120000"
    by (simp add: delay_for_def recommended_backoff_def checked_mul_duration_def Let_def)
  also have "\<dots> = min (2000 * 2 ^ (n - 1)) 120000"
    by (simp add: p u32_max_def min_def)
  finally show ?thesis using recommended.delay_mono [of n "Suc n"] by simp
qed

end
