(* ===== verification/Lifecycle.thy ===== *)
theory Lifecycle
  imports WarpCli Backoff Registry
begin

text \<open>
  The procedures that a start and a stop are made of: the crash watcher
  (\<open>src/runtime/crash.rs\<close>, with the log tail of \<open>src/runtime/service.rs\<close>), the
  readiness probe (\<open>src/runtime/readiness.rs\<close>), the graceful stop
  (\<open>src/runtime/stop.rs\<close>) and the registration flow (\<open>src/runtime/flow.rs\<close>). They act
  on the world through the control trait and through the operations on processes and files
  in \<open>proc_ops\<close>. The loops that wait for a deadline recurse on the time that is left.
\<close>

type_synonym pid = nat
type_synonym process_status = "int option"

record 'e proc_ops =
  po_create_dir :: "string \<Rightarrow> ('e, string + unit) ext"
  po_spawn :: "spawn_command \<Rightarrow> ('e, string + pid) ext"
  po_exists :: "string \<Rightarrow> ('e, string + bool) ext"
  po_terminate :: "pid \<Rightarrow> ('e, unit) ext"
  po_try_exited :: "pid \<Rightarrow> ('e, process_status option) ext"
  po_force_kill :: "pid \<Rightarrow> ('e, process_status) ext"
  po_remove_dir :: "string \<Rightarrow> ('e, string + unit) ext"

section \<open>Starting the processes\<close>

text \<open>\<open>src/runtime/dbus.rs\<close> and the start of \<open>src/runtime/service.rs\<close>. Killing a process
  and reaping it is one operation, \<open>po_force_kill\<close>; a process whose handle is dropped goes
  on running.\<close>

definition dbus_command :: "instance_context \<Rightarrow> spawn_command" where
  "dbus_command ctx =
     \<lparr>sc_program = ''dbus-daemon'',
      sc_args = [''--system'', ''--nofork'', ''--nopidfile'', ''--address=unix:path='' @ ip_dbus_socket (cx_paths ctx)],
      sc_envs = [], sc_stderr_log = None, sc_stdout_log = None\<rparr>"

definition dbus_socket_wait :: millis where "dbus_socket_wait = 10000"
definition dbus_socket_poll :: millis where "dbus_socket_poll = 50"

text \<open>\<open>timeout(wait, wait_for_socket(..))\<close>: \<open>None\<close> when the time is up.\<close>

function wait_for_socket :: "'e proc_ops \<Rightarrow> string \<Rightarrow> millis \<Rightarrow> 'e world \<Rightarrow> (string + unit) option \<times> 'e world" where
  "wait_for_socket po socket deadline w =
     (case call (po_exists po socket) w of
        (Inl e, w1) \<Rightarrow> (Some (Inl e), w1)
      | (Inr found, w1) \<Rightarrow>
          if found then (Some (Inr ()), w1)
          else if deadline \<le> w_now w1 + dbus_socket_poll then (None, w1\<lparr>w_now := max (w_now w1) deadline\<rparr>)
          else wait_for_socket po socket deadline (sleep dbus_socket_poll w1))"
  by pat_completeness auto
termination
  by (relation "measure (\<lambda>(_, _, deadline, w). deadline - w_now w)")
     (auto simp: dbus_socket_poll_def dest!: sym [of _ "call _ _"] call_nowD)

declare wait_for_socket.simps [simp del]

definition dbus_start :: "'e proc_ops \<Rightarrow> instance_context \<Rightarrow> 'e world \<Rightarrow> (string + pid) \<times> 'e world" where
  "dbus_start po ctx w =
     (case call (po_create_dir po (ip_dbus_dir (cx_paths ctx))) w of
        (Inl e, w1) \<Rightarrow> (Inl (''dbus runtime dir could not be created: '' @ e), w1)
      | (Inr _, w1) \<Rightarrow>
     (case call (po_spawn po (dbus_command ctx)) w1 of
        (Inl e, w2) \<Rightarrow> (Inl (''dbus-daemon spawn failed: '' @ e), w2)
      | (Inr p, w2) \<Rightarrow>
     (case wait_for_socket po (ip_dbus_socket (cx_paths ctx)) (w_now w2 + dbus_socket_wait) w2 of
        (Some (Inr _), w3) \<Rightarrow> (Inr p, w3)
      | (Some (Inl e), w3) \<Rightarrow> (Inl (''dbus runtime dir could not be created: '' @ e), w3)
      | (None, w3) \<Rightarrow> (Inl ''dbus socket not ready within 10s'', w3))))"

definition dbus_shutdown :: "'e proc_ops \<Rightarrow> pid \<Rightarrow> 'e world \<Rightarrow> process_status \<times> 'e world" where
  "dbus_shutdown po p w = call (po_force_kill po p) w"

definition path_parent :: "string \<Rightarrow> string" where
  "path_parent p = (case rsplit_once (CHR ''/'') p of
     None \<Rightarrow> [] | Some (a, _) \<Rightarrow> if a = [] then ''/'' else a)"

definition svc_command :: "instance_context \<Rightarrow> spawn_command" where
  "svc_command ctx =
     \<lparr>sc_program = ''warp-svc'', sc_args = [''--accept-tos''],
      sc_envs = [(''STATE_DIRECTORY'', ip_state_dir (cx_paths ctx)),
                 (''RUNTIME_DIRECTORY'', ip_runtime_dir (cx_paths ctx)),
                 (''DBUS_SYSTEM_BUS_ADDRESS'', dbus_system_bus_address (cx_paths ctx))],
      sc_stderr_log = Some (ip_log_path (cx_paths ctx)), sc_stdout_log = Some (ip_log_path (cx_paths ctx))\<rparr>"

fun create_dirs :: "'e proc_ops \<Rightarrow> string list \<Rightarrow> 'e world \<Rightarrow> (string + unit) \<times> 'e world" where
  "create_dirs po [] w = (Inr (), w)"
| "create_dirs po (d # ds) w =
     (case call (po_create_dir po d) w of
        (Inl e, w1) \<Rightarrow> (Inl (''warp-svc state/runtime dir could not be created: '' @ e), w1)
      | (Inr _, w1) \<Rightarrow> create_dirs po ds w1)"

definition svc_start :: "'e proc_ops \<Rightarrow> instance_context \<Rightarrow> 'e world \<Rightarrow> (string + pid) \<times> 'e world" where
  "svc_start po ctx w =
     (case create_dirs po [ip_state_dir (cx_paths ctx), ip_runtime_dir (cx_paths ctx),
             path_parent (ip_log_path (cx_paths ctx))] w of
        (Inl e, w1) \<Rightarrow> (Inl e, w1)
      | (Inr _, w1) \<Rightarrow>
          (case call (po_spawn po (svc_command ctx)) w1 of
             (Inl e, w2) \<Rightarrow> (Inl (''warp-svc spawn failed: '' @ e), w2)
           | (Inr p, w2) \<Rightarrow> (Inr p, w2)))"

section \<open>The crash watcher\<close>

definition stderr_summary_max :: nat where "stderr_summary_max = 4096"

text \<open>\<open>str::is_char_boundary\<close>\<close>

definition is_char_boundary :: "string \<Rightarrow> nat \<Rightarrow> bool" where
  "is_char_boundary s n \<longleftrightarrow> n = length s \<or> n < length s \<and> \<not> cont_byte 128 191 (s ! n)"

text \<open>Slicing a \<open>str\<close> off a character boundary panics: \<open>None\<close>.\<close>

definition tail_summary :: "string \<Rightarrow> nat \<Rightarrow> string option" where
  "tail_summary content max_bytes =
     (if length content \<le> max_bytes then Some content
      else if is_char_boundary content (length content - max_bytes)
      then Some (drop (length content - max_bytes) content)
      else None)"

text \<open>\<open>read_to_string\<close> fails on a log that is not UTF-8.\<close>

definition read_log_tail :: "bytes option \<Rightarrow> string option" where
  "read_log_tail log =
     (case log of
        None \<Rightarrow> Some []
      | Some content \<Rightarrow> if valid_utf8 content then tail_summary content stderr_summary_max else Some [])"

text \<open>What one turn of the watch loop finds: the cancellation channel closed (it is polled
  first), the process alive, or its exit status with the log of that moment.\<close>

datatype watch_poll = Cancelled | Alive | GoneWith process_status "bytes option"

datatype watch_end = StillWatching | WatchCancelled | WatchCrashed crash_event | WatchPanicked

fun watch :: "instance_id \<Rightarrow> watch_poll list \<Rightarrow> watch_end" where
  "watch i [] = StillWatching"
| "watch i (Cancelled # _) = WatchCancelled"
| "watch i (Alive # ps) = watch i ps"
| "watch i (GoneWith code log # _) =
     (case read_log_tail log of
        None \<Rightarrow> WatchPanicked
      | Some txt \<Rightarrow> WatchCrashed \<lparr>cr_instance = i, cr_exit_code = code, cr_stderr = txt\<rparr>)"

section \<open>The readiness probe\<close>

record probe_result =
  pr_ready :: bool
  pr_attempts :: nat
  pr_last_error :: "control_error option"

fun readiness_loop :: "'e control_ops \<Rightarrow> exponential_backoff \<Rightarrow> instance_context \<Rightarrow> nat \<Rightarrow> nat
    \<Rightarrow> control_error option \<Rightarrow> 'e world \<Rightarrow> probe_result \<times> 'e world" where
  "readiness_loop ctl bo ctx attempt 0 last_error w =
     (\<lparr>pr_ready = False, pr_attempts = attempt - 1, pr_last_error = last_error\<rparr>, w)"
| "readiness_loop ctl bo ctx attempt (Suc left) last_error w =
     (case call (ct_status ctl ctx) w of
        (Inr _, w1) \<Rightarrow> (\<lparr>pr_ready = True, pr_attempts = attempt, pr_last_error = None\<rparr>, w1)
      | (Inl e, w1) \<Rightarrow>
          readiness_loop ctl bo ctx (Suc attempt) left (Some e)
            (if 0 < left then sleep (delay_for bo attempt) w1 else w1))"

text \<open>\<open>for attempt in 1..=max_attempts\<close>: the attempt number and how many are left.\<close>

definition readiness_probe :: "'e control_ops \<Rightarrow> exponential_backoff \<Rightarrow> nat \<Rightarrow> instance_context
    \<Rightarrow> 'e world \<Rightarrow> probe_result \<times> 'e world" where
  "readiness_probe ctl bo max_attempts ctx w = readiness_loop ctl bo ctx 1 max_attempts None w"

section \<open>The graceful stop\<close>

record stop_outcome =
  so_kill_required :: bool
  so_exit :: process_status

definition max_polls :: "millis \<Rightarrow> millis \<Rightarrow> nat" where
  "max_polls grace poll = max (min (grace div max poll 1) u32_max) 1"

fun poll_exit :: "'e proc_ops \<Rightarrow> pid \<Rightarrow> millis \<Rightarrow> nat \<Rightarrow> 'e world \<Rightarrow> process_status option \<times> 'e world" where
  "poll_exit po svc poll 0 w = (None, w)"
| "poll_exit po svc poll (Suc n) w =
     (case call (po_try_exited po svc) w of
        (Some st, w1) \<Rightarrow> (Some st, w1)
      | (None, w1) \<Rightarrow> poll_exit po svc poll n (sleep poll w1))"

definition graceful_stop :: "'e control_ops \<Rightarrow> 'e proc_ops \<Rightarrow> millis \<Rightarrow> millis \<Rightarrow> instance_context
    \<Rightarrow> pid \<Rightarrow> pid \<Rightarrow> 'e world \<Rightarrow> (string + stop_outcome) \<times> 'e world" where
  "graceful_stop ctl po grace poll ctx svc dbus w =
     (let w1 = snd (call (ct_disconnect ctl ctx) w);
          w2 = snd (call (po_terminate po svc) w1)
      in case poll_exit po svc poll (max_polls grace poll) w2 of (exited, w3) \<Rightarrow>
        (case (case exited of Some st \<Rightarrow> (st, w3) | None \<Rightarrow> call (po_force_kill po svc) w3) of (status, w4) \<Rightarrow>
          (let w5 = snd (dbus_shutdown po dbus w4)
           in case call (po_remove_dir po (ip_runtime_dir (cx_paths ctx))) w5 of
                (Inl e, w6) \<Rightarrow> (Inl (''runtime dir cleanup failed: '' @ e), w6)
              | (Inr _, w6) \<Rightarrow> (Inr \<lparr>so_kill_required = (exited = None), so_exit = status\<rparr>, w6))))"

section \<open>The registration flow\<close>

definition registration_file :: string where "registration_file = ''reg.json''"
definition verify_poll_interval :: millis where "verify_poll_interval = 2000"
definition verify_timeout :: millis where "verify_timeout = 90000"
definition zt_connect_retry_poll :: millis where "zt_connect_retry_poll = 2000"
definition zt_registration_wait :: millis where "zt_registration_wait = 60000"

datatype flow_error =
    RegisterFailed nat string | ConfigureFailed string | ConnectFailed string | VerifyFailed string

record registration_outcome =
  ro_was_registered :: bool
  ro_attempts :: nat

fun register_loop :: "'e control_ops \<Rightarrow> exponential_backoff \<Rightarrow> instance_context \<Rightarrow> nat \<Rightarrow> nat
    \<Rightarrow> string \<Rightarrow> 'e world \<Rightarrow> (flow_error + registration_outcome) \<times> 'e world" where
  "register_loop ctl bo ctx attempt 0 last_error w = (Inl (RegisterFailed (attempt - 1) last_error), w)"
| "register_loop ctl bo ctx attempt (Suc left) last_error w =
     (case call (ct_register ctl ctx) w of
        (Inr _, w1) \<Rightarrow> (Inr \<lparr>ro_was_registered = True, ro_attempts = attempt\<rparr>, w1)
      | (Inl e, w1) \<Rightarrow>
          register_loop ctl bo ctx (Suc attempt) left (show_control_error e)
            (if 0 < left then sleep (delay_for bo attempt) w1 else w1))"

definition ensure_registered :: "'e control_ops \<Rightarrow> 'e proc_ops \<Rightarrow> exponential_backoff \<Rightarrow> nat
    \<Rightarrow> instance_context \<Rightarrow> 'e world \<Rightarrow> (flow_error + registration_outcome) \<times> 'e world" where
  "ensure_registered ctl po bo max_attempts ctx w =
     (case call (po_exists po (path_join (ip_state_dir (cx_paths ctx)) registration_file)) w of
        (found, w1) \<Rightarrow>
          if found = Inr True then (Inr \<lparr>ro_was_registered = False, ro_attempts = 0\<rparr>, w1)
          else register_loop ctl bo ctx 1 max_attempts [] w1)"

definition is_missing_registration :: "string \<Rightarrow> bool" where
  "is_missing_registration summary =
     (let hay = to_ascii_lowercase summary in
      contains_str ''missingregistration'' hay \<or>
      (contains_str ''no registration'' hay \<and> contains_str ''found'' hay) \<or>
      contains_str ''not registered'' hay)"

text \<open>The retries of a Zero Trust connect.\<close>

function connect_loop :: "'e control_ops \<Rightarrow> instance_context \<Rightarrow> millis \<Rightarrow> 'e world
    \<Rightarrow> (flow_error + unit) \<times> 'e world" where
  "connect_loop ctl ctx deadline w =
     (case call (ct_connect ctl ctx) w of
        (Inr _, w1) \<Rightarrow> (Inr (), w1)
      | (Inl e, w1) \<Rightarrow>
          (case e of
             ConnectFailure summary \<Rightarrow>
               if is_missing_registration summary then
                 (if deadline \<le> w_now w1 then (Inl (ConnectFailed summary), w1)
                  else connect_loop ctl ctx deadline (sleep zt_connect_retry_poll w1))
               else (Inl (ConnectFailed (show_control_error e)), w1)
           | _ \<Rightarrow> (Inl (ConnectFailed (show_control_error e)), w1)))"
  by pat_completeness auto
termination
  by (relation "measure (\<lambda>(_, _, deadline, w). deadline - w_now w)")
     (auto simp: zt_connect_retry_poll_def dest!: sym [of _ "call _ _"] call_nowD)

declare connect_loop.simps [simp del]

definition flow_connect :: "'e control_ops \<Rightarrow> instance_context \<Rightarrow> bool \<Rightarrow> 'e world
    \<Rightarrow> (flow_error + unit) \<times> 'e world" where
  "flow_connect ctl ctx retry_missing_registration w =
     (if \<not> retry_missing_registration then
        (case call (ct_connect ctl ctx) w of
           (Inl e, w1) \<Rightarrow> (Inl (ConnectFailed (show_control_error e)), w1)
         | (Inr _, w1) \<Rightarrow> (Inr (), w1))
      else connect_loop ctl ctx (w_now w + zt_registration_wait) w)"

function verify_loop :: "'e control_ops \<Rightarrow> instance_context \<Rightarrow> millis \<Rightarrow> cli_status \<Rightarrow> 'e world
    \<Rightarrow> (flow_error + unit) \<times> 'e world" where
  "verify_loop ctl ctx deadline st w =
     (if st_connected st then (Inr (), w)
      else if deadline \<le> w_now w then (Inl (VerifyFailed (st_raw st)), w)
      else (case call (ct_status ctl ctx) (sleep verify_poll_interval w) of
              (Inl e, w1) \<Rightarrow> (Inl (VerifyFailed (show_control_error e)), w1)
            | (Inr st', w1) \<Rightarrow> verify_loop ctl ctx deadline st' w1))"
  by pat_completeness auto
termination
  by (relation "measure (\<lambda>(_, _, deadline, _, w). deadline - w_now w)")
     (auto simp: verify_poll_interval_def dest!: sym [of _ "call _ _"] call_nowD)

declare verify_loop.simps [simp del]

definition flow_verify :: "'e control_ops \<Rightarrow> instance_context \<Rightarrow> 'e world \<Rightarrow> (flow_error + unit) \<times> 'e world" where
  "flow_verify ctl ctx w =
     (let deadline = w_now w + verify_timeout in
      case call (ct_status ctl ctx) w of
        (Inl e, w1) \<Rightarrow> (Inl (VerifyFailed (show_control_error e)), w1)
      | (Inr st, w1) \<Rightarrow> verify_loop ctl ctx deadline st w1)"

text \<open>The configuration that is skipped for Zero Trust.\<close>

definition flow_configure :: "'e control_ops \<Rightarrow> instance_context \<Rightarrow> credentials \<Rightarrow> 'e world
    \<Rightarrow> (flow_error + unit) \<times> 'e world" where
  "flow_configure ctl ctx creds w =
     (case call (ct_apply_account ctl ctx creds) w of
        (Inl e, w1) \<Rightarrow> (Inl (ConfigureFailed (show_control_error e)), w1)
      | (Inr _, w1) \<Rightarrow>
     (case call (ct_set_proxy_mode ctl ctx) w1 of
        (Inl e, w2) \<Rightarrow> (Inl (ConfigureFailed (show_control_error e)), w2)
      | (Inr _, w2) \<Rightarrow>
     (case call (ct_set_proxy_port ctl ctx (cx_port ctx)) w2 of
        (Inl e, w3) \<Rightarrow> (Inl (ConfigureFailed (show_control_error e)), w3)
      | (Inr _, w3) \<Rightarrow> (Inr (), w3))))"

definition flow_run :: "'e control_ops \<Rightarrow> 'e proc_ops \<Rightarrow> exponential_backoff \<Rightarrow> nat \<Rightarrow> instance_context
    \<Rightarrow> credentials \<Rightarrow> 'e world \<Rightarrow> (flow_error + registration_outcome) \<times> 'e world" where
  "flow_run ctl po bo max_attempts ctx creds w =
     (let is_zero_trust = (cd_mode creds = ZeroTrust) in
      case (if is_zero_trust then (Inr \<lparr>ro_was_registered = False, ro_attempts = 0\<rparr>, w)
            else ensure_registered ctl po bo max_attempts ctx w) of
        (Inl e, w1) \<Rightarrow> (Inl e, w1)
      | (Inr outcome, w1) \<Rightarrow>
     (case (if is_zero_trust then (Inr (), w1) else flow_configure ctl ctx creds w1) of
        (Inl e, w2) \<Rightarrow> (Inl e, w2)
      | (Inr _, w2) \<Rightarrow>
     (case flow_connect ctl ctx is_zero_trust w2 of
        (Inl e, w3) \<Rightarrow> (Inl e, w3)
      | (Inr _, w3) \<Rightarrow>
     (case flow_verify ctl ctx w3 of
        (Inl e, w4) \<Rightarrow> (Inl e, w4)
      | (Inr _, w4) \<Rightarrow> (Inr outcome, w4)))))"

section \<open>Lemmas\<close>

text \<open>The verification ends well only right after a status that says connected.\<close>

lemma verify_loop_connected:
  assumes "verify_loop ctl ctx deadline st w = (Inr u, w')"
  shows "st_connected st \<and> w' = w \<or> (\<exists>st' w0. call (ct_status ctl ctx) w0 = (Inr st', w') \<and> st_connected st')"
  using assms
proof (induction ctl ctx deadline st w rule: verify_loop.induct)
  case (1 ctl ctx deadline st w)
  show ?case
  proof (cases "st_connected st \<or> deadline \<le> w_now w")
    case True
    with "1.prems" show ?thesis by (auto simp: verify_loop.simps [of _ _ _ st w] split: if_splits)
  next
    case False
    then obtain st1 w1 where c: "call (ct_status ctl ctx) (sleep verify_poll_interval w) = (Inr st1, w1)"
      using "1.prems" by (auto simp: verify_loop.simps [of _ _ _ st w] split: prod.splits sum.splits)
    with False "1.prems" have "verify_loop ctl ctx deadline st1 w1 = (Inr u, w')"
      by (simp add: verify_loop.simps [of _ _ _ st w])
    from "1.IH" [OF _ _ c [symmetric] refl this] False c show ?thesis by blast
  qed
qed

lemma flow_verify_connected:
  "flow_verify ctl ctx w = (Inr u, w') \<Longrightarrow> \<exists>st w0. call (ct_status ctl ctx) w0 = (Inr st, w') \<and> st_connected st"
  by (auto simp: flow_verify_def Let_def split: prod.splits sum.splits dest!: verify_loop_connected)

text \<open>The Zero Trust flow uses neither registration nor configuration commands.\<close>

lemma connect_loop_frame:
  assumes "ct_connect ctl' = ct_connect ctl"
  shows "connect_loop ctl' ctx deadline w = connect_loop ctl ctx deadline w"
  using assms
proof (induction ctl ctx deadline w rule: connect_loop.induct)
  case (1 ctl0 ctx deadline w)
  then show ?case
    by (subst (1 2) connect_loop.simps) (auto split: prod.splits sum.splits control_error.splits)
qed

lemma verify_loop_frame:
  assumes "ct_status ctl' = ct_status ctl"
  shows "verify_loop ctl' ctx deadline st w = verify_loop ctl ctx deadline st w"
  using assms
proof (induction ctl ctx deadline st w rule: verify_loop.induct)
  case (1 ctl0 ctx deadline st w)
  then show ?case
    by (subst (1 2) verify_loop.simps) (auto split: prod.splits sum.splits)
qed

lemma call_bound: "call f w = (r, w') \<Longrightarrow> \<forall>e. fst (snd (f e)) \<le> d \<Longrightarrow> w_now w' \<le> w_now w + d"
  by (auto simp: call_def split: prod.splits) (metis fst_conv snd_conv)

lemma readiness_loop_bound:
  assumes "\<forall>e. fst (snd (ct_status ctl ctx e)) \<le> d"
  shows "readiness_loop ctl bo ctx (Suc n) left le w = (r, w') \<Longrightarrow>
    pr_attempts r \<le> n + left \<and> w_now w' \<le> w_now w + left * d + (left - 1) * eb_max bo"
proof (induction left arbitrary: n le w)
  case (Suc left)
  obtain x w1 where c: "call (ct_status ctl ctx) w = (x, w1)" by fastforce
  note b = call_bound [OF c assms]
  show ?case
  proof (cases x)
    case (Inl e)
    let ?w2 = "if 0 < left then sleep (delay_for bo (Suc n)) w1 else w1"
    have "readiness_loop ctl bo ctx (Suc (Suc n)) left (Some e) ?w2 = (r, w')"
      using Suc.prems by (simp add: c Inl)
    from Suc.IH [OF this] have ih: "pr_attempts r \<le> Suc n + left"
      "w_now w' \<le> w_now ?w2 + left * d + (left - 1) * eb_max bo" by auto
    have "w_now ?w2 \<le> w_now w + d + (if 0 < left then eb_max bo else 0)"
      using b delay_for_cap [of bo "Suc n"] by simp
    then have "w_now w' \<le> w_now w + (d + left * d) + left * eb_max bo"
      using ih(2) by (cases left) (auto simp: algebra_simps)
    with ih(1) show ?thesis by simp
  next
    case (Inr st)
    with Suc.prems b c show ?thesis by auto
  qed
qed auto

text \<open>A byte string of two-byte characters ends in the middle of one when an odd number of
  bytes is cut off in front.\<close>

definition odd_log :: "nat \<Rightarrow> bytes" where
  "odd_log n = concat (replicate n [CHR 0xC3, CHR 0xA9]) @ ''a''"

lemma odd_log_valid: "valid_utf8 (odd_log n)"
  by (induction n) (simp_all add: odd_log_def valid_utf8.simps(2) utf8_step_def utf8_ranges_def cont_byte_def)

lemma odd_log_cut: "0 < n \<Longrightarrow> length (odd_log n) = 2 * n + 1 \<and> odd_log n ! 1 = CHR 0xA9"
proof -
  assume "0 < n"
  then obtain m where n: "n = Suc m" by (cases n) auto
  have "length (concat (replicate n [CHR 0xC3, CHR 0xA9])) = 2 * n" for n by (induction n) simp_all
  then show ?thesis by (simp add: odd_log_def n)
qed

text \<open>A D-Bus daemon whose socket does not appear is not killed: the failed start never uses
  the operation that kills a process.\<close>

lemma wait_for_socket_no_kill:
  "wait_for_socket (po\<lparr>po_force_kill := k\<rparr>) socket deadline w = wait_for_socket po socket deadline w"
proof (induction po socket deadline w rule: wait_for_socket.induct)
  case (1 po socket deadline w)
  show ?case
    using 1 by (subst (1 2) wait_for_socket.simps) (simp split: prod.splits sum.splits)
qed

lemma dbus_start_leaks_daemon:
  assumes "fst (dbus_start po ctx w) = Inl ''dbus socket not ready within 10s''"
  shows "(\<exists>p w1 w2. call (po_spawn po (dbus_command ctx)) w1 = (Inr p, w2)) \<and>
    dbus_start (po\<lparr>po_force_kill := k\<rparr>) ctx w = dbus_start po ctx w"
  using assms
  by (auto simp: dbus_start_def wait_for_socket_no_kill split: prod.splits sum.splits option.splits)

section \<open>Properties\<close>

text \<open>The start flow reports success only right after a status query that said connected,
  so a connect command that merely returned is not taken for a connection. For a Zero Trust
  instance the outcome does not depend on the registration and configuration commands at all:
  they are not used. If the registration file exists, no registration is attempted.\<close>

theorem flow_success_connected:
  assumes "flow_run ctl po bo n ctx creds w = (Inr outcome, w')"
  shows "(\<exists>st w0. call (ct_status ctl ctx) w0 = (Inr st, w') \<and> st_connected st) \<and>
    (cd_mode creds = ZeroTrust \<longrightarrow> \<not> ro_was_registered outcome \<and>
      flow_run (ctl\<lparr>ct_register := f1, ct_apply_account := f2, ct_set_proxy_mode := f3,
        ct_set_proxy_port := f4\<rparr>) po bo n ctx creds w = (Inr outcome, w')) \<and>
    (cd_mode creds \<noteq> ZeroTrust \<longrightarrow>
      fst (call (po_exists po (path_join (ip_state_dir (cx_paths ctx)) registration_file)) w) = Inr True \<longrightarrow>
      outcome = \<lparr>ro_was_registered = False, ro_attempts = 0\<rparr>)"
proof -
  have "\<exists>st w0. call (ct_status ctl ctx) w0 = (Inr st, w') \<and> st_connected st"
    using assms by (auto simp: flow_run_def Let_def split: prod.splits sum.splits if_splits
        dest!: flow_verify_connected)
  moreover have "ro_was_registered outcome = False" if "cd_mode creds = ZeroTrust"
    using assms that by (auto simp: flow_run_def Let_def split: prod.splits sum.splits)
  moreover have "flow_run (ctl\<lparr>ct_register := f1, ct_apply_account := f2, ct_set_proxy_mode := f3,
      ct_set_proxy_port := f4\<rparr>) po bo n ctx creds w = flow_run ctl po bo n ctx creds w"
    if "cd_mode creds = ZeroTrust"
  proof -
    let ?ctl = "ctl\<lparr>ct_register := f1, ct_apply_account := f2, ct_set_proxy_mode := f3, ct_set_proxy_port := f4\<rparr>"
    have c: "flow_connect ?ctl ctx True v = flow_connect ctl ctx True v" for v
      by (simp add: flow_connect_def connect_loop_frame [of ?ctl ctl])
    have v: "flow_verify ?ctl ctx v = flow_verify ctl ctx v" for v
      by (simp add: flow_verify_def verify_loop_frame [of ?ctl ctl] split: prod.splits sum.splits)
    show ?thesis by (simp add: flow_run_def that c v split: prod.splits sum.splits)
  qed
  moreover have "outcome = \<lparr>ro_was_registered = False, ro_attempts = 0\<rparr>"
    if "cd_mode creds \<noteq> ZeroTrust"
      "fst (call (po_exists po (path_join (ip_state_dir (cx_paths ctx)) registration_file)) w) = Inr True"
    using assms that by (auto simp: flow_run_def ensure_registered_def Let_def split: prod.splits sum.splits)
  ultimately show ?thesis using assms by auto
qed

definition demo_control :: "unit control_ops" where
  "demo_control =
     \<lparr>ct_status = (\<lambda>_ e. (Inr \<lparr>st_connected = True, st_raw = ''Connected''\<rparr>, 5, e)),
      ct_register = (\<lambda>_ e. (Inr (), 5, e)), ct_apply_account = (\<lambda>_ _ e. (Inr (), 5, e)),
      ct_set_proxy_mode = (\<lambda>_ e. (Inr (), 5, e)), ct_set_proxy_port = (\<lambda>_ _ e. (Inr (), 5, e)),
      ct_connect = (\<lambda>_ e. (Inr (), 5, e)), ct_disconnect = (\<lambda>_ e. (Inr (), 5, e))\<rparr>"

definition demo_proc :: "unit proc_ops" where
  "demo_proc =
     \<lparr>po_create_dir = (\<lambda>_ e. (Inr (), 1, e)), po_spawn = (\<lambda>_ e. (Inr 11, 1, e)),
      po_exists = (\<lambda>_ e. (Inr True, 1, e)),
      po_terminate = (\<lambda>_ e. ((), 1, e)), po_try_exited = (\<lambda>_ e. (Some (Some 0), 1, e)),
      po_force_kill = (\<lambda>_ e. (None, 1, e)), po_remove_dir = (\<lambda>_ e. (Inr (), 1, e))\<rparr>"

definition demo_ctx :: "instance_id \<Rightarrow> instance_context" where
  "demo_ctx i = \<lparr>cx_id = i, cx_paths = paths_new ''/d'' ''/r'' i, cx_port = word_of_int (40000 + i)\<rparr>"

theorem flow_success_connected_witness:
  "\<exists>outcome w'. flow_run demo_control demo_proc recommended_backoff 3 (demo_ctx 1) credentials_free
      \<lparr>w_now = 0, w_env = ()\<rparr> = (Inr outcome, w') \<and> outcome = \<lparr>ro_was_registered = False, ro_attempts = 0\<rparr>"
proof -
  let ?w = "\<lparr>w_now = 0, w_env = ()\<rparr>"
  obtain outcome w' where run: "flow_run demo_control demo_proc recommended_backoff 3 (demo_ctx 1) credentials_free ?w
      = (Inr outcome, w')"
    by (simp add: flow_run_def credentials_free_def ensure_registered_def flow_configure_def flow_connect_def
        flow_verify_def verify_loop.simps call_def demo_control_def demo_proc_def)
  moreover have "cd_mode credentials_free \<noteq> ZeroTrust" by (simp add: credentials_free_def)
  moreover have "fst (call (po_exists demo_proc
      (path_join (ip_state_dir (cx_paths (demo_ctx 1))) registration_file)) ?w) = Inr True"
    by (simp add: demo_proc_def call_def)
  ultimately show ?thesis using flow_success_connected [OF run] by blast
qed

text \<open>C38: The readiness probe is bounded: with the policy the manager uses it makes at most
  the configured number of attempts, and if a status query takes at most \<open>d\<close> milliseconds it
  returns within \<open>n\<close> queries and \<open>n - 1\<close> waits of at most two minutes.\<close>

theorem readiness_bounded:
  assumes "\<forall>e. fst (snd (ct_status ctl ctx e)) \<le> d"
    and "readiness_probe ctl recommended_backoff n ctx w = (r, w')"
  shows "pr_attempts r \<le> n \<and> w_now w' \<le> w_now w + n * d + (n - 1) * 120000"
  using readiness_loop_bound [OF assms(1), of recommended_backoff 0 n None w r w'] assms(2)
  by (simp add: readiness_probe_def recommended_backoff_def)

theorem readiness_bounded_witness:
  "w_now (snd (readiness_probe demo_control recommended_backoff 40 (demo_ctx 1) \<lparr>w_now = 0, w_env = ()\<rparr>))
   \<le> 0 + 40 * 5 + (40 - 1) * 120000"
  using readiness_bounded [of demo_control "demo_ctx 1" 5 40 "\<lparr>w_now = 0, w_env = ()\<rparr>"
      "fst (readiness_probe demo_control recommended_backoff 40 (demo_ctx 1) \<lparr>w_now = 0, w_env = ()\<rparr>)"
      "snd (readiness_probe demo_control recommended_backoff 40 (demo_ctx 1) \<lparr>w_now = 0, w_env = ()\<rparr>)"]
  by (simp add: demo_control_def)

text \<open>The crash watcher itself can crash. It cuts the last 4096 bytes off the instance's
  log without regard to characters, so a log in which that point is inside a character makes
  the watcher panic instead of reporting the crash.\<close>

theorem watcher_panics_on_log:
  "valid_utf8 (odd_log 2048) \<and> watch i [Alive, GoneWith code (Some (odd_log 2048))] = WatchPanicked"
  using odd_log_cut [of 2048] odd_log_valid [of 2048]
  by (simp add: read_log_tail_def tail_summary_def is_char_boundary_def stderr_summary_max_def cont_byte_def)

end
