(* ===== verification/Health.thy ===== *)
theory Health
  imports Registry Stream
begin

text \<open>
  Probing and judging an instance: \<open>src/runtime/probe/trace.rs\<close> (the text of a trace and
  the decoding of an HTTP body), \<open>src/runtime/probe/socks5.rs\<close> (the client handshake),
  the pure parts of \<open>src/runtime/probe/mod.rs\<close> (reading a response, joining the two
  address families), and \<open>src/runtime/health.rs\<close> (the verdict of a round). TLS is not
  modelled: a probe starts from the bytes that the TLS stream delivered.
\<close>

section \<open>The trace\<close>

record trace_result =
  tr_ip :: "string option"
  tr_colo :: "string option"
  tr_warp :: "string option"

definition trace_line :: "string \<Rightarrow> trace_result \<Rightarrow> trace_result" where
  "trace_line l t =
     (case split_once (CHR ''='') l of
        None \<Rightarrow> t
      | Some (key, value) \<Rightarrow>
          (let v = trim_str value; k = trim_str key in
           if k = ''ip'' then t\<lparr>tr_ip := Some v\<rparr>
           else if k = ''colo'' then t\<lparr>tr_colo := Some v\<rparr>
           else if k = ''warp'' then t\<lparr>tr_warp := Some v\<rparr>
           else t))"

definition parse_trace :: "string \<Rightarrow> trace_result" where
  "parse_trace text =
     fold trace_line (str_lines text) \<lparr>tr_ip = None, tr_colo = None, tr_warp = None\<rparr>"

section \<open>The body\<close>

definition hex_digits :: "string \<Rightarrow> bool" where
  "hex_digits s = list_all (\<lambda>c. hex_val c \<noteq> None) s"

text \<open>\<open>usize::from_str_radix(s, 16)\<close> on a 64-bit machine.\<close>

fun hex_loop :: "nat \<Rightarrow> string \<Rightarrow> nat option" where
  "hex_loop acc [] = Some acc"
| "hex_loop acc (c # cs) =
     (case hex_val c of
        None \<Rightarrow> None
      | Some d \<Rightarrow> if u64_max < acc * 16 + d then None else hex_loop (acc * 16 + d) cs)"

definition from_str_radix16 :: "string \<Rightarrow> nat option" where
  "from_str_radix16 s =
     (case s of
        [] \<Rightarrow> None
      | c # cs \<Rightarrow> if c = CHR ''+'' then (if cs = [] then None else hex_loop 0 cs) else hex_loop 0 s)"

text \<open>The loop of \<open>dechunk\<close>. \<open>None\<close> is a panic: the end of a chunk is computed in
  \<open>usize\<close> before it is compared with the length of the body.\<close>

function dechunk :: "bytes \<Rightarrow> bytes \<Rightarrow> bytes option" where
  "dechunk out body =
     (case split_once (CHR 0x0A) body of
        None \<Rightarrow> Some out
      | Some (size_line, rest) \<Rightarrow>
          (let size = (case from_str_radix16 (trim_end (from_utf8_lossy size_line)) of
                         None \<Rightarrow> 0 | Some n \<Rightarrow> n);
               data_start = Suc (length size_line)
           in if size = 0 then Some out
              else if u64_max < data_start + size + 2 then None
              else if length body < data_start + size + 2 then Some out
              else dechunk (out @ take size rest) (drop (size + 2) rest)))"
  by pat_completeness auto
termination
  by (relation "measure (length \<circ> snd)") (auto simp: split_once_Some split: option.splits)

declare dechunk.simps [simp del]

definition decode_http_body :: "bytes \<Rightarrow> bytes option" where
  "decode_http_body body =
     (let first_line = hd (split_on (CHR 0x0A) body) in
      if first_line \<noteq> [] \<and>
         hex_digits (trim_end_matches (\<lambda>c. c = CHR 0x0D \<or> c = CHR 0x0A) (from_utf8_lossy first_line))
      then dechunk [] body else Some body)"

section \<open>The response\<close>

fun split_headers :: "bytes \<Rightarrow> bytes \<times> bytes" where
  "split_headers [] = ([], [])"
| "split_headers (c # cs) =
     (case strip_prefix [CHR 0x0D, CHR 0x0A, CHR 0x0D, CHR 0x0A] (c # cs) of
        Some body \<Rightarrow> ([CHR 0x0D, CHR 0x0A, CHR 0x0D, CHR 0x0A], body)
      | None \<Rightarrow> (case split_headers cs of (h, b) \<Rightarrow> (c # h, b)))"

definition second_word :: "string \<Rightarrow> string option" where
  "second_word s = (let t = trim_start s in first_word (drop (length (take_word t)) t))"

definition status_ok :: "bytes \<Rightarrow> bool" where
  "status_ok headers =
     (case str_lines (from_utf8_lossy headers) of
        [] \<Rightarrow> False
      | l # _ \<Rightarrow>
          (case second_word l of
             None \<Rightarrow> False
           | Some code \<Rightarrow> (case parse_u16 code of None \<Rightarrow> False | Some n \<Rightarrow> 200 \<le> n \<and> n < 300)))"

datatype probe_error =
    ProxyConnect string | Socks5Failed string | HttpConnectFailed string | TlsFailed string
  | HttpFailed string | ProbeTimeout millis

text \<open>What the bytes of a response give; \<open>None\<close> is a panic.\<close>

definition read_response :: "bytes \<Rightarrow> (probe_error + trace_result) option" where
  "read_response raw =
     (if CHR 0x0A \<in> set raw \<and> 4 \<le> length raw then
        (case split_headers raw of (headers, body) \<Rightarrow>
           if \<not> status_ok headers
           then Some (Inl (HttpFailed (''unexpected status: '' @ from_utf8_lossy headers)))
           else (case decode_http_body body of
                   None \<Rightarrow> None
                 | Some decoded \<Rightarrow> Some (Inr (parse_trace (from_utf8_lossy decoded)))))
      else Some (Inl (HttpFailed ''empty or malformed response'')))"

definition host_header :: "string \<Rightarrow> string" where
  "host_header target =
     (case parse_ip target of Some (IpV6 _) \<Rightarrow> ''['' @ target @ '']'' | _ \<Rightarrow> target)"

section \<open>The client handshake\<close>

datatype io_error = IoEof | IoBroken | IoOther string

definition hex2 :: "byte \<Rightarrow> string" where
  "hex2 b = ''0x'' @ [hex_char (of_char b div 16), hex_char (of_char b mod 16)]"

definition probe_target :: "string \<Rightarrow> io_error + bytes" where
  "probe_target host =
     (case parse_ip host of
        Some (IpV4 a) \<Rightarrow> Inr (CHR 0x01 # List.map char_of (v4_octets a))
      | Some (IpV6 a) \<Rightarrow> Inr (CHR 0x04 # List.map char_of (v6_octets a))
      | None \<Rightarrow>
          if 255 < length host then Inl (IoOther ''SOCKS5 target host too long'')
          else Inr (CHR 0x03 # char_of (length host) # host))"

definition probe_reply :: "conn \<Rightarrow> io_error + conn" where
  "probe_reply c =
     (case read_exact 4 c of
        (None, _) \<Rightarrow> Inl IoEof
      | (Some head, c1) \<Rightarrow>
          if head ! 0 \<noteq> CHR 0x05 then Inl (IoOther ''invalid SOCKS5 reply version'')
          else if head ! 1 \<noteq> CHR 0x00
          then Inl (IoOther (''SOCKS5 CONNECT rejected (rep '' @ hex2 (head ! 1) @ '')''))
          else
     (case (if head ! 3 = CHR 0x01 then Inr (4, c1)
            else if head ! 3 = CHR 0x04 then Inr (16, c1)
            else if head ! 3 = CHR 0x03 then
              (case read_exact 1 c1 of (None, _) \<Rightarrow> Inl IoEof | (Some l, c2) \<Rightarrow> Inr (of_char (l ! 0), c2))
            else Inl (IoOther (''unsupported ATYP '' @ hex2 (head ! 3)))) of
        Inl e \<Rightarrow> Inl e
      | Inr (bnd_len, c2) \<Rightarrow>
          (case read_exact (bnd_len + 2) c2 of (None, _) \<Rightarrow> Inl IoEof | (Some _, c3) \<Rightarrow> Inr c3)))"

definition handshake :: "string \<Rightarrow> port \<Rightarrow> conn \<Rightarrow> io_error + conn" where
  "handshake host p c =
     (case write_all [CHR 0x05, CHR 0x01, CHR 0x00] c of
        (False, _) \<Rightarrow> Inl IoBroken
      | (True, c1) \<Rightarrow>
     (case read_exact 2 c1 of
        (None, _) \<Rightarrow> Inl IoEof
      | (Some m, c2) \<Rightarrow>
          if m ! 0 \<noteq> CHR 0x05 \<or> m ! 1 \<noteq> CHR 0x00
          then Inl (IoOther (''SOCKS5 no-auth not accepted (method reply '' @ hex2 (m ! 1) @ '')''))
          else
     (case probe_target host of
        Inl e \<Rightarrow> Inl e
      | Inr addr \<Rightarrow>
     (case write_all ([CHR 0x05, CHR 0x01, CHR 0x00] @ addr @ port_be p) c2 of
        (False, _) \<Rightarrow> Inl IoBroken
      | (True, c3) \<Rightarrow> probe_reply c3))))"

section \<open>Reports\<close>

record data_plane_report =
  dp_v4 :: "trace_result option"
  dp_v6 :: "trace_result option"
  dp_latency :: nat

definition is_on :: "trace_result option \<Rightarrow> bool" where
  "is_on t = (case t of None \<Rightarrow> False | Some r \<Rightarrow> tr_warp r = Some ''on'')"

definition warp_on :: "data_plane_report \<Rightarrow> bool" where
  "warp_on r \<longleftrightarrow> is_on (dp_v4 r) \<or> is_on (dp_v6 r)"

definition colo :: "data_plane_report \<Rightarrow> string option" where
  "colo r =
     (case Option.bind (dp_v4 r) tr_colo of
        Some c \<Rightarrow> Some c
      | None \<Rightarrow> Option.bind (dp_v6 r) tr_colo)"

definition exit_ip_v4 :: "data_plane_report \<Rightarrow> ip_addr option" where
  "exit_ip_v4 r = Option.bind (Option.bind (dp_v4 r) tr_ip) parse_ip"

definition exit_ip_v6 :: "data_plane_report \<Rightarrow> ip_addr option" where
  "exit_ip_v6 r = Option.bind (Option.bind (dp_v6 r) tr_ip) parse_ip"

text \<open>\<open>RealDataPlaneProber::probe\<close> on the outcomes of the two families.\<close>

definition join_families :: "probe_error + trace_result \<times> nat \<Rightarrow> probe_error + trace_result \<times> nat
    \<Rightarrow> probe_error + data_plane_report" where
  "join_families v4 v6 =
     (case (v4, v6) of
        (Inr a, _) \<Rightarrow> Inr \<lparr>dp_v4 = Some (fst a), dp_v6 = map_option fst (res_ok v6), dp_latency = snd a\<rparr>
      | (Inl _, Inr b) \<Rightarrow> Inr \<lparr>dp_v4 = None, dp_v6 = Some (fst b), dp_latency = snd b\<rparr>
      | (Inl e, Inl _) \<Rightarrow> Inl e)"

section \<open>The verdict\<close>

record health_config =
  hc_failure_threshold :: nat
  hc_recovery_threshold :: nat

definition health_config_default :: health_config where
  "health_config_default = \<lparr>hc_failure_threshold = 3, hc_recovery_threshold = 2\<rparr>"

record health_counters =
  hk_failures :: nat
  hk_successes :: nat

datatype health_verdict = VHealthy | VDegraded | VFailed

fun verdict_state :: "health_verdict \<Rightarrow> runtime_state" where
  "verdict_state VHealthy = Healthy"
| "verdict_state VDegraded = Degraded"
| "verdict_state VFailed = Failed"

record layers_report =
  lr_process_alive :: bool
  lr_control_connected :: bool
  lr_data_plane :: "data_plane_report option"

definition data_plane_ok :: "layers_report \<Rightarrow> bool" where
  "data_plane_ok r = (case lr_data_plane r of None \<Rightarrow> False | Some d \<Rightarrow> warp_on d)"

text \<open>\<open>None\<close>: the assertions on the thresholds fail.\<close>

definition assess_layers :: "layers_report \<Rightarrow> health_counters \<Rightarrow> health_config \<Rightarrow> runtime_state
    \<Rightarrow> (health_verdict \<times> health_counters) option" where
  "assess_layers report counters config current =
     (if hc_failure_threshold config < 1 \<or> hc_recovery_threshold config < 1 then None
      else if \<not> lr_process_alive report then
        Some (VFailed, \<lparr>hk_failures = sat_add32 (hk_failures counters) 1, hk_successes = 0\<rparr>)
      else if lr_control_connected report \<and> data_plane_ok report then
        (let successes = sat_add32 (hk_successes counters) 1;
             recovered = (hc_recovery_threshold config \<le> successes \<or> current = Healthy)
         in Some (if recovered then VHealthy else VDegraded, \<lparr>hk_failures = 0, hk_successes = successes\<rparr>))
      else
        (let failures = sat_add32 (hk_failures counters) 1
         in Some (if hc_failure_threshold config \<le> failures then VFailed else VDegraded,
                  \<lparr>hk_failures = failures, hk_successes = 0\<rparr>)))"

text \<open>Rounds one after the other, while the instance is being probed.\<close>

fun health_rounds :: "health_config \<Rightarrow> layers_report list \<Rightarrow> runtime_state \<times> health_counters
    \<Rightarrow> runtime_state \<times> health_counters" where
  "health_rounds cfg [] s = s"
| "health_rounds cfg (r # rs) (st, k) =
     (if st \<noteq> Healthy \<and> st \<noteq> Degraded then (st, k)
      else case assess_layers r k cfg st of
             None \<Rightarrow> (st, k)
           | Some (v, k') \<Rightarrow> health_rounds cfg rs (verdict_state v, k'))"

section \<open>Lemmas\<close>

definition good_round :: "layers_report \<Rightarrow> bool" where
  "good_round r \<longleftrightarrow> lr_process_alive r \<and> lr_control_connected r \<and> data_plane_ok r"

definition bad_round :: "layers_report \<Rightarrow> bool" where
  "bad_round r \<longleftrightarrow> lr_process_alive r \<and> \<not> (lr_control_connected r \<and> data_plane_ok r)"

definition thresholds_ok :: "health_config \<Rightarrow> bool" where
  "thresholds_ok cfg \<longleftrightarrow> 1 \<le> hc_failure_threshold cfg \<and> hc_failure_threshold cfg \<le> u32_max \<and>
     1 \<le> hc_recovery_threshold cfg \<and> hc_recovery_threshold cfg \<le> u32_max"

lemma sat_add32_threshold: "t \<le> u32_max \<Longrightarrow> t \<le> sat_add32 k (Suc 0) \<longleftrightarrow> t \<le> Suc k"
  by (auto simp: sat_add32_def)

lemma assess_bad:
  "thresholds_ok cfg \<Longrightarrow> bad_round r \<Longrightarrow> assess_layers r k cfg st =
     Some (if hc_failure_threshold cfg \<le> Suc (hk_failures k) then VFailed else VDegraded,
           \<lparr>hk_failures = sat_add32 (hk_failures k) 1, hk_successes = 0\<rparr>)"
  by (auto simp: assess_layers_def thresholds_ok_def bad_round_def Let_def sat_add32_threshold)

lemma assess_good:
  "thresholds_ok cfg \<Longrightarrow> good_round r \<Longrightarrow> assess_layers r k cfg st =
     Some (if hc_recovery_threshold cfg \<le> Suc (hk_successes k) \<or> st = Healthy then VHealthy else VDegraded,
           \<lparr>hk_failures = 0, hk_successes = sat_add32 (hk_successes k) 1\<rparr>)"
  by (auto simp: assess_layers_def thresholds_ok_def good_round_def Let_def sat_add32_threshold)

lemma assess_dead:
  "thresholds_ok cfg \<Longrightarrow> \<not> lr_process_alive r \<Longrightarrow>
     map_option fst (assess_layers r k cfg st) = Some VFailed"
  by (simp add: assess_layers_def thresholds_ok_def)

lemma health_rounds_failed: "health_rounds cfg rs (Failed, k) = (Failed, k)"
  by (cases rs) simp_all

lemma rounds_bad:
  assumes "thresholds_ok cfg" and "\<forall>r \<in> set rs. bad_round r" and "rs \<noteq> []"
    and "st \<in> {Healthy, Degraded}" and "hk_failures k < hc_failure_threshold cfg"
  shows "fst (health_rounds cfg rs (st, k)) =
    (if length rs + hk_failures k < hc_failure_threshold cfg then Degraded else Failed)"
  using assms(2-5)
proof (induction rs arbitrary: st k)
  case (Cons r rs)
  have exact: "sat_add32 (hk_failures k) 1 = Suc (hk_failures k)"
    using Cons.prems(4) assms(1) by (intro sat_add32_exact [THEN trans]) (auto simp: thresholds_ok_def)
  show ?case
  proof (cases "hc_failure_threshold cfg \<le> Suc (hk_failures k)")
    case True
    then show ?thesis using Cons.prems assess_bad [OF assms(1), of r k st]
      by (auto simp: health_rounds_failed)
  next
    case False
    let ?k = "\<lparr>hk_failures = sat_add32 (hk_failures k) 1, hk_successes = 0\<rparr>"
    have "health_rounds cfg (r # rs) (st, k) = health_rounds cfg rs (Degraded, ?k)"
      using False Cons.prems assess_bad [OF assms(1), of r k st] by auto
    then show ?thesis
      using False Cons.prems Cons.IH [of Degraded ?k] exact by (cases "rs = []") auto
  qed
qed simp

lemma rounds_good:
  assumes "thresholds_ok cfg" and "\<forall>r \<in> set rs. good_round r" and "rs \<noteq> []"
  shows "fst (health_rounds cfg rs (Healthy, k)) = Healthy"
    and "hk_successes k < hc_recovery_threshold cfg \<Longrightarrow> fst (health_rounds cfg rs (Degraded, k)) =
      (if length rs + hk_successes k < hc_recovery_threshold cfg then Degraded else Healthy)"
proof -
  have healthy: "fst (health_rounds cfg rs (Healthy, k)) = Healthy" if "\<forall>r \<in> set rs. good_round r" for rs k
    using that by (induction rs arbitrary: k) (simp_all add: assess_good [OF assms(1)])
  then show "fst (health_rounds cfg rs (Healthy, k)) = Healthy" using assms(2) .
  show "hk_successes k < hc_recovery_threshold cfg \<Longrightarrow> fst (health_rounds cfg rs (Degraded, k)) =
      (if length rs + hk_successes k < hc_recovery_threshold cfg then Degraded else Healthy)"
    using assms(2,3)
  proof (induction rs arbitrary: k)
    case (Cons r rs)
    have exact: "sat_add32 (hk_successes k) 1 = Suc (hk_successes k)"
      using Cons.prems(1) assms(1) by (intro sat_add32_exact [THEN trans]) (auto simp: thresholds_ok_def)
    let ?k = "\<lparr>hk_failures = 0, hk_successes = sat_add32 (hk_successes k) 1\<rparr>"
    have step: "health_rounds cfg (r # rs) (Degraded, k) = health_rounds cfg rs
        (if hc_recovery_threshold cfg \<le> Suc (hk_successes k) then Healthy else Degraded, ?k)"
      using Cons.prems assess_good [OF assms(1), of r k Degraded] by simp
    show ?case
      using Cons.prems Cons.IH [of ?k] healthy [of rs ?k] exact unfolding step
      by (cases "rs = []") auto
  qed simp
qed

text \<open>A chunk size at the top of \<open>usize\<close> overflows the computation of the chunk's end.\<close>

lemma dechunk_overflow_panics: "decode_http_body (replicate 16 (CHR ''f'') @ [CHR 0x0A] @ rest) = None"
proof -
  have sp: "split_once (CHR 0x0A) (replicate 16 (CHR ''f'') @ [CHR 0x0A] @ rest) =
      Some (replicate 16 (CHR ''f''), rest)"
    by (simp add: split_once_Some)
  have l: "from_utf8_lossy (replicate 16 (CHR ''f'')) = replicate 16 (CHR ''f'')"
    by (rule lossy_ascii) (simp add: is_ascii_def)
  have t: "trim_end (replicate 16 (CHR ''f'')) = replicate 16 (CHR ''f'')" by code_simp
  have n: "from_str_radix16 (replicate 16 (CHR ''f'')) = Some u64_max"
    by (simp add: from_str_radix16_def hex_val_def u64_max_def)
  have h: "hd (split_on (CHR 0x0A) (replicate 16 (CHR ''f'') @ [CHR 0x0A] @ rest)) = replicate 16 (CHR ''f'')"
    using hd_split_on [of "CHR 0x0A" "replicate 16 (CHR ''f'')" rest] by simp
  have hex: "hex_digits (trim_end_matches (\<lambda>c. c = CHR 0x0D \<or> c = CHR 0x0A) (replicate 16 (CHR ''f'')))"
    by (simp add: hex_digits_def trim_end_matches_def hex_val_def)
  have "dechunk [] (replicate 16 (CHR ''f'') @ [CHR 0x0A] @ rest) = None"
    by (subst dechunk.simps) (simp only: sp l t n option.case prod.case Let_def, simp add: u64_max_def)
  then show ?thesis unfolding decode_http_body_def Let_def h l using hex by simp
qed

section \<open>Properties\<close>

text \<open>An instance is judged Healthy only in a round in which its process was there, the
  control plane was connected and the data plane answered with \<open>warp=on\<close> for at least one
  address family; a dead process is judged Failed at once, whatever the counters.\<close>

theorem health_verdict_sound:
  assumes "assess_layers r k cfg st = Some (v, k')"
  shows "(v = VHealthy \<longrightarrow> lr_process_alive r \<and> lr_control_connected r \<and>
      (\<exists>d t. lr_data_plane r = Some d \<and> (dp_v4 d = Some t \<or> dp_v6 d = Some t) \<and> tr_warp t = Some ''on'')) \<and>
    (\<not> lr_process_alive r \<longrightarrow> v = VFailed)"
  using assms
  by (auto simp: assess_layers_def data_plane_ok_def warp_on_def is_on_def Let_def
      split: if_splits option.splits)

theorem health_verdict_sound_witness:
  "assess_layers \<lparr>lr_process_alive = False, lr_control_connected = True, lr_data_plane = None\<rparr>
     \<lparr>hk_failures = 0, hk_successes = 0\<rparr> health_config_default Healthy
   = Some (VFailed, \<lparr>hk_failures = 1, hk_successes = 0\<rparr>)"
proof -
  let ?r = "\<lparr>lr_process_alive = False, lr_control_connected = True, lr_data_plane = None\<rparr> :: layers_report"
  obtain v k' where a: "assess_layers ?r \<lparr>hk_failures = 0, hk_successes = 0\<rparr> health_config_default Healthy = Some (v, k')"
    and k: "k' = \<lparr>hk_failures = 1, hk_successes = 0\<rparr>"
    by (simp add: assess_layers_def health_config_default_def sat_add32_def u32_max_def)
  from health_verdict_sound [OF a] have "v = VFailed" by simp
  with a k show ?thesis by simp
qed

text \<open>The thresholds give hysteresis. While rounds keep failing a Healthy or Degraded
  instance is Degraded until the configured number of failures in a row is reached and Failed
  from then on; a Degraded instance becomes Healthy exactly when the configured number of
  successes in a row is reached, and a Healthy one stays Healthy while rounds succeed.\<close>

theorem health_hysteresis:
  assumes "thresholds_ok cfg" and "rs \<noteq> []"
  shows "(\<forall>st k. (\<forall>r \<in> set rs. bad_round r) \<longrightarrow> st \<in> {Healthy, Degraded} \<longrightarrow> hk_failures k = 0 \<longrightarrow>
      fst (health_rounds cfg rs (st, k)) = (if length rs < hc_failure_threshold cfg then Degraded else Failed)) \<and>
    (\<forall>k. (\<forall>r \<in> set rs. good_round r) \<longrightarrow> hk_successes k = 0 \<longrightarrow>
      fst (health_rounds cfg rs (Degraded, k)) = (if length rs < hc_recovery_threshold cfg then Degraded else Healthy)) \<and>
    (\<forall>k. (\<forall>r \<in> set rs. good_round r) \<longrightarrow> fst (health_rounds cfg rs (Healthy, k)) = Healthy)"
  using rounds_bad [OF assms(1) _ assms(2)] rounds_good [OF assms(1) _ assms(2)] assms(1)
  by (auto simp: thresholds_ok_def)

theorem health_hysteresis_witness:
  "fst (health_rounds health_config_default
     (replicate 3 \<lparr>lr_process_alive = True, lr_control_connected = False, lr_data_plane = None\<rparr>)
     (Healthy, \<lparr>hk_failures = 0, hk_successes = 0\<rparr>)) = Failed"
proof -
  let ?rs = "replicate 3 \<lparr>lr_process_alive = True, lr_control_connected = False, lr_data_plane = None\<rparr> :: layers_report list"
  have "thresholds_ok health_config_default" "?rs \<noteq> []" "\<forall>r \<in> set ?rs. bad_round r"
    by (simp_all add: thresholds_ok_def health_config_default_def u32_max_def bad_round_def)
  moreover have "length ?rs = 3" by simp
  ultimately show ?thesis
    using health_hysteresis [of health_config_default ?rs] by (simp add: health_config_default_def del: replicate_numeral)
qed

end
