(* ===== verification/Manager.thy ===== *)
theory Manager
  imports Lifecycle Health
begin

text \<open>
  \<open>src/runtime/manager.rs\<close>: the lifecycle of the instances, with the events of
  \<open>src/runtime/events.rs\<close> and the rounds of \<open>src/runtime/health_monitor.rs\<close>. Every
  lifecycle operation holds the lock of the table of running instances from start to end, so
  operations do not interleave with each other and each is one definition. What runs beside
  them are the crash watchers and the health monitor: \<open>watcher_crash\<close> and
  \<open>apply_health_verdict\<close> are single steps, and \<open>do_start\<close> takes as a parameter what
  they do while it waits for the data plane.

  The event bus is the list of published events, newest last. Messages built with \<open>Debug\<close>
  formatting come from \<open>mo_debug_probe\<close> and \<open>mo_debug_flow\<close>.
\<close>

section \<open>Events\<close>

record state_transition =
  tx_instance :: instance_id
  tx_from :: runtime_state
  tx_to :: runtime_state
  tx_reason :: string

datatype health_event =
    StateChanged state_transition
  | HealthChanged state_transition
  | ExitIpChanged instance_id "string option" "string option" "string option" "nat option"

section \<open>State\<close>

datatype manager_error =
    AlreadyRunning instance_id
  | NotRunning instance_id
  | PortInUse instance_id port
  | InvalidId instance_id instance_id_error
  | StartFailed instance_id string
  | StopFailed instance_id string
  | WatcherFailed instance_id string

text \<open>A watcher task owns the handle of the service process and knows its generation.\<close>

record watcher_task =
  wt_svc :: pid
  wt_generation :: nat

record running =
  ru_ctx :: instance_context
  ru_dbus :: "pid option"
  ru_cancel :: bool
  ru_watcher :: "watcher_task option"

record 'e manager =
  mg_world :: "'e world"
  mg_reg :: registry
  mg_bus :: "health_event list"
  mg_runs :: "(instance_id \<times> running) list"
  mg_current :: "(instance_id \<times> nat) list"

text \<open>How joining a watcher task ends: with the crash it saw, if any, or with a join error.\<close>

datatype join_result = Joined "crash_event option" | JoinFailed string

record 'e manager_ops =
  mo_control :: "'e control_ops"
  mo_proc :: "'e proc_ops"
  mo_fs :: "'e fs_ops"
  mo_resolve :: "int option \<Rightarrow> ('e, string + credentials) ext"
  mo_port_free :: "port \<Rightarrow> ('e, bool) ext"
  mo_probe :: "port \<Rightarrow> ('e, probe_error + data_plane_report) ext"
  mo_join :: "watcher_task \<Rightarrow> ('e, join_result) ext"
  mo_backoff :: exponential_backoff
  mo_max_register :: nat
  mo_data_dir :: string
  mo_runtime_base :: string
  mo_debug_probe :: "control_error option \<Rightarrow> string"
  mo_debug_flow :: "flow_error \<Rightarrow> string"

definition stop_grace :: millis where "stop_grace = 10000"
definition stop_poll :: millis where "stop_poll = 100"
definition readiness_max_attempts :: nat where "readiness_max_attempts = 40"
definition verify_attempts :: nat where "verify_attempts = 12"
definition verify_backoff :: millis where "verify_backoff = 5000"

text \<open>An external call inside an operation.\<close>

definition mcall :: "('e world \<Rightarrow> 'r \<times> 'e world) \<Rightarrow> 'e manager \<Rightarrow> 'r \<times> 'e manager" where
  "mcall f m = (case f (mg_world m) of (r, w) \<Rightarrow> (r, m\<lparr>mg_world := w\<rparr>))"

section \<open>Registry and bus\<close>

definition on_reg :: "(registry \<Rightarrow> registry) \<Rightarrow> 'e manager \<Rightarrow> 'e manager" where
  "on_reg f m = m\<lparr>mg_reg := f (mg_reg m)\<rparr>"

definition publish :: "health_event \<Rightarrow> 'e manager \<Rightarrow> 'e manager" where
  "publish ev m = m\<lparr>mg_bus := mg_bus m @ [ev]\<rparr>"

definition transition :: "instance_id \<Rightarrow> runtime_state \<Rightarrow> runtime_state \<Rightarrow> string \<Rightarrow> state_transition" where
  "transition i from to reason = \<lparr>tx_instance = i, tx_from = from, tx_to = to, tx_reason = reason\<rparr>"

definition publish_transition :: "instance_id \<Rightarrow> runtime_state \<Rightarrow> runtime_state \<Rightarrow> string
    \<Rightarrow> 'e manager \<Rightarrow> 'e manager" where
  "publish_transition i from to reason = publish (StateChanged (transition i from to reason))"

definition fail_start :: "instance_id \<Rightarrow> runtime_state \<Rightarrow> string \<Rightarrow> 'e manager \<Rightarrow> 'e manager" where
  "fail_start i from msg m =
     publish (HealthChanged (transition i from Failed msg))
       (publish_transition i from Failed msg (on_reg (record_error i msg) m))"

definition state_or :: "runtime_state \<Rightarrow> instance_id \<Rightarrow> 'e manager \<Rightarrow> runtime_state" where
  "state_or dflt i m = (case reg_get (mg_reg m) i of None \<Rightarrow> dflt | Some e \<Rightarrow> ir_state e)"

definition record_probe_metrics :: "data_plane_report \<Rightarrow> instance_runtime \<Rightarrow> instance_runtime" where
  "record_probe_metrics r e = e\<lparr>ir_exit_v4 := exit_ip_v4 r, ir_exit_v6 := exit_ip_v6 r,
     ir_colo := colo r, ir_latency := Some (min (dp_latency r) u32_max)\<rparr>"

section \<open>Start\<close>

text \<open>The attempts of \<open>verify_data_plane\<close>; \<open>others\<close> is what the watcher and the monitor do
  to the shared state while an attempt waits.\<close>

fun verify_data_plane :: "'e manager_ops \<Rightarrow> ('e manager \<Rightarrow> 'e manager) \<Rightarrow> instance_context \<Rightarrow> nat
    \<Rightarrow> 'e manager \<Rightarrow> (string + data_plane_report) \<times> 'e manager" where
  "verify_data_plane ops others ctx 0 m =
     (Inl (''data plane not verified (warp=on) after '' @ show_nat verify_attempts @ '' attempts''), m)"
| "verify_data_plane ops others ctx (Suc left) m =
     (case mcall (call (mo_probe ops (cx_port ctx))) m of (r, m1) \<Rightarrow>
        (let m2 = others m1;
             again = verify_data_plane ops others ctx left
                       (if 0 < left then m2\<lparr>mg_world := sleep verify_backoff (mg_world m2)\<rparr> else m2)
         in case r of
              Inr report \<Rightarrow> if warp_on report then (Inr report, m2) else again
            | Inl _ \<Rightarrow> again))"

text \<open>\<open>cur.entry(id).or_insert(0) += 1\<close>\<close>

definition next_generation :: "instance_id \<Rightarrow> 'e manager \<Rightarrow> nat \<times> 'e manager" where
  "next_generation i m =
     (let g = Suc (case map_of (mg_current m) i of None \<Rightarrow> 0 | Some n \<Rightarrow> n)
      in (g, m\<lparr>mg_current := AList.update i g (mg_current m)\<rparr>))"

fun show_mdm_error :: "mdm_error \<Rightarrow> string" where
  "show_mdm_error (MdmIo e) = ''io error syncing mdm.xml: '' @ e"
| "show_mdm_error (MdmIncomplete e) = ''cannot build mdm.xml: '' @ e"

definition stop_processes :: "'e manager_ops \<Rightarrow> instance_context \<Rightarrow> pid \<Rightarrow> pid \<Rightarrow> 'e manager
    \<Rightarrow> (string + stop_outcome) \<times> 'e manager" where
  "stop_processes ops ctx svc dbus =
     mcall (graceful_stop (mo_control ops) (mo_proc ops) stop_grace stop_poll ctx svc dbus)"

text \<open>The part of \<open>do_start\<close> up to the running processes with a working control plane and a
  finished flow: credentials, policy file, D-Bus daemon, service, readiness, flow. On failure
  the message.\<close>

definition bring_up :: "'e manager_ops \<Rightarrow> instance_context \<Rightarrow> int option \<Rightarrow> 'e manager
    \<Rightarrow> (string + pid \<times> pid \<times> credentials) \<times> 'e manager" where
  "bring_up ops ctx profile m =
     (case mcall (call (mo_resolve ops profile)) m of
        (Inl e, m1) \<Rightarrow> (Inl (''credential resolution failed: '' @ e), m1)
      | (Inr creds, m1) \<Rightarrow>
     (case mcall (sync_mdm_xml (mo_fs ops) (ip_state_dir (cx_paths ctx)) creds (cx_port ctx)) m1 of
        (Inl e, m2) \<Rightarrow> (Inl (''mdm.xml sync failed: '' @ show_mdm_error e), m2)
      | (Inr _, m2) \<Rightarrow>
     (case mcall (dbus_start (mo_proc ops) ctx) m2 of
        (Inl e, m3) \<Rightarrow> (Inl (''dbus-daemon start failed: '' @ e), m3)
      | (Inr dbus, m3) \<Rightarrow>
     (case mcall (svc_start (mo_proc ops) ctx) m3 of
        (Inl e, m4) \<Rightarrow>
          (Inl (''warp-svc start failed: '' @ e), snd (mcall (dbus_shutdown (mo_proc ops) dbus) m4))
      | (Inr svc, m4) \<Rightarrow>
     (case mcall (readiness_probe (mo_control ops) recommended_backoff readiness_max_attempts ctx) m4 of
        (r, m5) \<Rightarrow>
          if \<not> pr_ready r then
            (Inl (''control plane not ready after '' @ show_nat (pr_attempts r) @ '' attempts: '' @
                  mo_debug_probe ops (pr_last_error r)),
             snd (stop_processes ops ctx svc dbus m5))
          else
     (case mcall (flow_run (mo_control ops) (mo_proc ops) (mo_backoff ops) (mo_max_register ops) ctx creds) m5 of
        (Inl e, m6) \<Rightarrow> (Inl (mo_debug_flow ops e), snd (stop_processes ops ctx svc dbus m6))
      | (Inr _, m6) \<Rightarrow> (Inr (svc, dbus, creds), m6)))))))"

text \<open>The end of \<open>do_start\<close>: what the verification of the data plane gives.\<close>

definition conclude_start :: "'e manager_ops \<Rightarrow> instance_context \<Rightarrow> credentials
    \<Rightarrow> string + data_plane_report \<Rightarrow> 'e manager \<Rightarrow> 'e manager" where
  "conclude_start ops ctx creds verified m =
     (case verified of
        Inr report \<Rightarrow>
          (let m1 = (if cd_mode creds = ZeroTrust
                     then m\<lparr>mg_world := remove_after_enroll (mo_fs ops) (ip_state_dir (cx_paths ctx)) (mg_world m)\<rparr>
                     else m);
               m2 = on_reg (reg_update (cx_id ctx) (\<lambda>e. (record_probe_metrics report e)\<lparr>ir_last_error := None\<rparr>)) m1;
               m3 = on_reg (set_state (cx_id ctx) Healthy) m2
           in publish_transition (cx_id ctx) Starting Healthy ''data plane verified'' m3)
      | Inl msg \<Rightarrow>
          if map_option ir_state (reg_get (mg_reg m) (cx_id ctx)) = Some Starting then
            publish_transition (cx_id ctx) Starting Degraded msg
              (on_reg (reg_update (cx_id ctx)
                 (\<lambda>e. e\<lparr>ir_state := Degraded, ir_failures := 1, ir_last_error := Some msg\<rparr>)) m)
          else m)"

definition do_start :: "'e manager_ops \<Rightarrow> ('e manager \<Rightarrow> 'e manager) \<Rightarrow> instance_context \<Rightarrow> int option
    \<Rightarrow> 'e manager \<Rightarrow> (manager_error + running) \<times> 'e manager" where
  "do_start ops others ctx profile m =
     (case next_generation (cx_id ctx) m of (generation, m0) \<Rightarrow>
      (let m1 = on_reg (reg_insert (cx_id ctx)) m0;
           from = state_or Stopped (cx_id ctx) m1
       in case mcall (call (mo_port_free ops (cx_port ctx))) m1 of (free, m2) \<Rightarrow>
          if \<not> free then
            (Inl (PortInUse (cx_id ctx) (cx_port ctx)),
             fail_start (cx_id ctx) from
               (''internal port '' @ show_nat (unat (cx_port ctx)) @ '' already in use'') m2)
          else
          (let m3 = publish_transition (cx_id ctx) from Starting ''start''
                      (on_reg (set_state (cx_id ctx) Starting) m2)
           in case bring_up ops ctx profile m3 of
                (Inl msg, m4) \<Rightarrow> (Inl (StartFailed (cx_id ctx) msg), fail_start (cx_id ctx) Starting msg m4)
              | (Inr (svc, dbus, creds), m4) \<Rightarrow>
                  (let m5 = on_reg (on_started (cx_id ctx) svc dbus) m4
                   in case verify_data_plane ops others ctx verify_attempts m5 of (verified, m6) \<Rightarrow>
                      (Inr \<lparr>ru_ctx = ctx, ru_dbus = Some dbus, ru_cancel = True,
                            ru_watcher = Some \<lparr>wt_svc = svc, wt_generation = generation\<rparr>\<rparr>,
                       conclude_start ops ctx creds verified m6)))))"

section \<open>Stop\<close>

text \<open>The running instance comes back changed: the handles that were taken out are gone. Taking
  an absent D-Bus handle would panic; every entry of the table has one.\<close>

definition do_stop :: "'e manager_ops \<Rightarrow> instance_context \<Rightarrow> running \<Rightarrow> 'e manager
    \<Rightarrow> (manager_error + stop_outcome) \<times> running \<times> 'e manager" where
  "do_stop ops ctx r m =
     (let from = state_or Healthy (cx_id ctx) m;
          m1 = publish_transition (cx_id ctx) from Stopping ''stop'' (on_reg (set_state (cx_id ctx) Stopping) m);
          r1 = r\<lparr>ru_cancel := False\<rparr>
      in case ru_watcher r1 of
           None \<Rightarrow> (Inl (StopFailed (cx_id ctx) ''watcher task already consumed''), r1, m1)
         | Some task \<Rightarrow>
             (let r2 = r1\<lparr>ru_watcher := None\<rparr>
              in case mcall (call (mo_join ops task)) m1 of
                   (JoinFailed e, m2) \<Rightarrow>
                     (Inl (StopFailed (cx_id ctx) (''watcher task join failed: '' @ e)), r2, m2)
                 | (Joined _, m2) \<Rightarrow>
                     (case stop_processes ops ctx (wt_svc task) (the (ru_dbus r2)) m2 of
                        (Inl e, m3) \<Rightarrow> (Inl (StopFailed (cx_id ctx) e), r2, m3)
                      | (Inr outcome, m3) \<Rightarrow>
                          (Inr outcome, r2,
                           publish_transition (cx_id ctx) Stopping Stopped ''stop''
                             (on_reg (on_stopped (cx_id ctx)) m3)))))"

section \<open>The runtime trait\<close>

definition put_run :: "instance_id \<Rightarrow> running \<Rightarrow> 'e manager \<Rightarrow> 'e manager" where
  "put_run i r m = m\<lparr>mg_runs := AList.update i r (mg_runs m)\<rparr>"

definition take_running :: "instance_id \<Rightarrow> 'e manager \<Rightarrow> running option \<times> 'e manager" where
  "take_running i m = (map_of (mg_runs m) i, m\<lparr>mg_runs := AList.delete i (mg_runs m)\<rparr>)"

definition rt_start :: "'e manager_ops \<Rightarrow> ('e manager \<Rightarrow> 'e manager) \<Rightarrow> instance_context \<Rightarrow> int option
    \<Rightarrow> 'e manager \<Rightarrow> (manager_error + unit) \<times> 'e manager" where
  "rt_start ops others ctx profile m =
     (if map_of (mg_runs m) (cx_id ctx) \<noteq> None then (Inl (AlreadyRunning (cx_id ctx)), m)
      else case do_start ops others ctx profile m of
             (Inl e, m1) \<Rightarrow> (Inl e, m1)
           | (Inr r, m1) \<Rightarrow> (Inr (), put_run (cx_id ctx) r m1))"

definition rt_stop :: "'e manager_ops \<Rightarrow> instance_id \<Rightarrow> 'e manager \<Rightarrow> (manager_error + stop_outcome) \<times> 'e manager" where
  "rt_stop ops i m =
     (case take_running i m of
        (None, _) \<Rightarrow>
          (let before = map_option ir_state (reg_get (mg_reg m) i);
               m1 = on_reg (set_state i Stopped) m;
               m2 = (case before of
                       None \<Rightarrow> m1
                     | Some from \<Rightarrow> if from \<noteq> Stopped
                                    then publish_transition i from Stopped ''stop (idempotent)'' m1 else m1)
           in (Inr \<lparr>so_kill_required = False, so_exit = None\<rparr>, m2))
      | (Some r, m1) \<Rightarrow>
          (case do_stop ops (ru_ctx r) r m1 of
             (Inl e, r', m2) \<Rightarrow> (Inl e, put_run i r' m2)
           | (Inr outcome, _, m2) \<Rightarrow> (Inr outcome, m2\<lparr>mg_current := AList.delete i (mg_current m2)\<rparr>)))"

text \<open>The context that a restart or a delete works on: that of the running instance, stopped
  first, or a new one.\<close>

definition stop_for :: "'e manager_ops \<Rightarrow> bool \<Rightarrow> instance_id \<Rightarrow> 'e manager
    \<Rightarrow> (manager_error + instance_context) \<times> 'e manager" where
  "stop_for ops need_record i m =
     (case take_running i m of
        (Some r, m1) \<Rightarrow>
          (case do_stop ops (ru_ctx r) r m1 of
             (Inl e, r', m2) \<Rightarrow> (Inl e, put_run i r' m2)
           | (Inr _, _, m2) \<Rightarrow> (Inr (ru_ctx r), m2))
      | (None, _) \<Rightarrow>
          if need_record \<and> reg_get (mg_reg m) i = None then (Inl (NotRunning i), m)
          else (map_err (InvalidId i) (context_new (mo_data_dir ops) (mo_runtime_base ops) i), m))"

definition rt_restart :: "'e manager_ops \<Rightarrow> ('e manager \<Rightarrow> 'e manager) \<Rightarrow> instance_id \<Rightarrow> int option
    \<Rightarrow> 'e manager \<Rightarrow> (manager_error + unit) \<times> 'e manager" where
  "rt_restart ops others i profile m =
     (case stop_for ops True i m of
        (Inl e, m1) \<Rightarrow> (Inl e, m1)
      | (Inr ctx, m1) \<Rightarrow>
          (case do_start ops others ctx profile m1 of
             (Inl e, m2) \<Rightarrow> (Inl e, m2)
           | (Inr r, m2) \<Rightarrow> (Inr (), put_run i r m2)))"

definition rt_status :: "instance_id \<Rightarrow> 'e manager \<Rightarrow> instance_runtime option" where
  "rt_status i m = reg_get (mg_reg m) i"

definition rt_delete :: "'e manager_ops \<Rightarrow> instance_id \<Rightarrow> bool \<Rightarrow> 'e manager \<Rightarrow> (manager_error + unit) \<times> 'e manager" where
  "rt_delete ops i remove_registration m =
     (case stop_for ops False i m of
        (Inl e, m1) \<Rightarrow> (Inl e, m1)
      | (Inr ctx, m1) \<Rightarrow>
          (let m2 = on_reg (reg_remove i) m1
           in (Inr (), if remove_registration
                       then snd (mcall (call (fs_remove_file (mo_fs ops)
                              (path_join (ip_state_dir (cx_paths ctx)) registration_file))) m2)
                       else m2)))"

fun stop_ids :: "'e manager_ops \<Rightarrow> instance_id list \<Rightarrow> 'e manager \<Rightarrow> 'e manager" where
  "stop_ids ops [] m = m"
| "stop_ids ops (i # is) m = stop_ids ops is (snd (rt_stop ops i m))"

definition stop_all :: "'e manager_ops \<Rightarrow> 'e manager \<Rightarrow> 'e manager" where
  "stop_all ops m = stop_ids ops (List.map fst (mg_current m)) m"

section \<open>The crash watcher's report\<close>

definition watcher_crash :: "nat \<Rightarrow> crash_event \<Rightarrow> 'e manager \<Rightarrow> 'e manager" where
  "watcher_crash generation ev m =
     (if map_of (mg_current m) (cr_instance ev) \<noteq> Some generation then m
      else (let from = state_or Healthy (cr_instance ev) m;
                reason = crash_summary (cr_exit_code ev);
                tx = transition (cr_instance ev) from Failed reason
            in publish (HealthChanged tx) (publish (StateChanged tx) (on_reg (on_crash ev) m))))"

section \<open>The health monitor\<close>

definition probed :: "runtime_state \<Rightarrow> bool" where
  "probed s \<longleftrightarrow> s = Healthy \<or> s = Degraded"

definition collect_health_layers :: "'e manager_ops \<Rightarrow> instance_id \<Rightarrow> 'e manager
    \<Rightarrow> (instance_runtime \<times> layers_report) option \<times> 'e manager" where
  "collect_health_layers ops i m =
     (case reg_get (mg_reg m) i of
        None \<Rightarrow> (None, m)
      | Some snapshot \<Rightarrow>
          if \<not> probed (ir_state snapshot) then (None, m)
          else (case context_new (mo_data_dir ops) (mo_runtime_base ops) i of
                  Inl _ \<Rightarrow> (None, m)
                | Inr ctx \<Rightarrow>
                    (case mcall (call (ct_status (mo_control ops) ctx)) m of (st, m1) \<Rightarrow>
                    (case mcall (call (mo_probe ops (cx_port ctx))) m1 of (dp, m2) \<Rightarrow>
                       (Some (snapshot,
                          \<lparr>lr_process_alive = (ir_warp_pid snapshot \<noteq> None),
                           lr_control_connected = (case st of Inl _ \<Rightarrow> False | Inr s \<Rightarrow> st_connected s),
                           lr_data_plane = res_ok dp\<rparr>), m2)))))"

definition health_error :: "layers_report \<Rightarrow> string option" where
  "health_error report =
     (if \<not> lr_control_connected report then Some ''warp-cli status disconnected''
      else (case lr_data_plane report of
              None \<Rightarrow> Some ''data-plane probe failed''
            | Some d \<Rightarrow> if \<not> warp_on d then Some ''warp is off'' else None))"

definition health_update :: "runtime_state \<Rightarrow> health_counters \<Rightarrow> layers_report \<Rightarrow> instance_runtime \<Rightarrow> instance_runtime" where
  "health_update target k report e =
     (let e1 = e\<lparr>ir_state := target, ir_failures := hk_failures k, ir_successes := hk_successes k\<rparr>;
          e2 = (case lr_data_plane report of None \<Rightarrow> e1 | Some d \<Rightarrow> record_probe_metrics d e1)
      in e2\<lparr>ir_last_error := health_error report\<rparr>)"

text \<open>The guard is read once before the update and once inside it; nothing can come between in
  a single step, so the second reading is the first.\<close>

definition apply_health_verdict :: "instance_id \<Rightarrow> health_verdict \<Rightarrow> health_counters \<Rightarrow> layers_report
    \<Rightarrow> 'e manager \<Rightarrow> 'e manager" where
  "apply_health_verdict i v k report m =
     (case reg_get (mg_reg m) i of
        None \<Rightarrow> m
      | Some before \<Rightarrow>
          if \<not> probed (ir_state before) then m
          else
          (let target = verdict_state v;
               new4 = Option.bind (lr_data_plane report) exit_ip_v4;
               new6 = Option.bind (lr_data_plane report) exit_ip_v6;
               changed = (new4 \<noteq> None \<and> new4 \<noteq> ir_exit_v4 before \<or> new6 \<noteq> None \<and> new6 \<noteq> ir_exit_v6 before);
               m1 = on_reg (reg_update i (health_update target k report)) m;
               reason = (if target = Healthy then ''recovered''
                         else if target = Failed
                         then ''consecutive failures reached '' @ show_nat (hk_failures k)
                         else ''health check degraded'');
               tx = transition i (ir_state before) target reason;
               m2 = (if ir_state before \<noteq> target
                     then publish (HealthChanged tx) (publish (StateChanged tx) m1) else m1)
           in if changed
              then publish (ExitIpChanged i (map_option show_ip new4) (map_option show_ip new6)
                     (Option.bind (lr_data_plane report) colo)
                     (map_option (\<lambda>d. min (dp_latency d) u32_max) (lr_data_plane report))) m2
              else m2))"

text \<open>\<open>tick_instance\<close>; \<open>others\<close> is what happens between the collection and the verdict.\<close>

definition tick_instance :: "'e manager_ops \<Rightarrow> health_config \<Rightarrow> ('e manager \<Rightarrow> 'e manager) \<Rightarrow> instance_id
    \<Rightarrow> 'e manager \<Rightarrow> bool \<times> 'e manager" where
  "tick_instance ops cfg others i m =
     (case collect_health_layers ops i m of
        (None, m1) \<Rightarrow> (False, m1)
      | (Some (snapshot, report), m1) \<Rightarrow>
          (let m2 = others m1 in
           case assess_layers report \<lparr>hk_failures = ir_failures snapshot, hk_successes = ir_successes snapshot\<rparr>
                  cfg (ir_state snapshot) of
             None \<Rightarrow> (True, m2)
           | Some (v, k) \<Rightarrow> (True, apply_health_verdict i v k report m2)))"

fun health_tick :: "'e manager_ops \<Rightarrow> health_config \<Rightarrow> ('e manager \<Rightarrow> 'e manager) \<Rightarrow> instance_id list
    \<Rightarrow> 'e manager \<Rightarrow> nat \<times> 'e manager" where
  "health_tick ops cfg others [] m = (0, m)"
| "health_tick ops cfg others (i # is) m =
     (case tick_instance ops cfg others i m of (p, m1) \<Rightarrow>
        (case health_tick ops cfg others is m1 of (n, m2) \<Rightarrow> (if p then Suc n else n, m2)))"

text \<open>What runs beside an operation: reports of crash watchers and verdicts of the health
  monitor.\<close>

datatype task_event =
    Crashed nat crash_event
  | Verdict instance_id health_verdict health_counters layers_report

fun task_step :: "task_event \<Rightarrow> 'e manager \<Rightarrow> 'e manager" where
  "task_step (Crashed g ev) m = watcher_crash g ev m"
| "task_step (Verdict i v k report) m = apply_health_verdict i v k report m"

section \<open>What an operation leaves alone\<close>

lemma mcall_frame [frame_simps]:
  "mg_reg (snd (mcall f m)) = mg_reg m" "mg_bus (snd (mcall f m)) = mg_bus m"
  "mg_runs (snd (mcall f m)) = mg_runs m" "mg_current (snd (mcall f m)) = mg_current m"
  by (simp_all add: mcall_def split: prod.splits)

lemma mcall_frameD:
  "mcall f m = (r, m') \<Longrightarrow> mg_reg m' = mg_reg m \<and> mg_bus m' = mg_bus m \<and> mg_runs m' = mg_runs m \<and>
     mg_current m' = mg_current m"
  using mcall_frame [of f m] by simp

lemma on_reg_frame [simp]:
  "mg_reg (on_reg f m) = f (mg_reg m)" "mg_bus (on_reg f m) = mg_bus m"
  "mg_runs (on_reg f m) = mg_runs m" "mg_current (on_reg f m) = mg_current m"
  by (simp_all add: on_reg_def)

lemma publish_frame [simp]:
  "mg_reg (publish ev m) = mg_reg m" "mg_bus (publish ev m) = mg_bus m @ [ev]"
  "mg_runs (publish ev m) = mg_runs m" "mg_current (publish ev m) = mg_current m"
  by (simp_all add: publish_def)

lemma publish_transition_frame [simp]:
  "mg_reg (publish_transition i a b c m) = mg_reg m"
  "mg_bus (publish_transition i a b c m) = mg_bus m @ [StateChanged (transition i a b c)]"
  "mg_runs (publish_transition i a b c m) = mg_runs m"
  "mg_current (publish_transition i a b c m) = mg_current m"
  by (simp_all add: publish_transition_def)

lemma fail_start_frame [simp]:
  "mg_reg (fail_start i from msg m) = record_error i msg (mg_reg m)"
  "mg_bus (fail_start i from msg m) = mg_bus m @
     [StateChanged (transition i from Failed msg), HealthChanged (transition i from Failed msg)]"
  "mg_runs (fail_start i from msg m) = mg_runs m"
  "mg_current (fail_start i from msg m) = mg_current m"
  by (simp_all add: fail_start_def)

lemma next_generation_frame [simp]:
  "mg_reg (snd (next_generation i m)) = mg_reg m" "mg_runs (snd (next_generation i m)) = mg_runs m"
  "map_of (mg_current (snd (next_generation i m))) = (map_of (mg_current m))(i \<mapsto> fst (next_generation i m))"
  by (simp_all add: next_generation_def Let_def update_conv')

lemma next_generation_greater:
  "map_of (mg_current m) i = Some g \<Longrightarrow> g < fst (next_generation i m)"
  by (simp add: next_generation_def Let_def)

lemma put_run_frame [simp]:
  "mg_reg (put_run i r m) = mg_reg m" "mg_bus (put_run i r m) = mg_bus m"
  "map_of (mg_runs (put_run i r m)) = (map_of (mg_runs m))(i \<mapsto> r)" "mg_current (put_run i r m) = mg_current m"
  by (simp_all add: put_run_def update_conv')

lemma bring_up_frame:
  "bring_up ops ctx profile m = (r, m') \<Longrightarrow> mg_reg m' = mg_reg m \<and> mg_bus m' = mg_bus m \<and>
     mg_runs m' = mg_runs m \<and> mg_current m' = mg_current m"
  unfolding bring_up_def stop_processes_def
  by (auto dest!: mcall_frameD simp: frame_simps split: prod.splits sum.splits if_splits)

text \<open>What the concurrent tasks may do while a start verifies: they do not touch the tables.\<close>

definition keeps_tables :: "('e manager \<Rightarrow> 'e manager) \<Rightarrow> bool" where
  "keeps_tables f \<longleftrightarrow> (\<forall>m. mg_runs (f m) = mg_runs m \<and> mg_current (f m) = mg_current m)"

lemma verify_data_plane_tables:
  "keeps_tables others \<Longrightarrow> verify_data_plane ops others ctx n m = (r, m') \<Longrightarrow>
     mg_runs m' = mg_runs m \<and> mg_current m' = mg_current m"
proof (induction n arbitrary: m)
  case (Suc n)
  then show ?case
    by (fastforce simp: keeps_tables_def Let_def dest!: mcall_frameD split: prod.splits sum.splits if_splits)
qed simp

lemma mcall_call: "mcall (call f) m = (r, m') \<Longrightarrow> \<exists>e. fst (f e) = r"
  by (auto simp: mcall_def call_def split: prod.splits) (metis fst_conv)

lemma verify_data_plane_ok:
  "verify_data_plane ops others ctx n m = (Inr report, m') \<Longrightarrow>
     warp_on report \<and> (\<exists>e. fst (mo_probe ops (cx_port ctx) e) = Inr report)"
proof (induction n arbitrary: m)
  case (Suc n)
  obtain r m1 where p: "mcall (call (mo_probe ops (cx_port ctx))) m = (r, m1)" by fastforce
  show ?case
  proof (cases "\<exists>rep. r = Inr rep \<and> warp_on rep")
    case True
    with Suc.prems p mcall_call [OF p] show ?thesis by auto
  next
    case False
    with Suc.prems p obtain m2 where "verify_data_plane ops others ctx n m2 = (Inr report, m')"
      by (cases r) (auto simp: Let_def split: if_splits)
    then show ?thesis by (rule Suc.IH)
  qed
qed simp

lemma conclude_start_frame [simp]:
  "mg_runs (conclude_start ops ctx creds v m) = mg_runs m"
  "mg_current (conclude_start ops ctx creds v m) = mg_current m"
  by (simp_all add: conclude_start_def Let_def split: sum.splits)

lemma keeps_tables_id: "keeps_tables (\<lambda>m. m)"
  by (simp add: keeps_tables_def)

lemma keeps_tables_crash: "keeps_tables (watcher_crash g ev)"
  by (simp add: keeps_tables_def watcher_crash_def Let_def)

text \<open>An instance that is starting stays so until a crash of it is reported; no verdict of the health
  monitor is applied to it before or after.\<close>

definition starting_or_crashed :: "task_event list \<Rightarrow> instance_id \<Rightarrow> 'e manager \<Rightarrow> bool" where
  "starting_or_crashed evs i m \<longleftrightarrow>
     (\<exists>x. reg_get (mg_reg m) i = Some x \<and> (ir_state x = Starting \<or>
        ir_state x = Failed \<and> (\<exists>g ev. Crashed g ev \<in> set evs \<and> cr_instance ev = i)))"

lemma task_step_starting:
  assumes "starting_or_crashed evs i m" "e \<in> set evs"
  shows "starting_or_crashed evs i (task_step e m)"
proof (cases e)
  case (Crashed g ev)
  with assms show ?thesis
    by (cases "cr_instance ev = i") (auto simp: starting_or_crashed_def watcher_crash_def Let_def on_crash_def, blast+)
next
  case (Verdict j v k report)
  have "reg_get (mg_reg (apply_health_verdict j v k report m)) i = reg_get (mg_reg m) i"
    using assms(1)
    by (cases "j = i") (auto simp: starting_or_crashed_def apply_health_verdict_def probed_def Let_def split: option.splits)
  with Verdict assms(1) show ?thesis by (simp add: starting_or_crashed_def)
qed

lemma tasks_starting:
  "starting_or_crashed evs i m \<Longrightarrow> set es \<subseteq> set evs \<Longrightarrow> starting_or_crashed evs i (fold task_step es m)"
  by (induction es arbitrary: m) (auto intro: task_step_starting)

lemma verify_data_plane_starting:
  "starting_or_crashed evs i m \<Longrightarrow> verify_data_plane ops (fold task_step evs) ctx n m = (r, m') \<Longrightarrow>
     starting_or_crashed evs i m'"
proof (induction n arbitrary: m)
  case (Suc n)
  obtain q m1 where p: "mcall (call (mo_probe ops (cx_port ctx))) m = (q, m1)" by fastforce
  let ?m2 = "fold task_step evs m1"
  have "starting_or_crashed evs i m1" using Suc.prems(1) mcall_frameD [OF p] by (simp add: starting_or_crashed_def)
  then have m2: "starting_or_crashed evs i ?m2" by (intro tasks_starting) simp_all
  show ?case
  proof (cases "\<exists>rep. q = Inr rep \<and> warp_on rep")
    case True
    with Suc.prems(2) p m2 show ?thesis by auto
  next
    case False
    let ?m3 = "if 0 < n then ?m2\<lparr>mg_world := sleep verify_backoff (mg_world ?m2)\<rparr> else ?m2"
    have "verify_data_plane ops (fold task_step evs) ctx n ?m3 = (r, m')"
      using False Suc.prems(2) p by (cases q) (auto simp: Let_def split: if_splits)
    then show ?thesis by (rule Suc.IH [rotated]) (use m2 in \<open>simp add: starting_or_crashed_def\<close>)
  qed
qed simp

lemma task_step_tables: "keeps_tables (fold task_step evs)"
proof -
  have "mg_runs (task_step e m) = mg_runs m \<and> mg_current (task_step e m) = mg_current m" for e and m :: "'a manager"
    by (cases e) (auto simp: watcher_crash_def apply_health_verdict_def Let_def split: option.splits)
  then have "mg_runs (fold task_step evs m) = mg_runs m \<and> mg_current (fold task_step evs m) = mg_current m"
    for m :: "'a manager"
    by (induction evs arbitrary: m) simp_all
  then show ?thesis by (simp add: keeps_tables_def)
qed

text \<open>Cases of a start: the port is taken, the processes do not come up, or they do and the
  verification decides.\<close>

lemma do_start_cases:
  assumes "do_start ops others ctx profile m = (r, m')"
  obtains
    m2 fr where "r = Inl (PortInUse (cx_id ctx) (cx_port ctx))"
      "mg_reg m2 = reg_insert (cx_id ctx) (mg_reg m)" "mg_runs m2 = mg_runs m"
      "m' = fail_start (cx_id ctx) fr (''internal port '' @ show_nat (unat (cx_port ctx)) @ '' already in use'') m2"
  | m4 msg where "r = Inl (StartFailed (cx_id ctx) msg)"
      "mg_reg m4 = set_state (cx_id ctx) Starting (reg_insert (cx_id ctx) (mg_reg m))" "mg_runs m4 = mg_runs m"
      "m' = fail_start (cx_id ctx) Starting msg m4"
  | m5 m6 svc dbus creds v where
      "r = Inr \<lparr>ru_ctx = ctx, ru_dbus = Some dbus, ru_cancel = True,
         ru_watcher = Some \<lparr>wt_svc = svc, wt_generation = fst (next_generation (cx_id ctx) m)\<rparr>\<rparr>"
      "mg_reg m5 = on_started (cx_id ctx) svc dbus (set_state (cx_id ctx) Starting (reg_insert (cx_id ctx) (mg_reg m)))"
      "mg_runs m5 = mg_runs m" "mg_current m5 = mg_current (snd (next_generation (cx_id ctx) m))"
      "verify_data_plane ops others ctx verify_attempts m5 = (v, m6)"
      "m' = conclude_start ops ctx creds v m6"
proof -
  obtain g m0 where g: "next_generation (cx_id ctx) m = (g, m0)" by fastforce
  let ?m1 = "on_reg (reg_insert (cx_id ctx)) m0"
  let ?from = "state_or Stopped (cx_id ctx) ?m1"
  have m0: "mg_reg m0 = mg_reg m" "mg_runs m0 = mg_runs m"
    using next_generation_frame [of "cx_id ctx" m] g by auto
  obtain free m2 where f: "mcall (call (mo_port_free ops (cx_port ctx))) ?m1 = (free, m2)" by fastforce
  note m2 = mcall_frameD [OF f]
  let ?m3 = "publish_transition (cx_id ctx) ?from Starting ''start'' (on_reg (set_state (cx_id ctx) Starting) m2)"
  obtain b m4 where b: "bring_up ops ctx profile ?m3 = (b, m4)" by fastforce
  note m4 = bring_up_frame [OF b]
  note run = assms [unfolded do_start_def g, simplified Let_def prod.case f b]
  show thesis
  proof (cases free)
    case False
    with run that(1) [of m2 ?from] m0 m2 show thesis by auto
  next
    case True
    show thesis
    proof (cases b)
      case (Inl msg)
      with run True that(2) [of msg m4] m0 m2 m4 show thesis by auto
    next
      case (Inr x)
      obtain svc dbus creds where x: "x = (svc, dbus, creds)" by (cases x) auto
      let ?m5 = "on_reg (on_started (cx_id ctx) svc dbus) m4"
      obtain v m6 where v: "verify_data_plane ops others ctx verify_attempts ?m5 = (v, m6)" by fastforce
      show thesis
        using run True Inr x v m0 m2 m4 g by (intro that(3) [of dbus svc ?m5 v m6 creds]) auto
    qed
  qed
qed

section \<open>Stopping\<close>

text \<open>An entry whose watcher has been taken out: no operation can stop it any more.\<close>

definition stuck :: "instance_id \<Rightarrow> 'e manager \<Rightarrow> bool" where
  "stuck i m \<longleftrightarrow> (\<exists>r. map_of (mg_runs m) i = Some r \<and> ru_watcher r = None \<and> cx_id (ru_ctx r) = i)"

lemma do_stop_Inl:
  assumes "do_stop ops ctx r m = (Inl e, r', m')"
  shows "ru_watcher r' = None \<and> ru_ctx r' = ru_ctx r \<and>
    mg_reg m' = set_state (cx_id ctx) Stopping (mg_reg m) \<and> mg_runs m' = mg_runs m \<and>
    mg_current m' = mg_current m"
  using assms unfolding do_stop_def stop_processes_def Let_def
  by (auto dest!: mcall_frameD split: option.splits prod.splits sum.splits join_result.splits)

lemma do_stop_Inr:
  assumes "do_stop ops ctx r m = (Inr oc, r', m')"
  shows "mg_reg m' = on_stopped (cx_id ctx) (set_state (cx_id ctx) Stopping (mg_reg m)) \<and>
    mg_runs m' = mg_runs m \<and> mg_current m' = mg_current m"
  using assms unfolding do_stop_def stop_processes_def Let_def
  by (auto dest!: mcall_frameD split: option.splits prod.splits sum.splits join_result.splits)

lemma do_stop_consumed:
  "ru_watcher r = None \<Longrightarrow> do_stop ops ctx r m =
     (Inl (StopFailed (cx_id ctx) ''watcher task already consumed''), r\<lparr>ru_cancel := False\<rparr>,
      publish_transition (cx_id ctx) (state_or Healthy (cx_id ctx) m) Stopping ''stop''
        (on_reg (set_state (cx_id ctx) Stopping) m))"
  by (simp add: do_stop_def Let_def)

lemma take_running_frame [simp]:
  "fst (take_running i m) = map_of (mg_runs m) i" "mg_reg (snd (take_running i m)) = mg_reg m"
  "mg_current (snd (take_running i m)) = mg_current m"
  by (simp_all add: take_running_def)

lemma stuck_stop_for:
  assumes "stuck i m"
  shows "\<exists>m'. stop_for ops b i m = (Inl (StopFailed i ''watcher task already consumed''), m') \<and> stuck i m'"
  using assms
  by (auto simp: stop_for_def stuck_def take_running_def do_stop_consumed)

lemma stuck_rt_stop:
  assumes "stuck i m"
  shows "\<exists>m'. rt_stop ops i m = (Inl (StopFailed i ''watcher task already consumed''), m') \<and> stuck i m'"
  using assms
  by (auto simp: rt_stop_def stuck_def take_running_def do_stop_consumed)

lemma rt_stop_fail_stuck:
  assumes "map_of (mg_runs m) i = Some r" and "cx_id (ru_ctx r) = i" and "rt_stop ops i m = (Inl e, m')"
  shows "stuck i m' \<and> reg_get (mg_reg m') i = map_option (\<lambda>x. x\<lparr>ir_state := Stopping\<rparr>) (reg_get (mg_reg m) i)"
  using assms
  by (auto simp: rt_stop_def take_running_def stuck_def dest!: do_stop_Inl split: prod.splits sum.splits)

section \<open>A concrete world\<close>

definition demo_report :: data_plane_report where
  "demo_report = \<lparr>dp_v4 = Some \<lparr>tr_ip = None, tr_colo = None, tr_warp = Some ''on''\<rparr>, dp_v6 = None, dp_latency = 12\<rparr>"

definition demo_fs :: "unit fs_ops" where
  "demo_fs = \<lparr>fs_create_dir = (\<lambda>_ e. (Inr (), 1, e)), fs_write_private = (\<lambda>_ _ e. (Inr (), 1, e)),
     fs_remove_file = (\<lambda>_ e. (NotFound, 1, e))\<rparr>"

definition demo_ops :: "join_result \<Rightarrow> unit manager_ops" where
  "demo_ops j =
     \<lparr>mo_control = demo_control, mo_proc = demo_proc, mo_fs = demo_fs,
      mo_resolve = (\<lambda>_ e. (Inr credentials_free, 1, e)), mo_port_free = (\<lambda>_ e. (True, 1, e)),
      mo_probe = (\<lambda>_ e. (Inr demo_report, 1, e)), mo_join = (\<lambda>_ e. (j, 1, e)),
      mo_backoff = recommended_backoff, mo_max_register = 3, mo_data_dir = ''/d'', mo_runtime_base = ''/r'',
      mo_debug_probe = (\<lambda>_. []), mo_debug_flow = (\<lambda>_. [])\<rparr>"

definition demo_manager :: "unit manager" where
  "demo_manager = \<lparr>mg_world = \<lparr>w_now = 0, w_env = ()\<rparr>, mg_reg = [], mg_bus = [], mg_runs = [], mg_current = []\<rparr>"

lemma demo_bring_up: "\<exists>svc dbus creds m'. bring_up (demo_ops j) (demo_ctx i) profile m = (Inr (svc, dbus, creds), m')"
proof -
  have ready: "\<exists>w'. readiness_probe demo_control recommended_backoff readiness_max_attempts (demo_ctx i) w =
      (\<lparr>pr_ready = True, pr_attempts = 1, pr_last_error = None\<rparr>, w')" for w
    by (simp add: readiness_probe_def readiness_max_attempts_def numeral_eq_Suc demo_control_def call_def)
  have flow: "\<exists>oc w'. flow_run demo_control demo_proc recommended_backoff 3 (demo_ctx i) credentials_free w = (Inr oc, w')" for w
    by (simp add: flow_run_def credentials_free_def ensure_registered_def flow_configure_def flow_connect_def
        flow_verify_def verify_loop.simps call_def demo_control_def demo_proc_def)
  have mdm: "\<exists>w'. sync_mdm_xml demo_fs d credentials_free p w = (Inr (), w')" for d p w
    by (simp add: sync_mdm_xml_def credentials_free_def demo_fs_def call_def)
  have dbus: "\<exists>w'. dbus_start demo_proc (demo_ctx i) w = (Inr 11, w')" for w
    by (simp add: dbus_start_def demo_proc_def call_def wait_for_socket.simps)
  have svc: "\<exists>w'. svc_start demo_proc (demo_ctx i) w = (Inr 11, w')" for w
    by (simp add: svc_start_def demo_proc_def call_def)
  obtain m1 where m1: "mcall (call (mo_resolve (demo_ops j) profile)) m = (Inr credentials_free, m1)"
    by (simp add: mcall_def call_def demo_ops_def)
  obtain m2 where m2: "mcall (sync_mdm_xml demo_fs (ip_state_dir (cx_paths (demo_ctx i))) credentials_free (cx_port (demo_ctx i))) m1 = (Inr (), m2)"
    using mdm by (simp add: mcall_def) (metis case_prod_conv)
  obtain m3 where m3: "mcall (dbus_start demo_proc (demo_ctx i)) m2 = (Inr 11, m3)"
    using dbus by (simp add: mcall_def) (metis case_prod_conv)
  obtain m4 where m4: "mcall (svc_start demo_proc (demo_ctx i)) m3 = (Inr 11, m4)"
    using svc by (simp add: mcall_def) (metis case_prod_conv)
  obtain m5 where m5: "mcall (readiness_probe demo_control recommended_backoff readiness_max_attempts (demo_ctx i)) m4 =
      (\<lparr>pr_ready = True, pr_attempts = 1, pr_last_error = None\<rparr>, m5)"
    using ready by (simp add: mcall_def) (metis case_prod_conv)
  obtain oc m6 where m6: "mcall (flow_run demo_control demo_proc recommended_backoff 3 (demo_ctx i) credentials_free) m5 = (Inr oc, m6)"
    using flow by (simp add: mcall_def) (metis case_prod_conv)
  have ops: "mo_control (demo_ops j) = demo_control" "mo_proc (demo_ops j) = demo_proc" "mo_fs (demo_ops j) = demo_fs"
    "mo_backoff (demo_ops j) = recommended_backoff" "mo_max_register (demo_ops j) = 3"
    by (simp_all add: demo_ops_def)
  show ?thesis by (simp add: bring_up_def m1 m2 m3 m4 m5 m6 ops)
qed

lemma demo_do_start: "\<exists>r m'. do_start (demo_ops j) others (demo_ctx i) profile m = (Inr r, m')"
proof -
  let ?i = "cx_id (demo_ctx i)"
  let ?m1 = "on_reg (reg_insert ?i) (snd (next_generation ?i m))"
  obtain m2 where f: "mcall (call (mo_port_free (demo_ops j) (cx_port (demo_ctx i)))) ?m1 = (True, m2)"
    by (simp add: mcall_def call_def demo_ops_def)
  let ?m3 = "publish_transition ?i (state_or Stopped ?i ?m1) Starting ''start'' (on_reg (set_state ?i Starting) m2)"
  obtain svc dbus creds m4 where "bring_up (demo_ops j) (demo_ctx i) profile ?m3 = (Inr (svc, dbus, creds), m4)"
    using demo_bring_up [of j i profile ?m3] by blast
  then show ?thesis by (simp add: do_start_def Let_def case_prod_beta f)
qed

section \<open>Properties\<close>

text \<open>A stop that fails is final. After one failure (a cleanup that failed or a watcher
  that could not be joined) the instance stays in the table without its watcher: from then on
  every stop, restart and delete fails with the same error and every start is refused as
  already running, whatever the outside world does, and the registry keeps saying Stopping.\<close>

theorem manager_stop_failure_permanent:
  assumes "map_of (mg_runs m) i = Some r" and "cx_id (ru_ctx r) = i"
    and "rt_stop ops i m = (Inl e, m1)" and "cx_id ctx = i"
  shows "map_option ir_state (reg_get (mg_reg m1) i) \<in> {None, Some Stopping} \<and>
    (\<exists>m2. rt_stop ops' i m1 = (Inl (StopFailed i ''watcher task already consumed''), m2) \<and> stuck i m2) \<and>
    (\<exists>m2. rt_restart ops' others i profile m1 = (Inl (StopFailed i ''watcher task already consumed''), m2) \<and> stuck i m2) \<and>
    (\<exists>m2. rt_delete ops' i b m1 = (Inl (StopFailed i ''watcher task already consumed''), m2) \<and> stuck i m2) \<and>
    rt_start ops' others ctx profile m1 = (Inl (AlreadyRunning i), m1)"
proof -
  from rt_stop_fail_stuck [OF assms(1-3)] have st: "stuck i m1"
    and reg: "reg_get (mg_reg m1) i = map_option (\<lambda>x. x\<lparr>ir_state := Stopping\<rparr>) (reg_get (mg_reg m) i)" by auto
  from stuck_stop_for [OF st] have "\<exists>m'. stop_for ops' True i m1 = (Inl (StopFailed i ''watcher task already consumed''), m') \<and> stuck i m'"
    "\<exists>m'. stop_for ops' False i m1 = (Inl (StopFailed i ''watcher task already consumed''), m') \<and> stuck i m'" by auto
  moreover from st assms(4) have "rt_start ops' others ctx profile m1 = (Inl (AlreadyRunning i), m1)"
    by (auto simp: rt_start_def stuck_def)
  moreover have "map_option ir_state (reg_get (mg_reg m1) i) \<in> {None, Some Stopping}"
    unfolding reg by (cases "reg_get (mg_reg m) i") auto
  ultimately show ?thesis using stuck_rt_stop [OF st] by (auto simp: rt_restart_def rt_delete_def)
qed

text \<open>A crash during the verification of a start is overwritten. If the service dies and
  its watcher reports it while the start is probing, and the probe still sees \<open>warp=on\<close>, the
  instance ends up Healthy with no process id.\<close>

theorem manager_crash_overwritten:
  assumes "do_start ops (watcher_crash (fst (next_generation (cx_id ctx) m)) ev) ctx profile m = (Inr r, m')"
    and "cr_instance ev = cx_id ctx" and "\<forall>e. \<exists>dt e'. mo_probe ops (cx_port ctx) e = (Inr report, dt, e')"
    and "warp_on report"
  shows "\<exists>x. reg_get (mg_reg m') (cx_id ctx) = Some x \<and> ir_state x = Healthy \<and> ir_warp_pid x = None"
  using assms(1)
proof (cases rule: do_start_cases)
  case (3 m5 m6 svc dbus creds v)
  let ?i = "cx_id ctx"
  let ?crash = "watcher_crash (fst (next_generation ?i m)) ev"
  obtain m5' where p: "mcall (call (mo_probe ops (cx_port ctx))) m5 = (Inr report, m5')"
    using assms(3) [rule_format, of "w_env (mg_world m5)"] by (auto simp: mcall_def call_def)
  note f = mcall_frameD [OF p]
  have "verify_data_plane ops ?crash ctx verify_attempts m5 = (Inr report, ?crash m5')"
    using p assms(4) by (simp add: verify_attempts_def numeral_eq_Suc Let_def)
  with 3 have v: "v = Inr report" "m6 = ?crash m5'" by simp_all
  have "map_of (mg_current m5') ?i = Some (fst (next_generation ?i m))"
    using f 3(4) by simp
  then have "mg_reg m6 = on_crash ev (mg_reg m5)"
    using f assms(2) v by (simp add: watcher_crash_def Let_def)
  moreover have "\<exists>x. reg_get (mg_reg m5) ?i = Some x"
    using 3(2) by (cases "reg_get (mg_reg m) ?i") (auto simp: on_started_def)
  ultimately obtain x where "reg_get (mg_reg m6) ?i = Some x" "ir_warp_pid x = None"
    using assms(2) by (auto simp: on_crash_def)
  then show ?thesis
    using 3(6) v by (auto simp: conclude_start_def Let_def record_probe_metrics_def)
qed auto

text \<open>C25: A start does not pretend. If it returns an error other than already running, the
  instance is not in the table, the registry says Failed with the failure counted, and both a
  state event and a health event to Failed are on the bus. If it returns success, the instance
  is in the table, and the registry says Healthy only when the probe of the instance's own port has
  answered with a report that says \<open>warp=on\<close>, whose exit addresses it then shows. Otherwise it says
  Degraded, or Failed when a crash of the instance was reported during the start. Crash reports and
  verdicts of the health monitor may come in between any two attempts of the verification.\<close>

theorem manager_start_honest:
  assumes "map_of (mg_runs m) (cx_id ctx) = None"
    and "rt_start ops (fold task_step evs) ctx profile m = (res, m')"
  shows "(\<forall>e. res = Inl e \<longrightarrow> map_of (mg_runs m') (cx_id ctx) = None \<and>
      (\<exists>x msg fr. reg_get (mg_reg m') (cx_id ctx) = Some x \<and> ir_state x = Failed \<and> 0 < ir_failures x \<and>
        ir_last_error x = Some msg \<and>
        (\<exists>bus. mg_bus m' = bus @ [StateChanged (transition (cx_id ctx) fr Failed msg),
          HealthChanged (transition (cx_id ctx) fr Failed msg)]))) \<and>
    (res = Inr () \<longrightarrow> map_of (mg_runs m') (cx_id ctx) \<noteq> None \<and>
      (\<exists>x. reg_get (mg_reg m') (cx_id ctx) = Some x \<and>
        (ir_state x = Degraded \<or>
         ir_state x = Failed \<and> (\<exists>g ev. Crashed g ev \<in> set evs \<and> cr_instance ev = cx_id ctx) \<or>
         ir_state x = Healthy \<and>
           (\<exists>e report. fst (mo_probe ops (cx_port ctx) e) = Inr report \<and> warp_on report \<and>
              ir_exit_v4 x = exit_ip_v4 report \<and> ir_exit_v6 x = exit_ip_v6 report))))"
proof -
  let ?i = "cx_id ctx" and ?others = "fold task_step evs"
  obtain r m1 where d: "do_start ops ?others ctx profile m = (r, m1)" by fastforce
  have run: "(res, m') = (case r of Inl e \<Rightarrow> (Inl e, m1) | Inr x \<Rightarrow> (Inr (), put_run ?i x m1))"
    using assms d by (simp add: rt_start_def split: sum.splits)
  have pos: "0 < sat_add32 n 1" for n by (rule sat_add32_pos) simp
  from d show ?thesis
  proof (cases rule: do_start_cases)
    case (1 m2 fr)
    with run assms(1) pos show ?thesis
      by (cases "reg_get (mg_reg m) ?i") (auto simp: record_error_def)
  next
    case (2 m4 msg)
    with run assms(1) pos show ?thesis
      by (cases "reg_get (mg_reg m) ?i") (auto simp: record_error_def)
  next
    case (3 m5 m6 svc dbus creds v)
    have "starting_or_crashed evs ?i m5"
      using 3(2) by (cases "reg_get (mg_reg m) ?i") (auto simp: starting_or_crashed_def on_started_def)
    from verify_data_plane_starting [OF this 3(5)] obtain x where x: "reg_get (mg_reg m6) ?i = Some x"
      "ir_state x = Starting \<or> ir_state x = Failed \<and> (\<exists>g ev. Crashed g ev \<in> set evs \<and> cr_instance ev = ?i)"
      by (auto simp: starting_or_crashed_def)
    show ?thesis
    proof (cases v)
      case (Inl msg)
      with run 3 x show ?thesis by (auto simp: conclude_start_def)
    next
      case (Inr report)
      with verify_data_plane_ok 3(5) have "warp_on report" "\<exists>e. fst (mo_probe ops (cx_port ctx) e) = Inr report" by blast+
      with run 3 x Inr show ?thesis by (auto simp: conclude_start_def Let_def record_probe_metrics_def)
    qed
  qed
qed

text \<open>Late crash reports are harmless. After a stop that succeeded, and after a restart,
  the report of a watcher of an earlier generation changes nothing.\<close>

theorem manager_stale_crash_ignored:
  assumes "cr_instance ev = i"
  shows "(map_of (mg_runs m) i \<noteq> None \<and> rt_stop ops i m = (Inr oc, m') \<longrightarrow> watcher_crash g ev m' = m') \<and>
    (map_of (mg_current m) i = Some g \<and> cx_id ctx = i \<and> keeps_tables others \<and>
     do_start ops others ctx profile m = (Inr r, m'') \<longrightarrow> watcher_crash g ev m'' = m'')"
proof (intro conjI impI; elim conjE)
  assume "map_of (mg_runs m) i \<noteq> None" "rt_stop ops i m = (Inr oc, m')"
  then have "map_of (mg_current m') i = None"
    by (auto simp: rt_stop_def take_running_def delete_conv split: prod.splits sum.splits)
  then show "watcher_crash g ev m' = m'" using assms by (simp add: watcher_crash_def)
next
  assume g: "map_of (mg_current m) i = Some g" "cx_id ctx = i" and k: "keeps_tables others"
    and d: "do_start ops others ctx profile m = (Inr r, m'')"
  from d show "watcher_crash g ev m'' = m''"
  proof (cases rule: do_start_cases)
    case (3 m5 m6 svc dbus creds v)
    have "map_of (mg_current m'') i = Some (fst (next_generation i m))"
      using 3 verify_data_plane_tables [OF k 3(5)] g(2) by simp
    then show ?thesis
      using assms next_generation_greater [OF g(1)] by (simp add: watcher_crash_def)
  qed auto
qed

definition demo_running :: running where
  "demo_running = \<lparr>ru_ctx = demo_ctx 1, ru_dbus = Some 10, ru_cancel = True,
     ru_watcher = Some \<lparr>wt_svc = 11, wt_generation = 1\<rparr>\<rparr>"

definition demo_up :: "unit manager" where
  "demo_up = demo_manager\<lparr>mg_reg := [(1, rt_stopped\<lparr>ir_state := Healthy\<rparr>)], mg_runs := [(1, demo_running)],
     mg_current := [(1, 1)]\<rparr>"

definition demo_crash :: crash_event where
  "demo_crash = \<lparr>cr_instance = 1, cr_exit_code = Some 9, cr_stderr = []\<rparr>"

lemma demo_stop: "\<exists>oc m'. rt_stop (demo_ops (Joined None)) 1 demo_up = (Inr oc, m')"
proof -
  obtain n where "max_polls stop_grace stop_poll = Suc n"
    using not0_implies_Suc [of "max_polls stop_grace stop_poll"] by (auto simp: max_polls_def)
  then show ?thesis
    by (simp add: rt_stop_def take_running_def demo_up_def do_stop_def demo_running_def Let_def mcall_def call_def
        demo_ops_def stop_processes_def graceful_stop_def demo_control_def demo_proc_def dbus_shutdown_def
        demo_manager_def)
qed

theorem manager_stale_crash_ignored_witness:
  "\<exists>oc m'. rt_stop (demo_ops (Joined None)) 1 demo_up = (Inr oc, m') \<and> watcher_crash 1 demo_crash m' = m'"
proof -
  obtain oc m' where "rt_stop (demo_ops (Joined None)) 1 demo_up = (Inr oc, m')" using demo_stop by blast
  moreover have "map_of (mg_runs demo_up) 1 \<noteq> None" by (simp add: demo_up_def)
  ultimately show ?thesis
    using manager_stale_crash_ignored [of demo_crash 1 demo_up "demo_ops (Joined None)" oc m' 1]
    by (auto simp: demo_crash_def)
qed



theorem manager_crash_overwritten_witness:
  "\<exists>r m' x. do_start (demo_ops (Joined None)) (watcher_crash (fst (next_generation 1 demo_manager)) demo_crash)
      (demo_ctx 1) None demo_manager = (Inr r, m') \<and> reg_get (mg_reg m') 1 = Some x \<and>
      ir_state x = Healthy \<and> ir_warp_pid x = None"
proof -
  obtain r m' where d: "do_start (demo_ops (Joined None)) (watcher_crash (fst (next_generation 1 demo_manager)) demo_crash)
      (demo_ctx 1) None demo_manager = (Inr r, m')"
    using demo_do_start by blast
  have "warp_on demo_report" by (simp add: warp_on_def is_on_def demo_report_def)
  with manager_crash_overwritten [of "demo_ops (Joined None)" "demo_ctx 1" demo_manager demo_crash None r m' demo_report] d
  show ?thesis by (auto simp: demo_ctx_def demo_crash_def demo_ops_def)
qed

theorem manager_start_honest_witness:
  "\<exists>m' x. rt_start (demo_ops (Joined None)) (fold task_step [Crashed 1 demo_crash]) (demo_ctx 1) None demo_manager = (Inr (), m') \<and>
     reg_get (mg_reg m') 1 = Some x \<and> (ir_state x = Degraded \<or> ir_state x = Failed \<or> ir_state x = Healthy)"
proof -
  have free: "map_of (mg_runs demo_manager) (cx_id (demo_ctx 1)) = None" by (simp add: demo_manager_def)
  obtain r m1 where "do_start (demo_ops (Joined None)) (fold task_step [Crashed 1 demo_crash]) (demo_ctx 1) None demo_manager = (Inr r, m1)"
    using demo_do_start by blast
  then obtain m' where run: "rt_start (demo_ops (Joined None)) (fold task_step [Crashed 1 demo_crash]) (demo_ctx 1) None demo_manager = (Inr (), m')"
    using free by (simp add: rt_start_def)
  from manager_start_honest [OF free run] run show ?thesis by (auto simp: demo_ctx_def)
qed

theorem manager_stop_failure_permanent_witness:
  "\<exists>e m1 m2. rt_stop (demo_ops (JoinFailed ''panic'')) 1 demo_up = (Inl e, m1) \<and>
     rt_stop (demo_ops (Joined None)) 1 m1 = (Inl (StopFailed 1 ''watcher task already consumed''), m2)"
proof -
  obtain e m1 where f: "rt_stop (demo_ops (JoinFailed ''panic'')) 1 demo_up = (Inl e, m1)"
    by (simp add: rt_stop_def take_running_def demo_up_def do_stop_def demo_running_def Let_def mcall_def call_def
        demo_ops_def demo_manager_def)
  have "map_of (mg_runs demo_up) 1 = Some demo_running" "cx_id (ru_ctx demo_running) = 1" "cx_id (demo_ctx 1) = 1"
    by (simp_all add: demo_up_def demo_running_def demo_ctx_def)
  from manager_stop_failure_permanent [OF this(1,2) f this(3), of "demo_ops (Joined None)" "\<lambda>m. m" None True] f
  show ?thesis by blast
qed

end
