(* ===== verification/Socks5.thy ===== *)
theory Socks5
  imports GatewayConfig
begin

text \<open>
  \<open>src/gateway/socks5.rs\<close>: the SOCKS5 listener. A session runs through the stages of
  \<open>handle_conn\<close> (method negotiation, user/password sub-negotiation, limits, the CONNECT
  request, the upstream dial); a stage returns \<open>Inl\<close> with the reason when the session
  ends there. Bytes of the protocol are written as character codes.
\<close>

section \<open>Targets\<close>

datatype auth_method = NoAuth | UserPass

datatype target = TgtV4 bytes | TgtDomain string | TgtV6 bytes

text \<open>\<open>d.len() as u8\<close> keeps the low byte; \<open>char_of\<close> does the same.\<close>

fun push_into :: "target \<Rightarrow> bytes" where
  "push_into (TgtV4 os) = CHR 0x01 # os"
| "push_into (TgtDomain d) = CHR 0x03 # char_of (length d) # d"
| "push_into (TgtV6 os) = CHR 0x04 # os"

definition read_target_addr :: "byte \<Rightarrow> conn \<Rightarrow> target option \<times> conn" where
  "read_target_addr atyp c =
     (if atyp = CHR 0x01 then
        (case read_exact 4 c of (None, c1) \<Rightarrow> (None, c1) | (Some os, c1) \<Rightarrow> (Some (TgtV4 os), c1))
      else if atyp = CHR 0x03 then
        (case read_exact 1 c of
           (None, c1) \<Rightarrow> (None, c1)
         | (Some l, c1) \<Rightarrow>
             (case read_exact (of_char (l ! 0)) c1 of
                (None, c2) \<Rightarrow> (None, c2)
              | (Some d, c2) \<Rightarrow> (Some (TgtDomain (from_utf8_lossy d)), c2)))
      else if atyp = CHR 0x04 then
        (case read_exact 16 c of (None, c1) \<Rightarrow> (None, c1) | (Some os, c1) \<Rightarrow> (Some (TgtV6 os), c1))
      else (None, c))"

section \<open>The dial\<close>

definition reply :: "byte \<Rightarrow> bytes" where
  "reply code = [CHR 0x05, code, CHR 0x00, CHR 0x01, CHR 0x00, CHR 0x00, CHR 0x00, CHR 0x00,
     CHR 0x00, CHR 0x00]"

definition reply_ok :: bytes where
  "reply_ok = [CHR 0x05, CHR 0x00, CHR 0x00, CHR 0x01, CHR 0x7F, CHR 0x00, CHR 0x00, CHR 0x01,
     CHR 0x00, CHR 0x00]"

datatype dial_error = Refused | BrokenPipe | UnexpectedEof | MethodRejected bytes | ConnectRejected byte

definition dial_socks5_connect :: "(socket_addr \<Rightarrow> conn option) \<Rightarrow> socket_addr \<Rightarrow> target \<Rightarrow> port
    \<Rightarrow> dial_error + conn" where
  "dial_socks5_connect net addr tgt p =
     (case net addr of
        None \<Rightarrow> Inl Refused
      | Some up \<Rightarrow>
     (case write_all [CHR 0x05, CHR 0x01, CHR 0x00] up of
        (False, _) \<Rightarrow> Inl BrokenPipe
      | (True, up1) \<Rightarrow>
     (case read_exact 2 up1 of
        (None, _) \<Rightarrow> Inl UnexpectedEof
      | (Some resp, up2) \<Rightarrow>
          if resp ! 1 \<noteq> CHR 0x00 then Inl (MethodRejected resp)
          else
     (case write_all ([CHR 0x05, CHR 0x01, CHR 0x00] @ push_into tgt @ port_be p) up2 of
        (False, _) \<Rightarrow> Inl BrokenPipe
      | (True, up3) \<Rightarrow>
     (case read_exact 4 up3 of
        (None, _) \<Rightarrow> Inl UnexpectedEof
      | (Some head, up4) \<Rightarrow>
          if head ! 1 \<noteq> CHR 0x00 then Inl (ConnectRejected (head ! 1))
          else
     (case read_exact 6 up4 of
        (None, _) \<Rightarrow> Inl UnexpectedEof
      | (Some _, up5) \<Rightarrow> Inr up5))))))"

section \<open>Stages of a session\<close>

text \<open>Method negotiation.\<close>

definition negotiate :: "(string \<times> string) option \<Rightarrow> conn \<Rightarrow> (session_end + auth_method) \<times> conn" where
  "negotiate auth c =
     (case read_exact 2 c of
        (None, c1) \<Rightarrow> (Inl BadGreeting, c1)
      | (Some hdr, c1) \<Rightarrow>
          if hdr ! 0 \<noteq> CHR 0x05 then (Inl BadGreeting, c1)
          else
     (case read_exact (of_char (hdr ! 1)) c1 of
        (None, c2) \<Rightarrow> (Inl BadGreeting, c2)
      | (Some methods, c2) \<Rightarrow>
          (let want_auth = (auth \<noteq> None) in
           if want_auth \<and> CHR 0x02 \<in> set methods then
             (case write_all [CHR 0x05, CHR 0x02] c2 of
                (True, c3) \<Rightarrow> (Inr UserPass, c3) | (False, c3) \<Rightarrow> (Inl PeerGone, c3))
           else if \<not> want_auth \<and> CHR 0x00 \<in> set methods then
             (case write_all [CHR 0x05, CHR 0x00] c2 of
                (True, c3) \<Rightarrow> (Inr NoAuth, c3) | (False, c3) \<Rightarrow> (Inl PeerGone, c3))
           else (Inl NoMethod, write_ignore [CHR 0x05, CHR 0xFF] c2))))"

text \<open>A length byte and as many bytes.\<close>

definition read_counted :: "conn \<Rightarrow> bytes option \<times> conn" where
  "read_counted c =
     (case read_exact 1 c of
        (None, c1) \<Rightarrow> (None, c1)
      | (Some l, c1) \<Rightarrow> read_exact (of_char (l ! 0)) c1)"

text \<open>RFC 1929.\<close>

definition authenticate :: "auth_method \<Rightarrow> (string \<times> string) option \<Rightarrow> conn \<Rightarrow> (session_end + unit) \<times> conn" where
  "authenticate m auth c =
     (if m \<noteq> UserPass then (Inr (), c)
      else (case auth of
        None \<Rightarrow> (Inl AuthAborted, c)
      | Some (expect_user, expect_pass) \<Rightarrow>
     (case read_exact 1 c of
        (None, c1) \<Rightarrow> (Inl AuthAborted, c1)
      | (Some ver, c1) \<Rightarrow>
          if ver ! 0 \<noteq> CHR 0x01 then (Inl AuthAborted, c1)
          else
     (case read_counted c1 of
        (None, c2) \<Rightarrow> (Inl AuthAborted, c2)
      | (Some user, c2) \<Rightarrow>
     (case read_counted c2 of
        (None, c3) \<Rightarrow> (Inl AuthAborted, c3)
      | (Some pass, c3) \<Rightarrow>
          if \<not> verify_credentials (Some (expect_user, expect_pass)) user pass
          then (Inl AuthRejected, write_ignore [CHR 0x01, CHR 0x01] c3)
          else (Inr (), write_ignore [CHR 0x01, CHR 0x00] c3))))))"

text \<open>The CONNECT request; a failed read and any other command get the same answer.\<close>

definition read_request :: "conn \<Rightarrow> (session_end + target \<times> port) \<times> conn" where
  "read_request c =
     (case read_exact 4 c of
        (None, c1) \<Rightarrow> (Inl BadRequest, write_ignore (reply (CHR 0x07)) c1)
      | (Some head, c1) \<Rightarrow>
          if head ! 0 \<noteq> CHR 0x05 \<or> head ! 1 \<noteq> CHR 0x01
          then (Inl BadRequest, write_ignore (reply (CHR 0x07)) c1)
          else
     (case read_target_addr (head ! 3) c1 of
        (None, c2) \<Rightarrow> (Inl BadRequest, c2)
      | (Some tgt, c2) \<Rightarrow>
     (case read_exact 2 c2 of
        (None, c3) \<Rightarrow> (Inl BadRequest, c3)
      | (Some pb, c3) \<Rightarrow> (Inr (tgt, port_from_be pb), c3))))"

text \<open>From the request to the tunnel, with the permit held.\<close>

definition relay :: "session_env \<Rightarrow> rr_pool \<Rightarrow> 's session_limits option \<Rightarrow> session_permit option
    \<Rightarrow> target \<times> port \<Rightarrow> conn \<Rightarrow> 's session_result" where
  "relay env pool limits permit req c =
     (let stop = (\<lambda>e c' up pool'. \<lparr>sr_end = e, sr_client = c', sr_upstream = up,
              sr_limits = limits, sr_permit = permit, sr_pool = pool'\<rparr>)
      in case pick (se_registry env) pool of
           (None, pool1) \<Rightarrow> stop NoUpstream (write_ignore (reply (CHR 0x01)) c) None pool1
         | (Some u, pool1) \<Rightarrow>
             if se_dial_slow env
             then stop DialTimeout (write_ignore (reply (CHR 0x01)) c) None pool1
             else (case dial_socks5_connect (se_dial env) (up_addr u) (fst req) (snd req) of
                     Inl _ \<Rightarrow> stop DialFailed (write_ignore (reply (CHR 0x01)) c) None pool1
                   | Inr up \<Rightarrow> stop (Tunnelled u) (write_ignore reply_ok c) (Some up) pool1))"

definition handle_socks5 :: "'s sem_ops \<Rightarrow> session_env \<Rightarrow> 's gateway_config \<Rightarrow> rr_pool \<Rightarrow> conn
    \<Rightarrow> 's session_result" where
  "handle_socks5 ops env cfg pool c =
     (if \<not> client_allowed (se_peer env) (gc_allowlist cfg) then ended cfg pool (NotAllowed, c)
      else case negotiate (gc_auth cfg) c of
        (Inl e, c1) \<Rightarrow> ended cfg pool (e, c1)
      | (Inr m, c1) \<Rightarrow>
     (case authenticate m (gc_auth cfg) c1 of
        (Inl e, c2) \<Rightarrow> ended cfg pool (e, c2)
      | (Inr _, c2) \<Rightarrow>
     (case acquire_opt ops (se_now env) (gc_limits cfg) of
        (Inl rej, l1) \<Rightarrow>
          \<lparr>sr_end = LimitRejected rej, sr_client = c2, sr_upstream = None, sr_limits = l1,
           sr_permit = None, sr_pool = pool\<rparr>
      | (Inr permit, l1) \<Rightarrow>
     (case read_request c2 of
        (Inl e, c3) \<Rightarrow>
          \<lparr>sr_end = e, sr_client = c3, sr_upstream = None, sr_limits = l1,
           sr_permit = permit, sr_pool = pool\<rparr>
      | (Inr req, c3) \<Rightarrow> relay env pool l1 permit req c3))))"

lemmas socks5_defs =
  handle_socks5_def relay_def read_request_def authenticate_def read_counted_def negotiate_def
  dial_socks5_connect_def read_target_addr_def ended_def acquire_opt_def

section \<open>The accept loop\<close>

text \<open>
  \<open>serve\<close> clones the pool for every accepted connection and gives the clone to the
  session; the listener's own pool is not written. Accepted connections come with their
  environment. The limiter is shared (\<open>Arc\<close>), so its state is threaded, and so is the
  connection counter \<open>conn_total\<close>, an \<open>AtomicU64\<close> that \<open>handle_conn\<close> increments
  before anything else, for a client that the allowlist turns away as well. An accept error
  is skipped. The fault that a test hook can inject before an accept ends the task; it is the
  listener exit that the gateway's loop handles.
\<close>

fun serve_socks5 :: "'s sem_ops \<Rightarrow> 's gateway_config \<Rightarrow> rr_pool \<Rightarrow> 64 word \<Rightarrow> (session_env \<times> conn) list
    \<Rightarrow> 's session_result list \<times> rr_pool \<times> 64 word" where
  "serve_socks5 ops cfg pool seen [] = ([], pool, seen)"
| "serve_socks5 ops cfg pool seen ((env, c) # rest) =
     (let res = handle_socks5 ops env cfg (pool_clone pool) c;
          (more, pool', seen') = serve_socks5 ops (cfg\<lparr>gc_limits := sr_limits res\<rparr>) pool (seen + 1) rest
      in (res # more, pool', seen'))"

section \<open>Lemmas about the stages\<close>

lemma negotiate_Inr:
  assumes "negotiate auth c = (Inr m, c')"
  shows "\<exists>methods. c_in c = CHR 0x05 # char_of (length methods) # methods @ c_in c' \<and>
      length methods < 256 \<and>
      (if auth = None then m = NoAuth \<and> CHR 0x00 \<in> set methods
       else m = UserPass \<and> CHR 0x02 \<in> set methods)"
proof -
  from assms obtain hdr c1 where h: "read_exact 2 c = (Some hdr, c1)" "hdr ! 0 = CHR 0x05"
    by (auto simp: negotiate_def split: prod.splits option.splits if_splits)
  with assms obtain methods c2 where ms: "read_exact (of_char (hdr ! 1)) c1 = (Some methods, c2)"
    by (auto simp: negotiate_def split: prod.splits option.splits)
  have c': "c_in c' = c_in c2" and m: "if auth = None then m = NoAuth \<and> CHR 0x00 \<in> set methods
      else m = UserPass \<and> CHR 0x02 \<in> set methods"
    using assms h ms
    by (auto simp: negotiate_def Let_def dest: write_all_in split: prod.splits if_splits bool.splits)
  from h have "hdr = [CHR 0x05, hdr ! 1]" and "c_in c = hdr @ c_in c1"
    by (auto simp: read_exact_Some numeral_2_eq_2 length_Suc_conv)
  then have "c_in c = CHR 0x05 # hdr ! 1 # c_in c1" by (metis append_Cons append_Nil)
  moreover from ms have "length methods = of_char (hdr ! 1)" and "c_in c1 = methods @ c_in c2"
    by (auto simp: read_exact_Some)
  ultimately show ?thesis
    using m c' of_char_lt_256 [of "hdr ! 1"] by (intro exI [of _ methods]) simp
qed

lemma read_counted_Some:
  assumes "read_counted c = (Some bs, c')"
  shows "c_in c = char_of (length bs) # bs @ c_in c' \<and> length bs < 256"
proof -
  from assms obtain l c1 where "read_exact 1 c = (Some l, c1)"
    and "read_exact (of_char (l ! 0)) c1 = (Some bs, c')"
    by (auto simp: read_counted_def split: prod.splits option.splits)
  then show ?thesis
    using of_char_lt_256 [of "l ! 0"] by (auto simp: read_exact_Some length_Suc_conv)
qed

lemma authenticate_Inr:
  assumes "authenticate UserPass (Some (u, p)) c = (Inr x, c')"
  shows "c_in c = CHR 0x01 # char_of (length u) # u @ char_of (length p) # p @ c_in c'"
proof -
  from assms obtain ver c1 user c2 pass c3 where
    v: "read_exact 1 c = (Some ver, c1)" "ver ! 0 = CHR 0x01"
    and u: "read_counted c1 = (Some user, c2)" and p: "read_counted c2 = (Some pass, c3)"
    and ok: "verify_credentials (Some (u, p)) user pass" and "c_in c' = c_in c3"
    unfolding authenticate_def by (auto split: prod.splits option.splits if_splits)
  moreover from v have "c_in c = CHR 0x01 # c_in c1"
    by (auto simp: read_exact_Some length_Suc_conv)
  ultimately show ?thesis
    using read_counted_Some [OF u] read_counted_Some [OF p] by (simp add: verify_credentials_iff)
qed

lemma handle_socks5_allowed:
  "sr_end (handle_socks5 ops env cfg pool c) = NotAllowed \<or>
   client_allowed (se_peer env) (gc_allowlist cfg)"
  by (simp add: handle_socks5_def ended_def)

text \<open>The ways a session can end before its permit is asked for.\<close>

definition before_limits :: "session_end \<Rightarrow> bool" where
  "before_limits e \<longleftrightarrow> e \<in> {NotAllowed, BadGreeting, NoMethod, PeerGone, AuthAborted, AuthRejected}"

lemma before_limits_simps:
  "\<not> before_limits BadRequest" "\<not> before_limits (LimitRejected rej)" "\<not> before_limits NoUpstream"
  "\<not> before_limits (Tunnelled u)" "before_limits NotAllowed"
  by (simp_all add: before_limits_def)

lemma negotiate_Inl: "negotiate auth c = (Inl e, c') \<Longrightarrow> before_limits e"
  unfolding negotiate_def Let_def
  by (auto simp: before_limits_def split: prod.splits option.splits if_splits bool.splits)

lemma authenticate_Inl: "authenticate m auth c = (Inl e, c') \<Longrightarrow> before_limits e"
  unfolding authenticate_def
  by (auto simp: before_limits_def split: prod.splits option.splits if_splits)

lemma read_request_Inl: "read_request c = (Inl e, c') \<Longrightarrow> e = BadRequest"
  unfolding read_request_def by (auto split: prod.splits option.splits if_splits)

lemma relay_end: "\<not> before_limits (sr_end (relay env pool l permit req c))"
  by (auto simp: relay_def before_limits_def Let_def split: prod.splits option.splits sum.splits)

lemma relay_frame:
  "sr_limits (relay env pool l permit req c) = l \<and> sr_permit (relay env pool l permit req c) = permit"
  by (auto simp: relay_def Let_def split: prod.splits option.splits sum.splits)

lemma handle_socks5_past_auth:
  assumes "\<not> before_limits (sr_end (handle_socks5 ops env cfg pool c))"
  obtains m c1 c2 where "negotiate (gc_auth cfg) c = (Inr m, c1)"
    "authenticate m (gc_auth cfg) c1 = (Inr (), c2)"
  using assms
  by (auto simp: handle_socks5_def ended_def before_limits_def [of NotAllowed]
      split: if_splits prod.splits sum.splits dest: negotiate_Inl authenticate_Inl)

section \<open>Lemmas about the request\<close>

fun wf_target :: "target \<Rightarrow> bool" where
  "wf_target (TgtV4 os) = (length os = 4)"
| "wf_target (TgtDomain d) = (valid_utf8 d \<and> length d < 256)"
| "wf_target (TgtV6 os) = (length os = 16)"

lemma read_target_push_into:
  assumes "wf_target t" and "c_in c = tl (push_into t) @ rest"
  shows "read_target_addr (hd (push_into t)) c = (Some t, c\<lparr>c_in := rest\<rparr>)"
  using assms by (cases t) (auto simp: read_target_addr_def read_exact_def lossy_valid)

lemma read_request_encoded:
  assumes "wf_target t" and "c_in c = [CHR 0x05, CHR 0x01, rsv] @ push_into t @ port_be p @ rest"
  shows "read_request c = (Inr (t, p), c\<lparr>c_in := rest\<rparr>)"
proof -
  let ?c1 = "c\<lparr>c_in := tl (push_into t) @ port_be p @ rest\<rparr>"
  have pt: "push_into t = hd (push_into t) # tl (push_into t)" by (cases t) simp_all
  then have "c_in c = [CHR 0x05, CHR 0x01, rsv, hd (push_into t)] @ tl (push_into t) @ port_be p @ rest"
    using assms(2) by (metis append_Cons append_Nil)
  then have "read_exact 4 c = (Some [CHR 0x05, CHR 0x01, rsv, hd (push_into t)], ?c1)"
    by (intro read_exact_append) simp_all
  moreover have "read_target_addr (hd (push_into t)) ?c1 = (Some t, ?c1\<lparr>c_in := port_be p @ rest\<rparr>)"
    by (rule read_target_push_into [OF assms(1)]) simp
  moreover have "read_exact 2 (c\<lparr>c_in := port_be p @ rest\<rparr>) = (Some (port_be p), c\<lparr>c_in := rest\<rparr>)"
    by (simp add: read_exact_def)
  ultimately show ?thesis by (simp add: read_request_def)
qed

lemma dial_writes:
  assumes "dial_socks5_connect net addr t p = Inr up"
  shows "\<exists>up0. net addr = Some up0 \<and>
    c_out up = c_out up0 @ [CHR 0x05, CHR 0x01, CHR 0x00] @
      ([CHR 0x05, CHR 0x01, CHR 0x00] @ push_into t @ port_be p)"
  using assms unfolding dial_socks5_connect_def
  by (auto dest!: write_all_out read_exact_frame split: option.splits prod.splits bool.splits if_splits)

lemma lossy_replicate_FF: "from_utf8_lossy (replicate n (CHR 0xFF)) = concat (replicate n replacement)"
  by (induction n) (simp_all add: from_utf8_lossy.simps(2) utf8_step_def utf8_ranges_def)

lemma relay_Tunnelled:
  "sr_end (relay env pool l permit req c) = Tunnelled u \<Longrightarrow> fst (pick (se_registry env) pool) = Some u"
  by (auto simp: relay_def Let_def split: prod.splits option.splits sum.splits if_splits)

lemma handle_socks5_Tunnelled:
  "sr_end (handle_socks5 ops env cfg pool c) = Tunnelled u \<Longrightarrow> fst (pick (se_registry env) pool) = Some u"
  by (auto simp: handle_socks5_def ended_def before_limits_def
      dest: negotiate_Inl authenticate_Inl read_request_Inl relay_Tunnelled
      split: if_splits prod.splits sum.splits)

lemma handle_socks5_upstream:
  "sr_upstream (handle_socks5 ops env cfg pool c) = Some up \<Longrightarrow>
     \<exists>u. sr_end (handle_socks5 ops env cfg pool c) = Tunnelled u"
  by (auto simp: handle_socks5_def ended_def relay_def Let_def
      split: if_splits prod.splits sum.splits option.splits)

lemma serve_socks5_Cons:
  "serve_socks5 ops cfg pool seen (x # rest) =
     (let res = handle_socks5 ops (fst x) cfg (pool_clone pool) (snd x);
          (more, pool', seen') = serve_socks5 ops (cfg\<lparr>gc_limits := sr_limits res\<rparr>) pool (seen + 1) rest
      in (res # more, pool', seen'))"
  by (cases x) simp

lemma serve_socks5_pool:
  "snd (serve_socks5 ops cfg pool seen conns) = (pool, seen + of_nat (length conns))"
  by (induction conns arbitrary: cfg seen) (auto simp: Let_def case_prod_beta add_ac)

lemma serve_socks5_ends:
  "(res, env) \<in> set (zip (fst (serve_socks5 ops cfg pool seen conns)) (List.map fst conns)) \<Longrightarrow>
     sr_end res = Tunnelled u \<Longrightarrow> fst (pick (se_registry env) pool) = Some u"
proof (induction conns arbitrary: cfg seen)
  case (Cons x conns)
  obtain e c where x: "x = (e, c)" by fastforce
  have "res = handle_socks5 ops e cfg (pool_clone pool) c \<and> env = e \<or>
      (\<exists>cfg' seen'. (res, env) \<in> set (zip (fst (serve_socks5 ops cfg' pool seen' conns)) (List.map fst conns)))"
    using Cons.prems(1) by (auto simp: x Let_def case_prod_beta)
  then show ?case
    using Cons.IH Cons.prems(2) handle_socks5_Tunnelled [of ops e cfg "pool_clone pool" c u] by auto
qed simp

section \<open>Properties\<close>

text \<open>C3: With authentication configured, a session that gets past the handshake (so one
  that takes a permit, reads a request or reaches an upstream) has an admitted peer and has
  sent the user/password method and exactly the configured user name and password; nothing
  else opens the proxy.\<close>

theorem socks5_auth_required:
  assumes "gc_auth cfg = Some (u, p)"
    and "\<not> before_limits (sr_end (handle_socks5 ops env cfg pool c))"
  shows "client_allowed (se_peer env) (gc_allowlist cfg) \<and>
    (\<exists>methods rest. CHR 0x02 \<in> set methods \<and>
      c_in c = CHR 0x05 # char_of (length methods) # methods @
        CHR 0x01 # char_of (length u) # u @ char_of (length p) # p @ rest)"
proof -
  obtain m c1 c2 where n: "negotiate (gc_auth cfg) c = (Inr m, c1)"
    and a: "authenticate m (gc_auth cfg) c1 = (Inr (), c2)"
    using handle_socks5_past_auth [OF assms(2)] .
  from negotiate_Inr [OF n] assms(1) obtain methods where
    "c_in c = CHR 0x05 # char_of (length methods) # methods @ c_in c1" "m = UserPass"
    "CHR 0x02 \<in> set methods" by auto
  with authenticate_Inr [of u p c1 "()" c2] a assms
    handle_socks5_allowed [of ops env cfg pool c]
  show ?thesis by (auto simp: before_limits_def)
qed

definition demo_env :: "registry \<Rightarrow> bytes \<Rightarrow> session_env" where
  "demo_env r answer = \<lparr>se_now = 0, se_peer = localhost, se_registry = r,
     se_dial = (\<lambda>_. Some \<lparr>c_in = answer, c_out = [], c_wleft = None\<rparr>), se_dial_slow = False\<rparr>"

definition demo_config :: "(string \<times> string) option \<Rightarrow> nat gateway_config" where
  "demo_config auth = \<lparr>gc_socks5 = True, gc_http = True, gc_auth = auth, gc_allowlist = [],
     gc_limits = None\<rparr>"

theorem socks5_auth_required_witness:
  "\<exists>methods rest. CHR 0x02 \<in> set methods \<and>
     [CHR 0x05, CHR 0x01, CHR 0x02, CHR 0x01, CHR 0x01, CHR ''u'', CHR 0x01, CHR ''p''] =
       CHR 0x05 # char_of (length methods) # methods @
       CHR 0x01 # char_of (length ''u'') # ''u'' @ char_of (length ''p'') # ''p'' @ rest"
proof -
  let ?c = "\<lparr>c_in = [CHR 0x05, CHR 0x01, CHR 0x02, CHR 0x01, CHR 0x01, CHR ''u'', CHR 0x01, CHR ''p''],
    c_out = [], c_wleft = None\<rparr>"
  have "sr_end (handle_socks5 nat_semaphore (demo_env [] []) (demo_config (Some (''u'', ''p''))) pool_new ?c)
      = BadRequest"
    by (simp add: socks5_defs demo_env_def demo_config_def client_allowed_def read_exact_def
        verify_credentials_iff)
  then have "\<not> before_limits (sr_end (handle_socks5 nat_semaphore (demo_env [] [])
      (demo_config (Some (''u'', ''p''))) pool_new ?c))"
    by (simp add: before_limits_def)
  from socks5_auth_required [OF _ this, of "''u''" "''p''"] show ?thesis
    by (simp add: demo_config_def)
qed

text \<open>Clients that fail the allowlist, the method negotiation or the password never
  touch the limiter: it is unchanged, no permit is held, no instance is picked and no
  upstream is contacted, whatever the network would have answered.\<close>

theorem socks5_limits_after_auth:
  assumes "before_limits (sr_end (handle_socks5 ops env cfg pool c))"
  shows "sr_limits (handle_socks5 ops env cfg pool c) = gc_limits cfg \<and>
    sr_permit (handle_socks5 ops env cfg pool c) = None \<and>
    sr_upstream (handle_socks5 ops env cfg pool c) = None \<and>
    sr_pool (handle_socks5 ops env cfg pool c) = pool"
  using assms
  by (auto simp: handle_socks5_def ended_def relay_end before_limits_simps
      split: if_splits prod.splits sum.splits dest!: read_request_Inl)

theorem socks5_limits_after_auth_witness:
  "sr_upstream (handle_socks5 nat_semaphore (demo_env [] []) (demo_config (Some (''u'', ''p'')))
     pool_new \<lparr>c_in = [CHR 0x05, CHR 0x01, CHR 0x00], c_out = [], c_wleft = None\<rparr>) = None"
proof -
  have "before_limits (sr_end (handle_socks5 nat_semaphore (demo_env [] [])
      (demo_config (Some (''u'', ''p''))) pool_new
      \<lparr>c_in = [CHR 0x05, CHR 0x01, CHR 0x00], c_out = [], c_wleft = None\<rparr>))"
    by (simp add: socks5_defs demo_env_def demo_config_def client_allowed_def read_exact_def
        before_limits_def)
  from socks5_limits_after_auth [OF this] show ?thesis by blast
qed

text \<open>What a session does depends on the network only at the address of the instance that is picked.\<close>

lemma dial_same: "d a = d' a \<Longrightarrow> dial_socks5_connect d a t p = dial_socks5_connect d' a t p"
  by (simp add: dial_socks5_connect_def)

lemma relay_dial:
  assumes "\<And>u. fst (pick (se_registry env) pool) = Some u \<Longrightarrow> d (up_addr u) = se_dial env (up_addr u)"
  shows "relay (env\<lparr>se_dial := d\<rparr>) pool l permit req c = relay env pool l permit req c"
proof (cases "pick (se_registry env) pool")
  case (Pair o1 pool1)
  with assms dial_same [of d _ "se_dial env"] show ?thesis by (cases o1) (simp_all add: relay_def)
qed

lemma handle_socks5_dial:
  assumes "\<And>u. fst (pick (se_registry env) pool) = Some u \<Longrightarrow> d (up_addr u) = se_dial env (up_addr u)"
  shows "handle_socks5 ops (env\<lparr>se_dial := d\<rparr>) cfg pool c = handle_socks5 ops env cfg pool c"
  using relay_dial [of env pool d, OF assms] unfolding handle_socks5_def by (auto split: prod.split sum.split)

text \<open>C34: No session leaves through anything but a Healthy instance. A tunnel exists only through an
  instance that the registry reports Healthy at that moment, to the loopback address and the port of
  that instance (\<open>base + id\<close>, which is what \<open>instance_port\<close> assigns). No other address is ever
  contacted: the session's result is the same whatever answers at any other address. And without a
  Healthy instance there is no upstream at all, so there is no direct connection to leak traffic over.\<close>

theorem socks5_only_healthy_upstream:
  assumes "reg_wf (se_registry env)"
  shows "(\<forall>u. sr_end (handle_socks5 ops env cfg pool c) = Tunnelled u \<longrightarrow>
      claims_healthy (se_registry env) (up_instance u) \<and>
      up_addr u = \<lparr>sa_ip = localhost, sa_port = pl_base pool + word_of_int (up_instance u)\<rparr> \<and>
      (pl_base pool = of_nat first_warp_port \<and> 0 \<le> up_instance u \<and> up_instance u \<le> int max_instances \<longrightarrow>
        instance_port (up_instance u) = Inr (sa_port (up_addr u)))) \<and>
    (\<forall>d. (\<forall>i. claims_healthy (se_registry env) i \<longrightarrow>
          d \<lparr>sa_ip = localhost, sa_port = pl_base pool + word_of_int i\<rparr> =
          se_dial env \<lparr>sa_ip = localhost, sa_port = pl_base pool + word_of_int i\<rparr>) \<longrightarrow>
      handle_socks5 ops (env\<lparr>se_dial := d\<rparr>) cfg pool c = handle_socks5 ops env cfg pool c) \<and>
    ((\<forall>i. \<not> claims_healthy (se_registry env) i) \<longrightarrow>
      sr_upstream (handle_socks5 ops env cfg pool c) = None)"
proof (intro conjI allI impI)
  have picked: "claims_healthy (se_registry env) (up_instance u)"
    "up_addr u = \<lparr>sa_ip = localhost, sa_port = pl_base pool + word_of_int (up_instance u)\<rparr>"
    if "fst (pick (se_registry env) pool) = Some u" for u
    using that pick_Some_healthy [OF assms, of pool u] pick_Some_addr [of "se_registry env" pool u]
    by (cases "pick (se_registry env) pool"; simp add: upstream_of_def)+
  fix u
  assume t: "sr_end (handle_socks5 ops env cfg pool c) = Tunnelled u"
  note u = picked [OF handle_socks5_Tunnelled [OF t]]
  from u(1) show "claims_healthy (se_registry env) (up_instance u)" .
  from u(2) show "up_addr u = \<lparr>sa_ip = localhost, sa_port = pl_base pool + word_of_int (up_instance u)\<rparr>" .
  assume "pl_base pool = of_nat first_warp_port \<and> 0 \<le> up_instance u \<and> up_instance u \<le> int max_instances"
  with u(2) instance_port_valid(1) show "instance_port (up_instance u) = Inr (sa_port (up_addr u))"
    by (auto simp: first_warp_port_def)
next
  fix d
  assume d: "\<forall>i. claims_healthy (se_registry env) i \<longrightarrow>
          d \<lparr>sa_ip = localhost, sa_port = pl_base pool + word_of_int i\<rparr> =
          se_dial env \<lparr>sa_ip = localhost, sa_port = pl_base pool + word_of_int i\<rparr>"
  show "handle_socks5 ops (env\<lparr>se_dial := d\<rparr>) cfg pool c = handle_socks5 ops env cfg pool c"
  proof (rule handle_socks5_dial)
    fix u
    assume "fst (pick (se_registry env) pool) = Some u"
    then show "d (up_addr u) = se_dial env (up_addr u)"
      using pick_Some_healthy [OF assms, of pool u] pick_Some_addr [of "se_registry env" pool u] d
      by (cases "pick (se_registry env) pool") (simp add: upstream_of_def)
  qed
next
  assume "\<forall>i. \<not> claims_healthy (se_registry env) i"
  then show "sr_upstream (handle_socks5 ops env cfg pool c) = None"
    using pick_None_iff [OF assms, of pool] handle_socks5_Tunnelled [of ops env cfg pool c]
      handle_socks5_upstream [of ops env cfg pool c]
    by (metis not_Some_eq)
qed

theorem socks5_only_healthy_upstream_witness:
  "sr_upstream (handle_socks5 nat_semaphore (demo_env [(1, rt_stopped)] []) (demo_config None) pool_new
     \<lparr>c_in = [], c_out = [], c_wleft = None\<rparr>) = None"
proof -
  have "\<forall>i. \<not> claims_healthy (se_registry (demo_env [(1, rt_stopped)] [])) i"
    by (simp add: demo_env_def claims_healthy_def reg_get_def rt_stopped_def)
  moreover have "reg_wf (se_registry (demo_env [(1, rt_stopped)] []))"
    by (simp add: demo_env_def reg_wf_def)
  ultimately show ?thesis using socks5_only_healthy_upstream by blast
qed

text \<open>A well-formed CONNECT request is relayed byte for byte: what the upstream receives
  after its greeting is the version, the command, a zero, and then exactly the address and
  port bytes the client sent; the bytes after the request stay for the tunnel.\<close>

theorem socks5_request_verbatim:
  assumes "wf_target t"
    and "c_in c = [CHR 0x05, CHR 0x01, rsv] @ push_into t @ port_be p @ rest"
  shows "read_request c = (Inr (t, p), c\<lparr>c_in := rest\<rparr>) \<and>
    (\<forall>net addr up. dial_socks5_connect net addr t p = Inr up \<longrightarrow>
      (\<exists>up0. net addr = Some up0 \<and> c_out up = c_out up0 @ [CHR 0x05, CHR 0x01, CHR 0x00] @
         ([CHR 0x05, CHR 0x01, CHR 0x00] @ push_into t @ port_be p)))"
  using read_request_encoded [OF assms] dial_writes by blast

theorem socks5_request_verbatim_witness:
  "read_request \<lparr>c_in = [CHR 0x05, CHR 0x01, CHR 0x00] @ push_into (TgtDomain ''a.io'') @ port_be 443 @ ''GET'',
     c_out = [], c_wleft = None\<rparr>
   = (Inr (TgtDomain ''a.io'', 443), \<lparr>c_in = ''GET'', c_out = [], c_wleft = None\<rparr>)"
proof -
  have "wf_target (TgtDomain ''a.io'')"
    by (simp add: ascii_valid is_ascii_def)
  from socks5_request_verbatim [OF this, of "\<lparr>c_in = [CHR 0x05, CHR 0x01, CHR 0x00] @
      push_into (TgtDomain ''a.io'') @ port_be 443 @ ''GET'', c_out = [], c_wleft = None\<rparr>"]
  show ?thesis by simp
qed

text \<open>A domain that is not UTF-8 is not relayed as it came. Every bad byte becomes the
  three bytes of U+FFFD before the name is sent on with its length in one byte, so a name of
  86 to 255 such bytes goes out under a length byte that is not its length.\<close>

theorem socks5_domain_length_wraps:
  assumes "85 < n" and "n < 256"
    and "c_in c = char_of n # replicate n (CHR 0xFF) @ rest"
  shows "\<exists>d. read_target_addr (CHR 0x03) c = (Some (TgtDomain d), c\<lparr>c_in := rest\<rparr>) \<and>
    length d = 3 * n \<and> of_char (push_into (TgtDomain d) ! 1) \<noteq> length d"
proof -
  let ?d = "from_utf8_lossy (replicate n (CHR 0xFF))"
  have "read_target_addr (CHR 0x03) c = (Some (TgtDomain ?d), c\<lparr>c_in := rest\<rparr>)"
    using assms by (simp add: read_target_addr_def read_exact_def)
  moreover have len: "length ?d = 3 * n"
    unfolding lossy_replicate_FF by (induction n) (simp_all add: replacement_def)
  moreover have "of_char (push_into (TgtDomain ?d) ! 1) = 3 * n mod 256"
    by (simp add: len)
  moreover have "3 * n mod 256 \<noteq> 3 * n"
    using assms(1) mod_less_divisor [of 256 "3 * n"] by linarith
  ultimately show ?thesis by (metis (no_types))
qed

theorem socks5_domain_length_wraps_witness:
  "\<exists>d. read_target_addr (CHR 0x03)
     \<lparr>c_in = char_of (86 :: nat) # replicate 86 (CHR 0xFF), c_out = [], c_wleft = None\<rparr>
     = (Some (TgtDomain d), \<lparr>c_in = [], c_out = [], c_wleft = None\<rparr>) \<and> length d = 258"
  using socks5_domain_length_wraps [of 86 "\<lparr>c_in = char_of (86 :: nat) # replicate 86 (CHR 0xFF),
      c_out = [], c_wleft = None\<rparr>" "[]"] by (simp del: replicate_numeral) blast

text \<open>The listener does not balance. Every accepted connection gets its own copy of the
  pool's counter and the listener's counter never moves, so while the registry stays the
  same all sessions of a listener generation use one and the same instance. Only the count
  of connections moves, by one for each of them.\<close>

theorem socks5_listener_never_rotates:
  assumes "\<forall>x \<in> set conns. se_registry (fst x) = r"
    and "(res, env) \<in> set (zip (fst (serve_socks5 ops cfg pool seen conns)) (List.map fst conns))"
    and "sr_end res = Tunnelled u"
  shows "fst (pick r pool) = Some u \<and> fst (snd (serve_socks5 ops cfg pool seen conns)) = pool \<and>
    snd (snd (serve_socks5 ops cfg pool seen conns)) = seen + of_nat (length conns)"
proof -
  have "env \<in> fst ` set conns" using assms(2) by (auto dest: set_zip_rightD)
  then have "se_registry env = r" using assms(1) by auto
  then show ?thesis using serve_socks5_ends [OF assms(2,3)] by (simp add: serve_socks5_pool)
qed

definition two_healthy :: registry where
  "two_healthy = [(1, rt_stopped\<lparr>ir_state := Healthy\<rparr>), (2, rt_stopped\<lparr>ir_state := Healthy\<rparr>)]"

definition demo_conn :: "session_env \<times> conn" where
  "demo_conn =
     (demo_env two_healthy [CHR 0x05, CHR 0x00, CHR 0x05, CHR 0x00, CHR 0x00, CHR 0x01,
        CHR 0x00, CHR 0x00, CHR 0x00, CHR 0x00, CHR 0x00, CHR 0x00],
      \<lparr>c_in = [CHR 0x05, CHR 0x01, CHR 0x00, CHR 0x05, CHR 0x01, CHR 0x00, CHR 0x01,
        CHR 0x08, CHR 0x08, CHR 0x08, CHR 0x08, CHR 0x00, CHR 0x50], c_out = [], c_wleft = None\<rparr>)"

lemma demo_conn_tunnels:
  "sr_end (handle_socks5 nat_semaphore (fst demo_conn) (demo_config None) (pool_clone pool_new) (snd demo_conn))
   = Tunnelled (upstream_of 40000 1)"
proof -
  have h: "healthy_ids two_healthy = [1, 2]"
    by (simp add: healthy_ids_def reg_list_def two_healthy_def)
  show ?thesis
    by (simp add: socks5_defs demo_conn_def demo_env_def demo_config_def client_allowed_def
        read_exact_def pick_def h Let_def pool_clone_def pool_new_def pool_with_base_def
        first_warp_port_def)
qed

theorem socks5_listener_never_rotates_witness:
  "List.map sr_end (fst (serve_socks5 nat_semaphore (demo_config None) pool_new 0 [demo_conn, demo_conn]))
     = [Tunnelled (upstream_of 40000 1), Tunnelled (upstream_of 40000 1)] \<and>
   fst (pick two_healthy pool_new) = Some (upstream_of 40000 1)"
proof -
  let ?run = "serve_socks5 nat_semaphore (demo_config None) pool_new 0 [demo_conn, demo_conn]"
  let ?res = "handle_socks5 nat_semaphore (fst demo_conn) (demo_config None) (pool_clone pool_new) (snd demo_conn)"
  have lim: "sr_limits ?res = None"
    by (simp add: socks5_defs demo_conn_def demo_env_def demo_config_def client_allowed_def
        read_exact_def relay_frame Let_def split: option.splits prod.splits sum.splits)
  have cfg: "(demo_config None)\<lparr>gc_limits := None\<rparr> = demo_config None"
    by (simp add: demo_config_def)
  have run: "fst ?run = [?res, ?res]"
    by (simp add: serve_socks5_Cons Let_def case_prod_beta lim cfg)
  have "(?res, fst demo_conn) \<in> set (zip (fst ?run) (List.map fst [demo_conn, demo_conn]))"
    by (simp add: run)
  from socks5_listener_never_rotates [OF _ this demo_conn_tunnels, of two_healthy]
  have "fst (pick two_healthy pool_new) = Some (upstream_of 40000 1)"
    by (simp add: demo_conn_def demo_env_def)
  then show ?thesis by (simp only: run demo_conn_tunnels list.map)
qed

end
