(* ===== verification/HttpProxy.thy ===== *)
theory HttpProxy
  imports Socks5
begin

text \<open>
  \<open>src/gateway/http.rs\<close>: the HTTP listener (CONNECT tunnels, absolute-URI forwarding,
  Basic authentication) and its own SOCKS5 client. The size of each read from the socket is
  decided by the network: \<open>arrivals\<close> lists how many bytes the successive reads find, and
  a list that has run out stands for thirty seconds of silence.
\<close>

section \<open>Base64\<close>

definition b64_table :: string where
  "b64_table = ''ABCDEFGHIJKLMNOPQRSTUVWXYZabcdefghijklmnopqrstuvwxyz0123456789+/''"

definition b64_char :: "8 word \<Rightarrow> char" where
  "b64_char i = b64_table ! unat i"

unbundle bit_operations_syntax

text \<open>The four table indices that three bytes give.\<close>

definition sextet1 :: "8 word \<Rightarrow> 8 word" where "sextet1 b0 = drop_bit 2 b0"
definition sextet2 :: "8 word \<Rightarrow> 8 word \<Rightarrow> 8 word" where "sextet2 b0 b1 = push_bit 4 (b0 AND 0x03) OR drop_bit 4 b1"
definition sextet3 :: "8 word \<Rightarrow> 8 word \<Rightarrow> 8 word" where "sextet3 b1 b2 = push_bit 2 (b1 AND 0x0F) OR drop_bit 6 b2"
definition sextet4 :: "8 word \<Rightarrow> 8 word" where "sextet4 b2 = b2 AND 0x3F"

text \<open>One round of the loop over \<open>data.chunks(3)\<close>; missing bytes count as zero.\<close>

definition b64_chunk :: "bytes \<Rightarrow> string" where
  "b64_chunk ch =
     (let b0 = byte_word (ch ! 0);
          b1 = (if 1 < length ch then byte_word (ch ! 1) else 0);
          b2 = (if 2 < length ch then byte_word (ch ! 2) else 0)
      in [b64_char (sextet1 b0), b64_char (sextet2 b0 b1),
          (if 1 < length ch then b64_char (sextet3 b1 b2) else CHR ''=''),
          (if 2 < length ch then b64_char (sextet4 b2) else CHR ''='')])"

fun base64_encode :: "bytes \<Rightarrow> string" where
  "base64_encode [] = []"
| "base64_encode [x] = b64_chunk [x]"
| "base64_encode [x, y] = b64_chunk [x, y]"
| "base64_encode (x # y # z # rest) = b64_chunk [x, y, z] @ base64_encode rest"

section \<open>The request\<close>

definition crlf2 :: bytes where
  "crlf2 = [CHR 0x0D, CHR 0x0A, CHR 0x0D, CHR 0x0A]"

text \<open>The loop that collects the head. A read returns between one byte and the 4096 of the
  buffer; a read of nothing is the end of the stream.\<close>

primrec read_head :: "nat list \<Rightarrow> bytes \<Rightarrow> conn \<Rightarrow> bytes option \<times> conn" where
  "read_head [] buf c = (None, c)"
| "read_head (k # ks) buf c =
     (let n = min (max k 1) 4096;
          chunk = take n (c_in c);
          buf' = buf @ chunk;
          c' = c\<lparr>c_in := drop n (c_in c)\<rparr>
      in if contains_str crlf2 buf' \<or> chunk = [] then (Some buf', c')
         else if 16384 < length buf' then (None, c')
         else read_head ks buf' c')"

definition basic_token :: "string \<Rightarrow> string \<Rightarrow> string" where
  "basic_token user pass = ''Basic '' @ base64_encode (user @ '':'' @ pass)"

definition auth_line_value :: "string \<Rightarrow> string" where
  "auth_line_value l =
     trim_end_matches (\<lambda>c. c = CHR 0x0D) (trim_str (dropWhile (\<lambda>c. \<not> is_ascii_ws c) l))"

definition is_auth_line :: "string \<Rightarrow> string \<Rightarrow> bool" where
  "is_auth_line token l \<longleftrightarrow>
     starts_with ''proxy-authorization:'' (to_ascii_lowercase l) \<and> auth_line_value l = token"

definition proxy_auth_ok :: "(string \<times> string) option \<Rightarrow> string \<Rightarrow> bool" where
  "proxy_auth_ok auth request_head =
     (case auth of
        None \<Rightarrow> True
      | Some (user, pass) \<Rightarrow> list_ex (is_auth_line (basic_token user pass)) (str_lines request_head))"

definition extract_host_port :: "string \<Rightarrow> string option" where
  "extract_host_port first_line =
     (case split_once (CHR '' '') first_line of
        None \<Rightarrow> None
      | Some (_, after_method) \<Rightarrow>
     (case split_once (CHR '' '') after_method of
        None \<Rightarrow> None
      | Some (uri, _) \<Rightarrow>
     (case (case strip_prefix ''http://'' uri of
              Some r \<Rightarrow> Some r | None \<Rightarrow> strip_prefix ''https://'' uri) of
        None \<Rightarrow> None
      | Some after_scheme \<Rightarrow> Some (hd (split_on (CHR ''/'') after_scheme)))))"

definition split_host_port :: "string \<Rightarrow> string \<times> port" where
  "split_host_port s =
     (case parse_socket_addr s of
        Some addr \<Rightarrow> (show_ip (sa_ip addr), sa_port addr)
      | None \<Rightarrow>
     (case rsplit_once (CHR '':'') s of
        Some (host, port_str) \<Rightarrow>
          (case parse_u16 port_str of
             Some p \<Rightarrow> (trim_end_matches (\<lambda>c. c = CHR '']'') (dropWhile (\<lambda>c. c = CHR ''['') host), of_nat p)
           | None \<Rightarrow> (s, 80))
      | None \<Rightarrow> (s, 80)))"

definition first_line_of :: "string \<Rightarrow> string" where
  "first_line_of request_head = (case str_lines request_head of [] \<Rightarrow> [] | l # _ \<Rightarrow> l)"

definition is_connect :: "string \<Rightarrow> bool" where
  "is_connect first_line = starts_with ''CONNECT '' first_line"

definition http_target :: "string \<Rightarrow> string option" where
  "http_target first_line =
     (if is_connect first_line
      then (case strip_prefix ''CONNECT '' first_line of None \<Rightarrow> None | Some rest \<Rightarrow> first_word rest)
      else extract_host_port first_line)"

section \<open>The dial\<close>

text \<open>Address type, address and port of the request; \<open>len() as u8\<close> keeps the low byte.\<close>

definition http_dial_request :: "string \<Rightarrow> port \<Rightarrow> bytes" where
  "http_dial_request host p =
     (case parse_ipv4 host of
        Some v4 \<Rightarrow> [CHR 0x05, CHR 0x01, CHR 0x00, CHR 0x01] @ List.map char_of (v4_octets v4) @ port_be p
      | None \<Rightarrow>
     (case parse_ipv6 host of
        Some v6 \<Rightarrow> [CHR 0x05, CHR 0x01, CHR 0x00, CHR 0x04] @ List.map char_of (v6_octets v6) @ port_be p
      | None \<Rightarrow> [CHR 0x05, CHR 0x01, CHR 0x00, CHR 0x03, char_of (length host)] @ host @ port_be p))"

text \<open>How many bytes of the reply remain to be thrown away after its first four.\<close>

definition reply_remaining :: "byte \<Rightarrow> conn \<Rightarrow> nat option \<times> conn" where
  "reply_remaining atyp up =
     (if atyp = CHR 0x01 then (Some 6, up)
      else if atyp = CHR 0x03 then
        (case read_exact 1 up of
           (None, up1) \<Rightarrow> (None, up1)
         | (Some l, up1) \<Rightarrow> (Some (of_char (l ! 0) + 2), up1))
      else if atyp = CHR 0x04 then (Some 16, up)
      else (Some 6, up))"

definition dial_socks5 :: "(socket_addr \<Rightarrow> conn option) \<Rightarrow> socket_addr \<Rightarrow> string \<Rightarrow> port
    \<Rightarrow> dial_error + conn" where
  "dial_socks5 net addr host p =
     (case net addr of
        None \<Rightarrow> Inl Refused
      | Some up \<Rightarrow>
     (case write_all [CHR 0x05, CHR 0x01, CHR 0x00] up of
        (False, _) \<Rightarrow> Inl BrokenPipe
      | (True, up1) \<Rightarrow>
     (case read_exact 2 up1 of
        (None, _) \<Rightarrow> Inl UnexpectedEof
      | (Some resp, up2) \<Rightarrow>
          if resp ! 1 \<noteq> CHR 0x00 then Inl (MethodRejected resp)
          else
     (case write_all (http_dial_request host p) up2 of
        (False, _) \<Rightarrow> Inl BrokenPipe
      | (True, up3) \<Rightarrow>
     (case read_exact 4 up3 of
        (None, _) \<Rightarrow> Inl UnexpectedEof
      | (Some head, up4) \<Rightarrow>
          if head ! 1 \<noteq> CHR 0x00 then Inl (ConnectRejected (head ! 1))
          else
     (case reply_remaining (head ! 3) up4 of
        (None, _) \<Rightarrow> Inl UnexpectedEof
      | (Some remaining, up5) \<Rightarrow>
          if 0 < remaining then
            (case read_exact remaining up5 of
               (None, _) \<Rightarrow> Inl UnexpectedEof
             | (Some _, up6) \<Rightarrow> Inr up6)
          else Inr up5))))))"

section \<open>A session\<close>

definition crlf :: bytes where
  "crlf = [CHR 0x0D, CHR 0x0A]"

definition resp_407 :: bytes where
  "resp_407 = ''HTTP/1.1 407 Proxy Authentication Required'' @ crlf @
     ''Proxy-Authenticate: Basic realm='' @ [CHR 0x22] @ ''warpdeck'' @ [CHR 0x22] @ crlf @
     ''Connection: close'' @ crlf2"

definition resp_503 :: bytes where
  "resp_503 = ''HTTP/1.1 503 Service Unavailable'' @ crlf @ ''Connection: close'' @ crlf2"

definition resp_400 :: bytes where
  "resp_400 = ''HTTP/1.1 400 Bad Request'' @ crlf @ ''Connection: close'' @ crlf2"

definition resp_502 :: bytes where
  "resp_502 = ''HTTP/1.1 502 Bad Gateway'' @ crlf @ ''Connection: close'' @ crlf2"

definition resp_200 :: bytes where
  "resp_200 = ''HTTP/1.1 200 Connection Established'' @ crlf2"

text \<open>From the request line to the tunnel, with the permit held.\<close>

definition http_forward :: "session_env \<Rightarrow> rr_pool \<Rightarrow> 's session_limits option \<Rightarrow> session_permit option
    \<Rightarrow> string \<Rightarrow> conn \<Rightarrow> 's session_result" where
  "http_forward env pool limits permit request_head c =
     (let stop = (\<lambda>e c' up pool'. \<lparr>sr_end = e, sr_client = c', sr_upstream = up,
              sr_limits = limits, sr_permit = permit, sr_pool = pool'\<rparr>);
          first_line = first_line_of request_head
      in case http_target first_line of
           None \<Rightarrow> stop BadRequest (write_ignore resp_400 c) None pool
         | Some host_port \<Rightarrow>
        (case pick (se_registry env) pool of
           (None, pool1) \<Rightarrow> stop NoUpstream (write_ignore resp_502 c) None pool1
         | (Some u, pool1) \<Rightarrow>
        (case split_host_port host_port of (host, p) \<Rightarrow>
        (case dial_socks5 (se_dial env) (up_addr u) host p of
           Inl _ \<Rightarrow> stop DialFailed (write_ignore resp_502 c) None pool1
         | Inr up \<Rightarrow>
             if is_connect first_line
             then stop (Tunnelled u) (write_ignore resp_200 c) (Some up) pool1
             else stop (Tunnelled u) c (Some (write_ignore request_head up)) pool1))))"

definition handle_http :: "'s sem_ops \<Rightarrow> session_env \<Rightarrow> 's gateway_config \<Rightarrow> rr_pool \<Rightarrow> nat list \<Rightarrow> conn
    \<Rightarrow> 's session_result" where
  "handle_http ops env cfg pool arrivals c =
     (if \<not> client_allowed (se_peer env) (gc_allowlist cfg) then ended cfg pool (NotAllowed, c)
      else case read_head arrivals [] c of
        (None, c1) \<Rightarrow> ended cfg pool (PeerGone, c1)
      | (Some buf, c1) \<Rightarrow>
     (let request_head = from_utf8_lossy buf in
      if \<not> proxy_auth_ok (gc_auth cfg) request_head
      then ended cfg pool (AuthRejected, write_ignore resp_407 c1)
      else case acquire_opt ops (se_now env) (gc_limits cfg) of
        (Inl rej, l1) \<Rightarrow>
          \<lparr>sr_end = LimitRejected rej, sr_client = write_ignore resp_503 c1, sr_upstream = None,
           sr_limits = l1, sr_permit = None, sr_pool = pool\<rparr>
      | (Inr permit, l1) \<Rightarrow> http_forward env pool l1 permit request_head c1))"

text \<open>The accept loop, as that of the SOCKS5 listener.\<close>

fun serve_http :: "'s sem_ops \<Rightarrow> 's gateway_config \<Rightarrow> rr_pool \<Rightarrow> 64 word
    \<Rightarrow> (session_env \<times> nat list \<times> conn) list \<Rightarrow> 's session_result list \<times> rr_pool \<times> 64 word" where
  "serve_http ops cfg pool seen [] = ([], pool, seen)"
| "serve_http ops cfg pool seen ((env, arrivals, c) # rest) =
     (let res = handle_http ops env cfg (pool_clone pool) arrivals c;
          (more, pool', seen') = serve_http ops (cfg\<lparr>gc_limits := sr_limits res\<rparr>) pool (seen + 1) rest
      in (res # more, pool', seen'))"

section \<open>Lemmas: Base64\<close>

text \<open>A decoder, the specification of the encoder.\<close>

definition b64_val :: "char \<Rightarrow> 8 word" where
  "b64_val c = of_nat (length (takeWhile (\<lambda>x. x \<noteq> c) b64_table))"

definition octet1 :: "8 word \<Rightarrow> 8 word \<Rightarrow> 8 word" where "octet1 a b = push_bit 2 a OR drop_bit 4 b"
definition octet2 :: "8 word \<Rightarrow> 8 word \<Rightarrow> 8 word" where "octet2 b c = push_bit 4 b OR drop_bit 2 c"
definition octet3 :: "8 word \<Rightarrow> 8 word \<Rightarrow> 8 word" where "octet3 c d = push_bit 6 c OR d"

definition b64_unchunk :: "char \<Rightarrow> char \<Rightarrow> char \<Rightarrow> char \<Rightarrow> bytes" where
  "b64_unchunk a b c d =
     (let word_char = (\<lambda>w :: 8 word. char_of (unat w));
          x = word_char (octet1 (b64_val a) (b64_val b));
          y = word_char (octet2 (b64_val b) (b64_val c));
          z = word_char (octet3 (b64_val c) (b64_val d))
      in if c = CHR ''='' then [x] else if d = CHR ''='' then [x, y] else [x, y, z])"

fun base64_decode :: "string \<Rightarrow> bytes" where
  "base64_decode (a # b # c # d # rest) = b64_unchunk a b c d @ base64_decode rest"
| "base64_decode _ = []"

lemma takeWhile_neq_nth: "distinct xs \<Longrightarrow> i < length xs \<Longrightarrow> length (takeWhile (\<lambda>x. x \<noteq> xs ! i) xs) = i"
proof (induction xs arbitrary: i)
  case (Cons a xs)
  then show ?case by (cases i) (auto dest: nth_mem)
qed simp

lemma b64_table_facts: "distinct b64_table" "length b64_table = 64" "CHR ''='' \<notin> set b64_table"
  by (simp_all add: b64_table_def)

lemma b64_table_inverse:
  "i < 64 \<Longrightarrow> length (takeWhile (\<lambda>x. x \<noteq> b64_table ! i) b64_table) = i \<and> b64_table ! i \<noteq> CHR ''=''"
  using takeWhile_neq_nth [of b64_table i] nth_mem [of i b64_table] b64_table_facts by metis

lemma b64_val_char [simp]: "unat i < 64 \<Longrightarrow> b64_val (b64_char i) = i"
  using b64_table_inverse [of "unat i"] by (simp add: b64_val_def b64_char_def)

lemma b64_char_pad [simp]: "unat i < 64 \<Longrightarrow> b64_char i \<noteq> CHR ''=''"
  using b64_table_inverse [of "unat i"] by (simp add: b64_char_def)

lemma char_of_byte_word [simp]: "char_of (unat (byte_word x)) = x"
  using of_char_lt_256 [of x] by (simp add: byte_word_def unat_of_nat)

lemma word8_bit_high [simp]: "8 \<le> n \<Longrightarrow> \<not> bit (w :: 8 word) n"
  using bit_imp_le_length [of w n] by auto

lemma word8_eqI:
  fixes v w :: "8 word"
  assumes "bit v 0 = bit w 0" "bit v 1 = bit w 1" "bit v 2 = bit w 2" "bit v 3 = bit w 3"
    "bit v 4 = bit w 4" "bit v 5 = bit w 5" "bit v 6 = bit w 6" "bit v 7 = bit w 7"
  shows "v = w"
proof (rule bit_word_eqI)
  fix n
  assume "n < LENGTH(8)"
  then have "n \<in> {0, 1, 2, 3, 4, 5, 6, 7}" by auto
  with assms show "bit v n = bit w n" by auto
qed

lemma word8_lt_64: "unat (w :: 8 word) < 64 \<longleftrightarrow> \<not> bit w 6 \<and> \<not> bit w 7"
proof -
  have "unat w < 64 \<longleftrightarrow> take_bit 6 (unat w) = unat w"
    by (simp add: take_bit_nat_eq_self_iff)
  also have "\<dots> \<longleftrightarrow> take_bit 6 w = w"
    by (metis unsigned_take_bit_eq word_unat_eq_iff)
  also have "\<dots> \<longleftrightarrow> \<not> bit w 6 \<and> \<not> bit w 7"
  proof
    assume "take_bit 6 w = w"
    then have "bit w n \<Longrightarrow> n < 6" for n by (metis bit_take_bit_iff)
    then show "\<not> bit w 6 \<and> \<not> bit w 7" by fastforce
  next
    assume "\<not> bit w 6 \<and> \<not> bit w 7"
    then show "take_bit 6 w = w" by (intro word8_eqI) (auto simp: bit_take_bit_iff)
  qed
  finally show ?thesis .
qed

lemma sextets_small [simp]:
  "unat (sextet1 x) < 64" "unat (sextet2 x y) < 64" "unat (sextet3 x y) < 64" "unat (sextet4 x) < 64"
  by (simp_all add: word8_lt_64 bit_simps sextet1_def sextet2_def sextet3_def sextet4_def)

lemma octets_of_sextets [simp]:
  "octet1 (sextet1 x) (sextet2 x y) = x" "octet2 (sextet2 x y) (sextet3 y z) = y"
  "octet3 (sextet3 y z) (sextet4 z) = z"
  unfolding octet1_def octet2_def octet3_def sextet1_def sextet2_def sextet3_def sextet4_def
  by (rule word8_eqI; simp add: bit_simps)+

lemma decode_chunk:
  "base64_decode (b64_chunk [x] @ rest) = [x] @ base64_decode rest"
  "base64_decode (b64_chunk [x, y] @ rest) = [x, y] @ base64_decode rest"
  "base64_decode (b64_chunk [x, y, z] @ rest) = [x, y, z] @ base64_decode rest"
  by (simp_all add: b64_chunk_def b64_unchunk_def Let_def)

lemma length_b64_chunk [simp]: "length (b64_chunk ch) = 4"
  by (simp add: b64_chunk_def Let_def)

lemma base64_decode_encode: "base64_decode (base64_encode bs) = bs"
  using decode_chunk(1,2) [where rest = "[]"]
  by (induction bs rule: base64_encode.induct) (simp_all add: decode_chunk(3))

lemma base64_inj: "base64_encode a = base64_encode b \<longleftrightarrow> a = b"
  by (metis base64_decode_encode)

lemma length_base64: "length (base64_encode bs) = 4 * ((length bs + 2) div 3)"
proof (induction bs rule: base64_encode.induct)
  case (4 x y z rest)
  have "(length rest + 2 + 3) div 3 = Suc ((length rest + 2) div 3)" by (subst div_add_self2) simp_all
  with 4 show ?case by simp
qed simp_all

section \<open>Lemmas: sessions\<close>

lemma read_head_Some:
  "read_head ks buf c = (Some b, c') \<Longrightarrow> \<exists>chunk. b = buf @ chunk \<and> c_in c = chunk @ c_in c'"
proof (induction ks arbitrary: buf c)
  case (Cons k ks)
  let ?n = "min (max k 1) 4096"
  show ?case
  proof (cases "contains_str crlf2 (buf @ take ?n (c_in c)) \<or> take ?n (c_in c) = []")
    case True
    with Cons.prems show ?thesis by (auto simp: Let_def)
  next
    case False
    with Cons.prems have "read_head ks (buf @ take ?n (c_in c)) (c\<lparr>c_in := drop ?n (c_in c)\<rparr>) = (Some b, c')"
      by (auto simp: Let_def split: if_splits)
    from Cons.IH [OF this] obtain chunk where
      "b = (buf @ take ?n (c_in c)) @ chunk" "drop ?n (c_in c) = chunk @ c_in c'" by auto
    then show ?thesis by (intro exI [of _ "take ?n (c_in c) @ chunk"]) (simp, metis append_take_drop_id)
  qed
qed simp

lemma read_head_one:
  assumes "c_in c = head @ rest" "length head = k" "0 < k" "k \<le> 4096" "contains_str crlf2 head"
  shows "read_head (k # ks) [] c = (Some head, c\<lparr>c_in := rest\<rparr>)"
proof -
  have "min (max k 1) 4096 = k" using assms(3,4) by simp
  then show ?thesis using assms(1,2,5) by (simp add: Let_def)
qed

text \<open>A session that reached the limiter has read a head that passes the credential check.\<close>

lemma handle_http_past_auth:
  assumes "\<not> before_limits (sr_end (handle_http ops env cfg pool ks c))"
  obtains buf c1 where "read_head ks [] c = (Some buf, c1)" "client_allowed (se_peer env) (gc_allowlist cfg)"
    "proxy_auth_ok (gc_auth cfg) (from_utf8_lossy buf)"
  using assms
  by (auto simp: handle_http_def ended_def before_limits_def Let_def
      split: if_splits prod.splits option.splits)

lemma http_forward_end:
  "sr_end (http_forward env pool l permit rh c) = Tunnelled u \<Longrightarrow> fst (pick (se_registry env) pool) = Some u"
  "sr_upstream (http_forward env pool l permit rh c) = Some up \<Longrightarrow>
     \<exists>u. sr_end (http_forward env pool l permit rh c) = Tunnelled u"
  by (auto simp: http_forward_def Let_def split: option.splits prod.splits sum.splits if_splits)

lemma handle_http_Tunnelled:
  "sr_end (handle_http ops env cfg pool ks c) = Tunnelled u \<Longrightarrow> fst (pick (se_registry env) pool) = Some u"
  by (auto simp: handle_http_def ended_def Let_def dest: http_forward_end(1)
      split: if_splits prod.splits option.splits sum.splits)

lemma handle_http_upstream:
  "sr_upstream (handle_http ops env cfg pool ks c) = Some up \<Longrightarrow>
     \<exists>u. sr_end (handle_http ops env cfg pool ks c) = Tunnelled u"
  by (auto simp: handle_http_def ended_def Let_def dest: http_forward_end(2)
      split: if_splits prod.splits option.splits sum.splits)

text \<open>A tunnel has come through every earlier stage.\<close>

lemma handle_http_tunnel_stages:
  assumes "sr_end (handle_http ops env cfg pool ks c) = Tunnelled u"
  obtains buf c1 l1 permit where "read_head ks [] c = (Some buf, c1)"
    "proxy_auth_ok (gc_auth cfg) (from_utf8_lossy buf)"
    "handle_http ops env cfg pool ks c = http_forward env pool l1 permit (from_utf8_lossy buf) c1"
  using assms
  by (auto simp: handle_http_def ended_def Let_def split: if_splits prod.splits option.splits sum.splits)

lemma http_forward_tunnel:
  assumes "sr_end (http_forward env pool l permit rh c) = Tunnelled u"
  shows "\<exists>hp up. dial_socks5 (se_dial env) (up_addr u) (fst (split_host_port hp)) (snd (split_host_port hp)) = Inr up \<and>
    sr_client (http_forward env pool l permit rh c) =
       (if is_connect (first_line_of rh) then write_ignore resp_200 c else c) \<and>
    sr_upstream (http_forward env pool l permit rh c) =
       Some (if is_connect (first_line_of rh) then up else write_ignore rh up)"
proof -
  from assms obtain hp v pool1 where hp: "http_target (first_line_of rh) = Some hp"
    and v: "pick (se_registry env) pool = (Some v, pool1)"
    by (auto simp: http_forward_def Let_def split: option.splits prod.splits)
  from assms obtain up where up: "dial_socks5 (se_dial env) (up_addr v) (fst (split_host_port hp)) (snd (split_host_port hp)) = Inr up"
    by (auto simp: http_forward_def hp v Let_def case_prod_beta split: sum.splits)
  from assms have "v = u"
    by (simp add: http_forward_def hp v up Let_def case_prod_beta split: if_splits)
  then show ?thesis
    using up by (auto simp: http_forward_def hp v Let_def case_prod_beta)
qed

text \<open>What the dial writes is fixed by host and port; what it leaves unread depends on the
  address type of the reply.\<close>

lemma dial_socks5_writes:
  assumes "dial_socks5 net addr host p = Inr up"
  shows "\<exists>up0. net addr = Some up0 \<and>
    c_out up = c_out up0 @ [CHR 0x05, CHR 0x01, CHR 0x00] @ http_dial_request host p"
  using assms unfolding dial_socks5_def reply_remaining_def
  by (auto dest!: write_all_out read_exact_frame split: option.splits prod.splits bool.splits if_splits)

lemma dial_socks5_reply:
  assumes "net addr = Some up" "c_wleft up = None"
    and "c_in up = [CHR 0x05, CHR 0x00] @ [v, CHR 0x00, rsv, atyp] @ rest"
  shows "dial_socks5 net addr host p =
    (let up4 = up\<lparr>c_out := c_out up @ [CHR 0x05, CHR 0x01, CHR 0x00] @ http_dial_request host p, c_in := rest\<rparr>
     in case reply_remaining atyp up4 of
       (None, _) \<Rightarrow> Inl UnexpectedEof
     | (Some remaining, up5) \<Rightarrow>
         if 0 < remaining then
           (case read_exact remaining up5 of (None, _) \<Rightarrow> Inl UnexpectedEof | (Some _, up6) \<Rightarrow> Inr up6)
         else Inr up5)"
  using assms by (simp add: dial_socks5_def read_exact_def Let_def)

section \<open>Properties\<close>

text \<open>The Base64 encoder is lossless: a decoder recovers every byte string from its
  encoding, whose length is four characters for every started group of three bytes. So two
  credential pairs have the same token only if \<open>user:password\<close> is the same text.\<close>

theorem base64_roundtrip:
  "base64_decode (base64_encode bs) = bs \<and> length (base64_encode bs) = 4 * ((length bs + 2) div 3)"
  by (simp add: base64_decode_encode length_base64)

text \<open>C4: With authentication configured, an HTTP session that gets as far as the limiter has
  an admitted peer and a head with a Proxy-Authorization line whose value is the Basic token
  of exactly the configured user and password; no other \<open>user:password\<close> text has that
  token.\<close>

theorem http_auth_required:
  assumes "gc_auth cfg = Some (u, p)"
    and "\<not> before_limits (sr_end (handle_http ops env cfg pool arrivals c))"
  shows "client_allowed (se_peer env) (gc_allowlist cfg) \<and>
    (\<exists>head rest l. c_in c = head @ rest \<and> l \<in> set (str_lines (from_utf8_lossy head)) \<and>
       starts_with ''proxy-authorization:'' (to_ascii_lowercase l) \<and>
       auth_line_value l = ''Basic '' @ base64_encode (u @ '':'' @ p) \<and>
       (\<forall>x. base64_encode x = base64_encode (u @ '':'' @ p) \<longrightarrow> x = u @ '':'' @ p))"
proof -
  obtain buf c1 where h: "read_head arrivals [] c = (Some buf, c1)"
    and al: "client_allowed (se_peer env) (gc_allowlist cfg)"
    and ok: "proxy_auth_ok (gc_auth cfg) (from_utf8_lossy buf)"
    using handle_http_past_auth [OF assms(2)] .
  from ok assms(1) obtain l where "l \<in> set (str_lines (from_utf8_lossy buf))"
    and "is_auth_line (basic_token u p) l"
    by (auto simp: proxy_auth_ok_def list_ex_iff)
  moreover from read_head_Some [OF h] have "c_in c = buf @ c_in c1" by simp
  ultimately show ?thesis
    using al unfolding is_auth_line_def basic_token_def base64_inj by blast
qed

definition demo_auth_head :: bytes where
  "demo_auth_head = ''GET http://a.io/ HTTP/1.1'' @ crlf @ ''Proxy-Authorization: Basic dTpw'' @ crlf2"

lemma demo_auth_line:
  "str_lines demo_auth_head = [''GET http://a.io/ HTTP/1.1'', ''Proxy-Authorization: Basic dTpw'', []]"
  "is_auth_line (basic_token ''u'' ''p'') ''Proxy-Authorization: Basic dTpw''"
  by code_simp+

lemma demo_auth_head_ascii: "is_ascii demo_auth_head"
  by code_simp

lemma demo_read_head:
  "read_head [4096] [] \<lparr>c_in = demo_auth_head, c_out = [], c_wleft = None\<rparr>
   = (Some demo_auth_head, \<lparr>c_in = [], c_out = [], c_wleft = None\<rparr>)"
  by code_simp

theorem http_auth_required_witness:
  "\<exists>head rest l. demo_auth_head = head @ rest \<and> l \<in> set (str_lines (from_utf8_lossy head)) \<and>
     auth_line_value l = ''Basic '' @ base64_encode (''u'' @ '':'' @ ''p'')"
proof -
  let ?run = "handle_http nat_semaphore (demo_env [] []) (demo_config (Some (''u'', ''p''))) pool_new [4096]
      \<lparr>c_in = demo_auth_head, c_out = [], c_wleft = None\<rparr>"
  have "sr_end ?run \<in> {BadRequest, NoUpstream}"
    using demo_auth_line
    by (simp del: read_head.simps add: handle_http_def demo_read_head lossy_ascii demo_auth_head_ascii proxy_auth_ok_def
        demo_config_def demo_env_def client_allowed_def acquire_opt_def http_forward_def pick_def
        healthy_ids_def reg_list_def Let_def split: option.splits)
  then have "\<not> before_limits (sr_end ?run)" by (auto simp: before_limits_def)
  from http_auth_required [OF _ this, of "''u''" "''p''"] show ?thesis
    by (simp add: demo_config_def) blast
qed

text \<open>As for SOCKS5, an HTTP session tunnels only through an instance that the registry
  reports Healthy, and when there is none no upstream is contacted and the client gets 502
  or an earlier refusal.\<close>

theorem http_only_healthy_upstream:
  assumes "reg_wf (se_registry env)"
  shows "(\<forall>u. sr_end (handle_http ops env cfg pool arrivals c) = Tunnelled u \<longrightarrow>
      claims_healthy (se_registry env) (up_instance u)) \<and>
    ((\<forall>i. \<not> claims_healthy (se_registry env) i) \<longrightarrow>
      sr_upstream (handle_http ops env cfg pool arrivals c) = None)"
  using pick_Some_healthy [OF assms, of pool] handle_http_Tunnelled [of ops env cfg pool arrivals c]
    handle_http_upstream [of ops env cfg pool arrivals c]
  by (metis not_Some_eq prod.collapse)

theorem http_only_healthy_upstream_witness:
  "sr_upstream (handle_http nat_semaphore (demo_env [(1, rt_stopped)] []) (demo_config None) pool_new [4096]
     \<lparr>c_in = demo_auth_head, c_out = [], c_wleft = None\<rparr>) = None"
proof -
  have "\<forall>i. \<not> claims_healthy (se_registry (demo_env [(1, rt_stopped)] [])) i"
    by (simp add: demo_env_def claims_healthy_def reg_get_def rt_stopped_def)
  moreover have "reg_wf (se_registry (demo_env [(1, rt_stopped)] []))"
    by (simp add: demo_env_def reg_wf_def)
  ultimately show ?thesis using http_only_healthy_upstream by blast
qed

text \<open>The dial consumes the upstream's reply exactly, up to its last byte, for a bound
  address of the IPv4 and the domain form, so the tunnel starts with the target's first
  byte. For an IPv6 bound address it stops two bytes early: the bound port stays in the
  stream and reaches the client in front of the target's data.\<close>

theorem http_dial_reply_consumed:
  assumes "net addr = Some up" and "c_wleft up = None"
    and "c_in up = [CHR 0x05, CHR 0x00] @ [CHR 0x05, CHR 0x00, CHR 0x00, atyp] @ bnd @ port_be q @ body"
    and "atyp = CHR 0x01 \<and> length bnd = 4 \<or>
         atyp = CHR 0x03 \<and> (\<exists>d. length d < 256 \<and> bnd = char_of (length d) # d) \<or>
         atyp = CHR 0x04 \<and> length bnd = 16"
  shows "\<exists>up'. dial_socks5 net addr host p = Inr up' \<and>
    c_in up' = (if atyp = CHR 0x04 then port_be q @ body else body)"
proof -
  note run = dial_socks5_reply [of net addr up _ _ atyp "bnd @ port_be q @ body" host p, OF assms(1,2)]
  consider "atyp = CHR 0x01" "length bnd = 4" | "atyp = CHR 0x04" "length bnd = 16"
    | d where "atyp = CHR 0x03" "length d < 256" "bnd = char_of (length d) # d"
    using assms(4) by blast
  then show ?thesis
    using assms(3) by cases (simp_all add: run reply_remaining_def read_exact_def Let_def)
qed

theorem http_dial_reply_consumed_witness:
  "\<exists>up'. dial_socks5 (\<lambda>_. Some \<lparr>c_in = [CHR 0x05, CHR 0x00] @ [CHR 0x05, CHR 0x00, CHR 0x00, CHR 0x04] @
        replicate 16 (CHR 0x00) @ port_be 40001 @ ''hello'', c_out = [], c_wleft = None\<rparr>)
      \<lparr>sa_ip = localhost, sa_port = 40001\<rparr> ''a.io'' 443 = Inr up' \<and> c_in up' = port_be 40001 @ ''hello''"
  using http_dial_reply_consumed [of "\<lambda>_. Some \<lparr>c_in = [CHR 0x05, CHR 0x00] @
        [CHR 0x05, CHR 0x00, CHR 0x00, CHR 0x04] @ replicate 16 (CHR 0x00) @ port_be 40001 @ ''hello'',
        c_out = [], c_wleft = None\<rparr>", OF refl, of "CHR 0x04" "replicate 16 (CHR 0x00)" 40001 "''hello''"]
  by simp

text \<open>What a client sends right behind a CONNECT head, in the same segment, is lost: the
  upstream has been sent the SOCKS5 exchange only, and what the tunnel will still copy from
  the client starts after the bytes that came with the head.\<close>

theorem http_connect_drops_early_data:
  assumes "c_in c = (head @ early) @ rest" and "contains_str crlf2 head"
    and "length (head @ early) = k" and "k \<le> 4096" and "k # ks = arrivals"
    and "is_connect (first_line_of (from_utf8_lossy (head @ early)))"
    and "sr_end (handle_http ops env cfg pool arrivals c) = Tunnelled u"
  shows "c_in (sr_client (handle_http ops env cfg pool arrivals c)) = rest \<and>
    (\<exists>up up0 host p. sr_upstream (handle_http ops env cfg pool arrivals c) = Some up \<and>
       se_dial env (up_addr u) = Some up0 \<and>
       c_out up = c_out up0 @ [CHR 0x05, CHR 0x01, CHR 0x00] @ http_dial_request host p)"
proof -
  have sub: "contains_str crlf2 (xs @ ys)" if "contains_str crlf2 xs" for xs ys
    using that by (induction xs) (auto simp: starts_with_iff crlf2_def append_eq_Cons_conv)
  have "0 < k" using assms(2,3) by (cases head) (auto simp: crlf2_def)
  then have h: "read_head arrivals [] c = (Some (head @ early), c\<lparr>c_in := rest\<rparr>)"
    using read_head_one [OF assms(1), of k ks] assms(2-5) sub by auto
  obtain buf c1 l1 permit where "read_head arrivals [] c = (Some buf, c1)"
    and run: "handle_http ops env cfg pool arrivals c = http_forward env pool l1 permit (from_utf8_lossy buf) c1"
    using handle_http_tunnel_stages [OF assms(7)] .
  with h have b: "buf = head @ early" "c1 = c\<lparr>c_in := rest\<rparr>" by simp_all
  obtain hp up where "dial_socks5 (se_dial env) (up_addr u) (fst (split_host_port hp)) (snd (split_host_port hp)) = Inr up"
    and "sr_client (http_forward env pool l1 permit (from_utf8_lossy buf) c1) = write_ignore resp_200 c1"
    and "sr_upstream (http_forward env pool l1 permit (from_utf8_lossy buf) c1) = Some up"
    using http_forward_tunnel [of env pool l1 permit "from_utf8_lossy buf" c1 u] assms(6,7)
    by (auto simp: run b)
  with dial_socks5_writes show ?thesis unfolding run by (fastforce simp: b)
qed

definition demo_answer :: bytes where
  "demo_answer = [CHR 0x05, CHR 0x00] @ [CHR 0x05, CHR 0x00, CHR 0x00, CHR 0x01] @
     replicate 4 (CHR 0x00) @ replicate 2 (CHR 0x00)"

definition demo_connect_head :: bytes where
  "demo_connect_head = ''CONNECT a.io:443 HTTP/1.1'' @ crlf2"

lemma demo_dial: "\<exists>up. dial_socks5 (se_dial (demo_env r demo_answer)) addr host p = Inr up"
  by (simp add: demo_env_def demo_answer_def dial_socks5_reply reply_remaining_def read_exact_def Let_def)

lemma demo_pick: "fst (pick two_healthy pool_new) = Some (upstream_of 40000 1)"
  by (simp add: pick_def healthy_ids_def reg_list_def two_healthy_def pool_new_def pool_with_base_def
      first_warp_port_def)

lemma demo_forward:
  assumes "http_target (first_line_of rh) = Some hp"
  shows "sr_end (http_forward (demo_env two_healthy demo_answer) pool_new l permit rh c) = Tunnelled (upstream_of 40000 1)"
proof -
  obtain pool1 where "pick two_healthy pool_new = (Some (upstream_of 40000 1), pool1)"
    using demo_pick by (metis prod.collapse)
  moreover obtain up where "dial_socks5 (se_dial (demo_env two_healthy demo_answer)) (up_addr (upstream_of 40000 1))
      (fst (split_host_port hp)) (snd (split_host_port hp)) = Inr up"
    using demo_dial by blast
  moreover have "se_registry (demo_env two_healthy demo_answer) = two_healthy" by (simp add: demo_env_def)
  ultimately show ?thesis
    by (simp add: http_forward_def assms Let_def case_prod_beta)
qed

theorem http_connect_drops_early_data_witness:
  "c_in (sr_client (handle_http nat_semaphore (demo_env two_healthy demo_answer) (demo_config None) pool_new
     [31] \<lparr>c_in = demo_connect_head @ ''hilater'', c_out = [], c_wleft = None\<rparr>)) = ''later''"
proof -
  let ?c = "\<lparr>c_in = demo_connect_head @ ''hilater'', c_out = [], c_wleft = None\<rparr>"
  have len: "length (demo_connect_head @ ''hi'') = 31" "contains_str crlf2 demo_connect_head"
    "contains_str crlf2 (demo_connect_head @ ''hi'')"
    by code_simp+
  have rh: "from_utf8_lossy (demo_connect_head @ ''hi'') = demo_connect_head @ ''hi''"
    by (rule lossy_ascii) code_simp
  have tgt: "http_target (first_line_of (demo_connect_head @ ''hi'')) = Some ''a.io:443''"
    and con: "is_connect (first_line_of (demo_connect_head @ ''hi''))"
    by code_simp+
  have cin: "c_in ?c = (demo_connect_head @ ''hi'') @ ''later''" by simp
  have rd: "read_head [31] [] ?c = (Some (demo_connect_head @ ''hi''), ?c\<lparr>c_in := ''later''\<rparr>)"
    using len by (intro read_head_one [OF cin]) simp_all
  have "sr_end (handle_http nat_semaphore (demo_env two_healthy demo_answer) (demo_config None) pool_new [31] ?c)
      = Tunnelled (upstream_of 40000 1)"
    using demo_forward [OF tgt, of None None]
    by (simp del: read_head.simps add: handle_http_def rd rh proxy_auth_ok_def client_allowed_def
        acquire_opt_def demo_config_def)
  from http_connect_drops_early_data [OF cin len(2,1) _ refl _ this] rh con show ?thesis by simp
qed

text \<open>A request that is not CONNECT is forwarded with its whole head, the proxy's own
  credentials included: with authentication configured the text sent to the upstream has the
  Proxy-Authorization line with the token of the configured user and password. It is the
  decoded text, so bytes that are not UTF-8 reach the upstream as replacement characters.\<close>

theorem http_forwards_credentials:
  assumes "gc_auth cfg = Some (u, p)"
    and "sr_end (handle_http ops env cfg pool arrivals c) = Tunnelled w"
    and "read_head arrivals [] c = (Some buf, c1)"
    and "\<not> is_connect (first_line_of (from_utf8_lossy buf))"
    and "\<forall>addr up0. se_dial env addr = Some up0 \<longrightarrow> c_wleft up0 = None"
  shows "\<exists>up pre. sr_upstream (handle_http ops env cfg pool arrivals c) = Some up \<and>
    c_out up = pre @ from_utf8_lossy buf \<and>
    (\<exists>l \<in> set (str_lines (from_utf8_lossy buf)). is_auth_line (basic_token u p) l)"
proof -
  obtain buf' c1' l1 permit where "read_head arrivals [] c = (Some buf', c1')"
    and ok: "proxy_auth_ok (gc_auth cfg) (from_utf8_lossy buf')"
    and run: "handle_http ops env cfg pool arrivals c = http_forward env pool l1 permit (from_utf8_lossy buf') c1'"
    using handle_http_tunnel_stages [OF assms(2)] .
  with assms(3) have b: "buf' = buf" by simp
  obtain hp up where
    d: "dial_socks5 (se_dial env) (up_addr w) (fst (split_host_port hp)) (snd (split_host_port hp)) = Inr up"
    and up: "sr_upstream (http_forward env pool l1 permit (from_utf8_lossy buf) c1') =
      Some (write_ignore (from_utf8_lossy buf) up)"
    using http_forward_tunnel [of env pool l1 permit "from_utf8_lossy buf" c1' w] assms(2,4)
    by (auto simp: run b)
  have "c_wleft up = None"
    using d assms(5) unfolding dial_socks5_def reply_remaining_def
    by (auto dest!: read_exact_frame split: option.splits prod.splits bool.splits if_splits)
  then have "c_out (write_ignore (from_utf8_lossy buf) up) = c_out up @ from_utf8_lossy buf" by simp
  with up ok assms(1) show ?thesis
    unfolding run b by (fastforce simp: proxy_auth_ok_def list_ex_iff)
qed

theorem http_forwards_credentials_witness:
  "\<exists>up pre. sr_upstream (handle_http nat_semaphore (demo_env two_healthy demo_answer)
        (demo_config (Some (''u'', ''p''))) pool_new [4096] \<lparr>c_in = demo_auth_head, c_out = [], c_wleft = None\<rparr>)
      = Some up \<and> c_out up = pre @ demo_auth_head"
proof -
  let ?c = "\<lparr>c_in = demo_auth_head, c_out = [], c_wleft = None\<rparr>"
  let ?run = "handle_http nat_semaphore (demo_env two_healthy demo_answer) (demo_config (Some (''u'', ''p'')))
      pool_new [4096] ?c"
  have rh: "from_utf8_lossy demo_auth_head = demo_auth_head"
    by (rule lossy_ascii [OF demo_auth_head_ascii])
  have tgt: "http_target (first_line_of demo_auth_head) = Some ''a.io''"
    and con: "\<not> is_connect (first_line_of demo_auth_head)"
    by code_simp+
  have "sr_end ?run = Tunnelled (upstream_of 40000 1)"
    using demo_forward [OF tgt, of None None] demo_auth_line
    by (simp del: read_head.simps add: handle_http_def demo_read_head rh proxy_auth_ok_def client_allowed_def
        acquire_opt_def demo_config_def)
  from http_forwards_credentials [OF _ this demo_read_head, of "''u''" "''p''"] con rh show ?thesis
    by (simp add: demo_config_def demo_env_def) blast
qed

end
