(* ===== verification/Gateway.thy ===== *)
theory Gateway
  imports HttpProxy Backoff
begin

text \<open>
  \<open>src/gateway/mod.rs\<close>: the shared state of the built-in gateway, the loop
  \<open>run_with_ready\<close> that binds and rebuilds the listeners, \<open>supervise\<close> around it, and
  the three operations of \<open>ProxyApplier\<close> that other tasks call while the loop runs.

  The loop is cut at its suspension points into phases. \<open>notify_waiters\<close> of tokio wakes
  the tasks that are waiting at that moment and is forgotten otherwise, so it moves a loop
  that waits in a \<open>select!\<close> and does nothing to a loop between its snapshot and its next
  \<open>select!\<close>. The interleaving of the loop with the other tasks is the step relation
  \<open>gw_reach\<close>.
\<close>

section \<open>State\<close>

text \<open>Where \<open>run_with_ready\<close> is: at the head of its loop, waiting for a first
  configuration, between the snapshot and the listeners' \<open>select!\<close>, serving (with the HTTP
  listener or without it), sleeping before a rebuild, or gone.\<close>

datatype 's phase =
    Top | AwaitConfig | Binding "'s gateway_config" | Serving "'s gateway_config" bool
  | Sleeping millis | Exited

record 's gateway =
  gw_config :: "'s gateway_config option"
  gw_last_applied :: "proxy_settings option"
  gw_stopped :: bool
  gw_active :: bool
  gw_last_error :: "string option"
  gw_panic :: bool
  gw_phase :: "'s phase"
  gw_attempt :: nat

definition gateway_new :: "'s gateway" where
  "gateway_new = \<lparr>gw_config = None, gw_last_applied = None, gw_stopped = False, gw_active = False,
     gw_last_error = None, gw_panic = False, gw_phase = Top, gw_attempt = 0\<rparr>"

section \<open>Operations of the other tasks\<close>

text \<open>What \<open>wake.notify_waiters()\<close> does to the loop; only the arm of a serving generation
  resets the attempt counter.\<close>

definition notify_waiters :: "'s gateway \<Rightarrow> 's gateway" where
  "notify_waiters g =
     (case gw_phase g of
        AwaitConfig \<Rightarrow> g\<lparr>gw_phase := Top\<rparr>
      | Serving _ _ \<Rightarrow> g\<lparr>gw_phase := Top, gw_attempt := 0\<rparr>
      | Sleeping _ \<Rightarrow> g\<lparr>gw_phase := Top\<rparr>
      | _ \<Rightarrow> g)"

definition set_config :: "'s gateway_config option \<Rightarrow> 's gateway \<Rightarrow> 's gateway" where
  "set_config cfg g = notify_waiters (g\<lparr>gw_config := cfg\<rparr>)"

definition set_error :: "string option \<Rightarrow> 's gateway \<Rightarrow> 's gateway" where
  "set_error err g = g\<lparr>gw_last_error := err\<rparr>"

definition apply_config :: "'s sem_ops \<Rightarrow> nat \<Rightarrow> proxy_settings \<Rightarrow> 's gateway \<Rightarrow> (string + unit) \<times> 's gateway" where
  "apply_config ops now s g =
     (if gw_last_applied g = Some s then (Inr (), g)
      else (Inr (), set_config (Some (config_from_settings ops now s)) (g\<lparr>gw_last_applied := Some s\<rparr>)))"

definition gw_stop :: "'s gateway \<Rightarrow> (string + unit) \<times> 's gateway" where
  "gw_stop g =
     (Inr (), (notify_waiters (g\<lparr>gw_stopped := True, gw_last_applied := None\<rparr>))\<lparr>gw_active := False\<rparr>)"

definition gw_status :: "nat \<Rightarrow> registry \<Rightarrow> 's gateway \<Rightarrow> proxy_status option" where
  "gw_status pid r g =
     (let healthy_upstreams = length (filter (\<lambda>(_, e). ir_state e = Healthy) (reg_list r)) in
      if gw_stopped g then Some StStopped
      else if \<not> gw_active g
      then Some (case gw_last_error g of Some reason \<Rightarrow> StFailed reason None | None \<Rightarrow> StStopped)
      else Some (StRunning pid healthy_upstreams []))"

definition request_fault_injection :: "'s gateway \<Rightarrow> 's gateway" where
  "request_fault_injection g = g\<lparr>gw_panic := True\<rparr>"

definition take_panic_request :: "'s gateway \<Rightarrow> bool \<times> 's gateway" where
  "take_panic_request g = (gw_panic g, g\<lparr>gw_panic := False\<rparr>)"

section \<open>The loop\<close>

text \<open>What the loop meets at its suspension points: the check at its head, the outcome of the
  SOCKS5 bind (with that of the HTTP bind, tried only when HTTP is enabled), the unexpected
  end of a listener task, the end of a sleep, and shutdown. An event that the current phase
  does not wait for is \<open>None\<close>.\<close>

datatype loop_event = CheckTop | BindOk bool | BindFail string | ListenerExit | SleepDone | Shutdown

definition back_off :: "'s gateway \<Rightarrow> 's gateway" where
  "back_off g = g\<lparr>gw_phase := Sleeping (delay_for recommended_backoff (sat_add32 (gw_attempt g) 1)),
     gw_attempt := min (sat_add32 (gw_attempt g) 1) 8\<rparr>"

definition exit_loop :: "'s gateway \<Rightarrow> 's gateway" where
  "exit_loop g = g\<lparr>gw_phase := Exited, gw_active := False\<rparr>"

fun loop_at :: "'s phase \<Rightarrow> loop_event \<Rightarrow> 's gateway \<Rightarrow> 's gateway option" where
  "loop_at Top CheckTop g =
     Some (if gw_stopped g then exit_loop g
           else (case gw_config g of
                   None \<Rightarrow> g\<lparr>gw_phase := AwaitConfig\<rparr>
                 | Some cfg \<Rightarrow> g\<lparr>gw_phase := Binding cfg\<rparr>))"
| "loop_at (Binding cfg) (BindFail msg) g = Some (back_off (set_error (Some msg) g))"
| "loop_at (Binding cfg) (BindOk http_bound) g =
     Some ((set_error None (g\<lparr>gw_active := True\<rparr>))\<lparr>gw_phase := Serving cfg (gc_http cfg \<and> http_bound)\<rparr>)"
| "loop_at (Serving cfg h) ListenerExit g = Some (back_off g)"
| "loop_at (Sleeping d) SleepDone g = Some (g\<lparr>gw_phase := Top\<rparr>)"
| "loop_at AwaitConfig Shutdown g = Some (exit_loop g)"
| "loop_at (Serving cfg h) Shutdown g = Some (exit_loop g)"
| "loop_at (Sleeping d) Shutdown g = Some (exit_loop g)"
| "loop_at _ _ g = None"

definition loop_step :: "loop_event \<Rightarrow> 's gateway \<Rightarrow> 's gateway option" where
  "loop_step e g = loop_at (gw_phase g) e g"

fun loop_run :: "loop_event list \<Rightarrow> 's gateway \<Rightarrow> 's gateway option" where
  "loop_run [] g = Some g"
| "loop_run (e # es) g = (case loop_step e g of None \<Rightarrow> None | Some g' \<Rightarrow> loop_run es g')"

text \<open>The listeners that are bound.\<close>

definition socks5_bound :: "'s gateway \<Rightarrow> bool" where
  "socks5_bound g = (case gw_phase g of Serving _ _ \<Rightarrow> True | _ \<Rightarrow> False)"

definition http_bound :: "'s gateway \<Rightarrow> bool" where
  "http_bound g = (case gw_phase g of Serving _ h \<Rightarrow> h | _ \<Rightarrow> False)"

fun_cases loop_at_TopE: "loop_at Top e g = Some g'"
  and loop_at_BindingE: "loop_at (Binding cfg) e g = Some g'"
  and loop_at_ServingE: "loop_at (Serving cfg h) e g = Some g'"
  and loop_at_SleepingE: "loop_at (Sleeping d) e g = Some g'"
  and loop_at_AwaitE: "loop_at AwaitConfig e g = Some g'"
  and loop_at_ExitedE: "loop_at Exited e g = Some g'"

section \<open>Supervision\<close>

text \<open>One run of the loop ends normally, by a panic (after some time, with a message, and with
  shutdown arriving or not during the sleep that follows), or by cancellation.\<close>

datatype run_exit = RunOk | RunPanic millis string bool | RunCancelled

definition stable_reset :: millis where "stable_reset = 60000"
definition crash_alert_threshold :: nat where "crash_alert_threshold = 3"

text \<open>The delays slept between runs, the crash count at the end and the error slot.\<close>

fun supervise :: "run_exit list \<Rightarrow> nat \<Rightarrow> 's gateway \<Rightarrow> millis list \<times> nat \<times> 's gateway" where
  "supervise [] crashes g = ([], crashes, g)"
| "supervise (RunOk # rest) crashes g = ([], crashes, g)"
| "supervise (RunCancelled # rest) crashes g = ([], crashes, g)"
| "supervise (RunPanic elapsed msg down # rest) crashes g =
     (let crashes0 = (if stable_reset \<le> elapsed then 0 else crashes);
          crashes1 = sat_add32 crashes0 1;
          delay = delay_for recommended_backoff crashes1;
          g1 = (if crash_alert_threshold \<le> crashes1
                then set_error (Some (''gateway task keeps crashing: '' @ msg)) g else g)
      in if down then ([delay], crashes1, g1)
         else (case supervise rest crashes1 (g1\<lparr>gw_phase := Top, gw_attempt := 0\<rparr>) of
                 (ds, n, g2) \<Rightarrow> (delay # ds, n, g2)))"

section \<open>Interleavings\<close>

text \<open>The states a gateway can reach, with the settings applied so far (and when).\<close>

inductive gw_reach :: "'s sem_ops \<Rightarrow> (nat \<times> proxy_settings) list \<Rightarrow> 's gateway \<Rightarrow> bool" for ops where
  start: "gw_reach ops [] gateway_new"
| apply_step: "gw_reach ops h g \<Longrightarrow> gw_reach ops ((now, s) # h) (snd (apply_config ops now s g))"
| stop_step: "gw_reach ops h g \<Longrightarrow> gw_reach ops h (snd (gw_stop g))"
| fault_step: "gw_reach ops h g \<Longrightarrow> gw_reach ops h (request_fault_injection g)"
| loop_steps: "gw_reach ops h g \<Longrightarrow> loop_step e g = Some g' \<Longrightarrow> gw_reach ops h g'"

text \<open>What later operations can do to a given state.\<close>

inductive gw_after :: "'s sem_ops \<Rightarrow> 's gateway \<Rightarrow> 's gateway \<Rightarrow> bool" for ops where
  refl: "gw_after ops g g"
| apply_step: "gw_after ops g g1 \<Longrightarrow> gw_after ops g (snd (apply_config ops now s g1))"
| stop_step: "gw_after ops g g1 \<Longrightarrow> gw_after ops g (snd (gw_stop g1))"
| fault_step: "gw_after ops g g1 \<Longrightarrow> gw_after ops g (request_fault_injection g1)"
| loop_steps: "gw_after ops g g1 \<Longrightarrow> loop_step e g1 = Some g2 \<Longrightarrow> gw_after ops g g2"

inductive_cases gw_reach_emptyE: "gw_reach ops [] g"

lemmas gw_op_defs = apply_config_def gw_stop_def set_config_def set_error_def request_fault_injection_def
  back_off_def exit_loop_def

subsection \<open>What an operation leaves alone\<close>

lemma notify_waiters_frame [simp]:
  "gw_config (notify_waiters g) = gw_config g" "gw_last_applied (notify_waiters g) = gw_last_applied g"
  "gw_stopped (notify_waiters g) = gw_stopped g" "gw_active (notify_waiters g) = gw_active g"
  "gw_last_error (notify_waiters g) = gw_last_error g"
  by (simp_all add: notify_waiters_def split: phase.splits)

lemma notify_waiters_phase:
  "gw_phase (notify_waiters g) =
     (case gw_phase g of Binding cfg \<Rightarrow> Binding cfg | Exited \<Rightarrow> Exited | _ \<Rightarrow> Top)"
  by (simp add: notify_waiters_def split: phase.splits)

lemma loop_at_cases:
  assumes "loop_at ph e g = Some g'"
  obtains "ph = Top" "gw_stopped g" "g' = exit_loop g"
    | "ph = Top" "\<not> gw_stopped g" "gw_config g = None" "g' = g\<lparr>gw_phase := AwaitConfig\<rparr>"
    | cfg where "ph = Top" "\<not> gw_stopped g" "gw_config g = Some cfg" "g' = g\<lparr>gw_phase := Binding cfg\<rparr>"
    | cfg msg where "ph = Binding cfg" "g' = back_off (set_error (Some msg) g)"
    | cfg hb where "ph = Binding cfg"
        "g' = (set_error None (g\<lparr>gw_active := True\<rparr>))\<lparr>gw_phase := Serving cfg (gc_http cfg \<and> hb)\<rparr>"
    | cfg h where "ph = Serving cfg h" "g' = back_off g"
    | d where "ph = Sleeping d" "g' = g\<lparr>gw_phase := Top\<rparr>"
    | "ph \<in> {AwaitConfig} \<union> range Sleeping \<union> {Serving cfg h | cfg h. True}" "g' = exit_loop g"
  using assms by (cases "(ph, e, g)" rule: loop_at.cases) (auto split: option.splits if_splits)

lemma loop_step_frame:
  "loop_step e g = Some g' \<Longrightarrow> gw_stopped g' = gw_stopped g \<and> gw_config g' = gw_config g \<and>
     gw_last_applied g' = gw_last_applied g"
  unfolding loop_step_def by (erule loop_at_cases) (auto simp: gw_op_defs)

section \<open>The interface of the reconciler\<close>

text \<open>The trait \<open>ProxyApplier\<close>: \<open>wanted\<close> is the settings an applier has accepted last.\<close>

locale proxy_applier =
  fixes apply_cfg :: "nat \<Rightarrow> proxy_settings \<Rightarrow> 'g \<Rightarrow> (string + unit) \<times> 'g"
    and stop_gw :: "'g \<Rightarrow> (string + unit) \<times> 'g"
    and wanted :: "'g \<Rightarrow> proxy_settings option"
  assumes apply_wanted: "apply_cfg now s g = (Inr (), g') \<Longrightarrow> wanted g' = Some s"
    and apply_same: "wanted g = Some s \<Longrightarrow> apply_cfg now s g = (Inr (), g)"
    and stop_wanted: "stop_gw g = (Inr (), g') \<Longrightarrow> wanted g' = None"
begin

text \<open>Replaying settings that were accepted changes nothing, however often.\<close>

lemma replay:
  assumes "apply_cfg now s g = (Inr (), g')"
  shows "fold (\<lambda>t x. snd (apply_cfg t s x)) ts g' = g'"
proof (induction ts)
  case (Cons t ts)
  have "apply_cfg t s g' = (Inr (), g')" by (rule apply_same [OF apply_wanted [OF assms]])
  with Cons show ?case by simp
qed simp

lemma stop_then_apply: "stop_gw g = (Inr (), g') \<Longrightarrow> wanted g' \<noteq> Some s"
  by (simp add: stop_wanted)

end

interpretation gw: proxy_applier "apply_config ops" gw_stop gw_last_applied
  by unfold_locales (auto simp: apply_config_def gw_stop_def set_config_def split: if_splits)

section \<open>Invariants\<close>

text \<open>A loop that is gone is not active, an active gateway has been configured, and a bound
  HTTP listener was asked for.\<close>

definition gw_inv :: "'s gateway \<Rightarrow> bool" where
  "gw_inv g \<longleftrightarrow>
     (gw_phase g = Exited \<longrightarrow> \<not> gw_active g) \<and>
     (gw_active g \<longrightarrow> gw_config g \<noteq> None) \<and>
     (\<forall>cfg. gw_phase g = Binding cfg \<longrightarrow> gw_config g \<noteq> None) \<and>
     (\<forall>cfg h. gw_phase g = Serving cfg h \<longrightarrow> gw_config g \<noteq> None \<and> (h \<longrightarrow> gc_http cfg)) \<and>
     gw_attempt g \<le> 8"

definition from_history :: "'s sem_ops \<Rightarrow> (nat \<times> proxy_settings) list \<Rightarrow> 's gateway_config \<Rightarrow> bool" where
  "from_history ops h cfg \<longleftrightarrow> (\<exists>(now, s) \<in> set h. cfg = config_from_settings ops now s)"

definition configs_of :: "'s gateway \<Rightarrow> 's gateway_config set" where
  "configs_of g = set_option (gw_config g) \<union>
     (case gw_phase g of Binding cfg \<Rightarrow> {cfg} | Serving cfg _ \<Rightarrow> {cfg} | _ \<Rightarrow> {})"

lemma loop_step_inv [inv_intros]: "gw_inv g \<Longrightarrow> loop_step e g = Some g' \<Longrightarrow> gw_inv g'"
  unfolding loop_step_def
  by (erule loop_at_cases) (auto simp: gw_inv_def gw_op_defs)

lemma gw_inv_ops [inv_intros]:
  "gw_inv g \<Longrightarrow> gw_inv (snd (apply_config ops now s g))"
  "gw_inv g \<Longrightarrow> gw_inv (snd (gw_stop g))"
  "gw_inv g \<Longrightarrow> gw_inv (request_fault_injection g)"
  by (auto simp: gw_inv_def gw_op_defs notify_waiters_def split: phase.splits)

lemma gw_inv_new [inv_intros]: "gw_inv gateway_new"
  by (simp add: gw_inv_def gateway_new_def)

lemma gw_reach_inv: "gw_reach ops h g \<Longrightarrow> gw_inv g"
  by (induction rule: gw_reach.induct) (auto intro: inv_intros)

lemma configs_of_ops:
  "configs_of (snd (apply_config ops now s g)) \<subseteq> insert (config_from_settings ops now s) (configs_of g)"
  "configs_of (snd (gw_stop g)) \<subseteq> configs_of g"
  "configs_of (request_fault_injection g) = configs_of g"
  by (auto simp: configs_of_def gw_op_defs notify_waiters_phase split: phase.splits)

lemma loop_step_configs: "loop_step e g = Some g' \<Longrightarrow> configs_of g' \<subseteq> configs_of g"
  unfolding loop_step_def
  by (erule loop_at_cases) (auto simp: configs_of_def gw_op_defs)

lemma gw_reach_configs: "gw_reach ops h g \<Longrightarrow> cfg \<in> configs_of g \<Longrightarrow> from_history ops h cfg"
proof (induction arbitrary: cfg rule: gw_reach.induct)
  case start
  then show ?case by (simp add: configs_of_def gateway_new_def)
next
  case (apply_step h g now s)
  then show ?case using configs_of_ops(1) [of ops now s g] by (auto simp: from_history_def)
next
  case (stop_step h g)
  then show ?case using configs_of_ops(2) [of g] by blast
next
  case (fault_step h g)
  then show ?case by (simp add: configs_of_ops(3))
next
  case (loop_steps h g e g')
  then show ?case using loop_step_configs [of e g g'] by blast
qed

lemma gw_after_stopped: "gw_after ops g g' \<Longrightarrow> gw_stopped g \<Longrightarrow> gw_stopped g'"
  by (induction rule: gw_after.induct)
     (auto simp: gw_op_defs dest: loop_step_frame)

lemma gw_after_exited: "gw_after ops g g' \<Longrightarrow> gw_phase g = Exited \<Longrightarrow> gw_phase g' = Exited"
proof (induction rule: gw_after.induct)
  case (loop_steps g1 e g2)
  then show ?case unfolding loop_step_def by (auto elim: loop_at_ExitedE)
qed (simp_all add: gw_op_defs notify_waiters_phase)

section \<open>Properties\<close>

text \<open>C6: Whatever the interleaving of the loop with the tasks that apply and stop, the
  configuration a listener serves was made from settings that were applied before. So if
  every applied settings carries credentials, no listener ever serves without them, and the
  HTTP listener is bound only under a configuration that enables it.\<close>

theorem gateway_serves_applied:
  assumes "gw_reach ops h g" and "gw_phase g = Serving cfg hb"
  shows "(\<exists>now s. (now, s) \<in> set h \<and> cfg = config_from_settings ops now s) \<and>
    (hb \<longrightarrow> gc_http cfg) \<and>
    ((\<forall>(now, s) \<in> set h. ps_auth s \<noteq> None) \<longrightarrow> gc_auth cfg \<noteq> None)"
proof -
  have "cfg \<in> configs_of g" using assms(2) by (simp add: configs_of_def)
  from gw_reach_configs [OF assms(1) this] obtain now s where
    "(now, s) \<in> set h" "cfg = config_from_settings ops now s"
    by (auto simp: from_history_def)
  moreover from gw_reach_inv [OF assms(1)] assms(2) have "hb \<longrightarrow> gc_http cfg"
    by (simp add: gw_inv_def)
  ultimately show ?thesis by (fastforce simp: config_from_settings_def)
qed

definition demo_settings :: "bool \<Rightarrow> proxy_settings" where
  "demo_settings socks5 = \<lparr>ps_socks5 = socks5, ps_http = True, ps_auth = Some \<lparr>pa_username = ''u'', pa_password = ''p''\<rparr>,
     ps_allowlist = [], ps_max_connections = None, ps_max_rps = None\<rparr>"

definition demo_serving :: "bool \<Rightarrow> nat gateway" where
  "demo_serving socks5 = gateway_new\<lparr>gw_config := Some (config_from_settings nat_semaphore 0 (demo_settings socks5)),
     gw_last_applied := Some (demo_settings socks5), gw_active := True,
     gw_phase := Serving (config_from_settings nat_semaphore 0 (demo_settings socks5)) True\<rparr>"

lemma demo_serving_reach: "gw_reach nat_semaphore [(0, demo_settings b)] (demo_serving b)"
proof -
  let ?cfg = "config_from_settings nat_semaphore 0 (demo_settings b)"
  let ?g1 = "gateway_new\<lparr>gw_config := Some ?cfg, gw_last_applied := Some (demo_settings b)\<rparr>"
  have "snd (apply_config nat_semaphore 0 (demo_settings b) gateway_new) = ?g1"
    by (simp add: apply_config_def set_config_def notify_waiters_def gateway_new_def)
  with gw_reach.apply_step [OF gw_reach.start, of nat_semaphore 0 "demo_settings b"]
  have "gw_reach nat_semaphore [(0, demo_settings b)] ?g1" by simp
  then have "gw_reach nat_semaphore [(0, demo_settings b)] (?g1\<lparr>gw_phase := Binding ?cfg\<rparr>)"
    by (rule gw_reach.loop_steps [where e = CheckTop]) (simp add: loop_step_def gateway_new_def)
  then show ?thesis
    by (rule gw_reach.loop_steps [where e = "BindOk True"])
       (simp add: loop_step_def gateway_new_def demo_serving_def set_error_def config_from_settings_def demo_settings_def)
qed

theorem gateway_serves_applied_witness:
  "gc_auth (config_from_settings nat_semaphore 0 (demo_settings True)) \<noteq> None"
  using gateway_serves_applied [OF demo_serving_reach [of True],
      of "config_from_settings nat_semaphore 0 (demo_settings True)" True]
  by (simp add: demo_serving_def demo_settings_def)



text \<open>A stop is for ever. After it, whatever is applied and however the loop runs, the
  status stays Stopped; once the loop has seen the flag it is gone and no listener is bound
  again, so turning both listeners off and on again leaves the proxy dead until the process
  restarts.\<close>

theorem gateway_stop_is_final:
  assumes "gw_after ops (snd (gw_stop g)) g'"
  shows "gw_status pid r g' = Some StStopped \<and>
    (gw_phase g' = Exited \<longrightarrow> gw_after ops g' g'' \<longrightarrow> \<not> socks5_bound g'' \<and> \<not> http_bound g'') \<and>
    (gw_phase g' = Top \<longrightarrow> loop_step CheckTop g' = Some (exit_loop g'))"
proof -
  have st: "gw_stopped g'" using gw_after_stopped [OF assms] by (simp add: gw_stop_def)
  then show ?thesis
    using gw_after_exited [of ops g' g'']
    by (auto simp: gw_status_def Let_def loop_step_def socks5_bound_def http_bound_def)
qed

theorem gateway_stop_is_final_witness:
  "gw_status 1 [] (snd (apply_config nat_semaphore 9 (demo_settings False) (snd (gw_stop (demo_serving True)))))
   = Some StStopped"
proof -
  have "gw_after nat_semaphore (snd (gw_stop (demo_serving True)))
      (snd (apply_config nat_semaphore 9 (demo_settings False) (snd (gw_stop (demo_serving True)))))"
    by (intro gw_after.apply_step gw_after.refl)
  from gateway_stop_is_final [OF this] show ?thesis by blast
qed

text \<open>An apply or a stop that comes while the loop is binding is lost. The wake-up has no
  waiter, so the loop goes on to serve the configuration it took before; applying the new
  settings again changes nothing because they already count as applied; and a stop in that
  window leaves the listeners open although the status says Stopped.\<close>

theorem gateway_lost_wakeup:
  assumes "gw_phase g = Binding cfg" and "gw_last_applied g \<noteq> Some s"
  shows "(\<exists>g'. loop_run [BindOk hb] (snd (apply_config ops now s g)) = Some g' \<and>
      gw_phase g' = Serving cfg (gc_http cfg \<and> hb) \<and> gw_last_applied g' = Some s \<and>
      fold (\<lambda>t x. snd (apply_config ops t s x)) ts g' = g') \<and>
    (\<exists>g'. loop_run [BindOk hb] (snd (gw_stop g)) = Some g' \<and> socks5_bound g' \<and>
      gw_status pid r g' = Some StStopped)"
proof -
  let ?g1 = "snd (apply_config ops now s g)"
  have st: "gw_phase ?g1 = Binding cfg" "gw_last_applied ?g1 = Some s"
    using assms by (simp_all add: apply_config_def set_config_def notify_waiters_def)
  let ?g2 = "?g1\<lparr>gw_active := True, gw_last_error := None, gw_phase := Serving cfg (gc_http cfg \<and> hb)\<rparr>"
  have "apply_config ops now s ?g2 = (Inr (), ?g2)" by (rule gw.apply_same) (simp add: st)
  note rep = gw.replay [OF this]
  have one: "\<exists>g'. loop_run [BindOk hb] ?g1 = Some g' \<and> gw_phase g' = Serving cfg (gc_http cfg \<and> hb) \<and>
      gw_last_applied g' = Some s \<and> fold (\<lambda>t x. snd (apply_config ops t s x)) ts g' = g'"
    using st rep by (intro exI [of _ ?g2]) (simp add: loop_step_def set_error_def)
  have "\<exists>g'. loop_run [BindOk hb] (snd (gw_stop g)) = Some g' \<and> socks5_bound g' \<and>
      gw_status pid r g' = Some StStopped"
    using assms(1)
    by (simp add: gw_stop_def notify_waiters_def loop_step_def set_error_def socks5_bound_def
        gw_status_def Let_def)
  with one show ?thesis by blast
qed

theorem gateway_lost_wakeup_witness:
  "\<exists>g'. loop_run [BindOk True] (snd (apply_config nat_semaphore 9 (demo_settings False)
     ((demo_serving True)\<lparr>gw_phase := Binding (demo_config None)\<rparr>))) = Some g' \<and>
     gw_phase g' = Serving (demo_config None) True"
proof -
  let ?g = "(demo_serving True)\<lparr>gw_phase := Binding (demo_config None)\<rparr>"
  have "gw_phase ?g = Binding (demo_config None)" "gw_last_applied ?g \<noteq> Some (demo_settings False)"
    "gc_http (demo_config None)"
    by (simp_all add: demo_serving_def demo_settings_def demo_config_def)
  from gateway_lost_wakeup [OF this(1,2), of True nat_semaphore 9 "[]" 1 "[]"] this(3)
  show ?thesis by (simp only: simp_thms) blast
qed

text \<open>Once a generation has served, the status reports Running through every later
  failure: when a listener task has ended and the port cannot be bound again nothing is
  listening, the error is recorded, and the status is the same as before.\<close>

theorem gateway_failure_hidden:
  assumes "gw_phase g = Serving cfg hb" and "gw_active g" and "\<not> gw_stopped g"
    and "gw_config g = Some cfg"
  shows "\<exists>g'. loop_run [ListenerExit, SleepDone, CheckTop, BindFail msg] g = Some g' \<and>
    \<not> socks5_bound g' \<and> \<not> http_bound g' \<and> gw_last_error g' = Some msg \<and>
    gw_status pid r g' = gw_status pid r g \<and> (\<exists>n. gw_status pid r g' = Some (StRunning pid n []))"
  using assms
  by (simp add: loop_step_def back_off_def set_error_def socks5_bound_def http_bound_def gw_status_def Let_def)

theorem gateway_failure_hidden_witness:
  "\<exists>n. gw_status 1 [] (demo_serving True) = Some (StRunning 1 n [])"
proof -
  let ?cfg = "config_from_settings nat_semaphore 0 (demo_settings True)"
  have "gw_phase (demo_serving True) = Serving ?cfg True" "gw_active (demo_serving True)"
    "\<not> gw_stopped (demo_serving True)" "gw_config (demo_serving True) = Some ?cfg"
    by (simp_all add: demo_serving_def gateway_new_def)
  from gateway_failure_hidden [OF this, of "''bind''" 1 "[]"] show ?thesis by metis
qed

text \<open>The switch for SOCKS5 is not consulted: settings with SOCKS5 off and HTTP on bind the
  SOCKS5 port as well.\<close>

theorem gateway_socks5_always_bound:
  assumes "\<not> ps_socks5 s" and "gw_phase g = AwaitConfig" and "\<not> gw_stopped g" and "gw_last_applied g = None"
  shows "\<exists>g'. loop_run [CheckTop, BindOk hb] (snd (apply_config ops now s g)) = Some g' \<and>
    socks5_bound g' \<and> (\<exists>cfg h. gw_phase g' = Serving cfg h \<and> \<not> gc_socks5 cfg)"
  using assms
  by (simp add: apply_config_def set_config_def notify_waiters_def loop_step_def set_error_def socks5_bound_def
      config_from_settings_def)

theorem gateway_socks5_always_bound_witness:
  "\<exists>g'. loop_run [CheckTop, BindOk True] (snd (apply_config nat_semaphore 0 (demo_settings False)
     (gateway_new\<lparr>gw_phase := AwaitConfig\<rparr>))) = Some g' \<and> socks5_bound g'"
proof -
  let ?g = "gateway_new\<lparr>gw_phase := AwaitConfig\<rparr> :: nat gateway"
  have "\<not> ps_socks5 (demo_settings False)" "gw_phase ?g = AwaitConfig" "\<not> gw_stopped ?g" "gw_last_applied ?g = None"
    by (simp_all add: gateway_new_def demo_settings_def)
  from gateway_socks5_always_bound [OF this, of True nat_semaphore 0] show ?thesis by blast
qed

end
