(* ===== verification/Reconciler.thy ===== *)
theory Reconciler
  imports Manager Gateway Api
begin

text \<open>
  \<open>src/reconciler/mod.rs\<close>: one round of convergence from the desired state in the database to
  the registry, the instances and the gateway, and the loop that triggers rounds. The
  reconciler reaches its collaborators through trait objects; \<open>WarpRuntime\<close> is the record
  \<open>runtime_ops\<close> and \<open>ProxyApplier\<close> the record \<open>proxy_ops\<close>. The instances of production,
  \<open>manager_runtime\<close> and \<open>builtin_gateway\<close>, are those of \<open>Manager\<close> and \<open>Gateway\<close>.

  Parsing and formatting of time stamps are functions of the \<open>time\<close> crate and therefore
  parameters; a time is its number of nanoseconds. Each reading of the clock is numbered, so
  that time can pass between two of them.
\<close>

section \<open>Collaborators\<close>

record 'm runtime_ops =
  ro_start :: "instance_context \<Rightarrow> int option \<Rightarrow> 'm \<Rightarrow> (string + unit) \<times> 'm"
  ro_stop :: "instance_id \<Rightarrow> 'm \<Rightarrow> (string + unit) \<times> 'm"
  ro_restart :: "instance_id \<Rightarrow> int option \<Rightarrow> 'm \<Rightarrow> (string + unit) \<times> 'm"
  ro_registry :: "'m \<Rightarrow> registry"
  ro_on_registry :: "(registry \<Rightarrow> registry) \<Rightarrow> 'm \<Rightarrow> 'm"

record 'g proxy_ops =
  po_apply :: "proxy_settings \<Rightarrow> 'g \<Rightarrow> (string + unit) \<times> 'g"
  po_stop :: "'g \<Rightarrow> (string + unit) \<times> 'g"

record ('m, 'g) recon_env =
  re_runtime :: "'m runtime_ops"
  re_proxy :: "'g proxy_ops"
  re_crypto :: crypto
  re_now :: "nat \<Rightarrow> string"
  re_parse :: "string \<Rightarrow> int option"
  re_format :: "int \<Rightarrow> string option"
  re_base :: nat
  re_max :: nat
  re_data_dir :: string
  re_runtime_base :: string

record apply_error =
  ae_error :: string
  ae_at :: string

record ('m, 'g) recon =
  rc_store :: store
  rc_mgr :: 'm
  rc_gw :: 'g
  rc_apply_error :: "apply_error option"
  rc_reads :: nat

definition default_backoff_base :: nat where "default_backoff_base = 5 * 10 ^ 9"
definition default_backoff_max :: nat where "default_backoff_max = 300 * 10 ^ 9"

text \<open>The largest \<open>Duration\<close>, where \<open>saturating_mul\<close> stops.\<close>

definition duration_max :: nat where "duration_max = 2 ^ 64 * 10 ^ 9 - 1"

fun show_manager_error :: "manager_error \<Rightarrow> string" where
  "show_manager_error (AlreadyRunning i) = ''instance '' @ show_int i @ '' is already running''"
| "show_manager_error (NotRunning i) = ''instance '' @ show_int i @ '' is not running''"
| "show_manager_error (PortInUse i p) =
     ''instance '' @ show_int i @ '' internal port '' @ show_nat (unat p) @ '' is already in use''"
| "show_manager_error (InvalidId i e) = ''instance '' @ show_int i @ '' id invalid: '' @ show_id_error e"
| "show_manager_error (StartFailed i e) = ''instance '' @ show_int i @ '' start failed: '' @ e"
| "show_manager_error (StopFailed i e) = ''instance '' @ show_int i @ '' stop failed: '' @ e"
| "show_manager_error (WatcherFailed i e) = ''instance '' @ show_int i @ '' crash watcher task aborted: '' @ e"

definition manager_runtime :: "'e manager_ops \<Rightarrow> ('e manager \<Rightarrow> 'e manager) \<Rightarrow> 'e manager runtime_ops" where
  "manager_runtime ops others =
     \<lparr>ro_start = (\<lambda>ctx p m. map_prod (map_err show_manager_error) id (rt_start ops others ctx p m)),
      ro_stop = (\<lambda>i m. map_prod (map_sum show_manager_error (\<lambda>_. ())) id (rt_stop ops i m)),
      ro_restart = (\<lambda>i p m. map_prod (map_err show_manager_error) id (rt_restart ops others i p m)),
      ro_registry = mg_reg, ro_on_registry = on_reg\<rparr>"

definition builtin_gateway :: "'s sem_ops \<Rightarrow> nat \<Rightarrow> 's gateway proxy_ops" where
  "builtin_gateway ops now = \<lparr>po_apply = apply_config ops now, po_stop = gw_stop\<rparr>"

section \<open>State access\<close>

text \<open>A call whose result decides what comes next, and one whose result is dropped
  (\<open>let _ = ..\<close>).\<close>

definition on_store :: "('e, 'a) op \<Rightarrow> ('m, 'g) recon \<Rightarrow> ('e + 'a) \<times> ('m, 'g) recon" where
  "on_store f st = (case f (rc_store st) of (r, s) \<Rightarrow> (r, st\<lparr>rc_store := s\<rparr>))"

definition quietly :: "('e, 'a) op \<Rightarrow> ('m, 'g) recon \<Rightarrow> ('m, 'g) recon" where
  "quietly f st = snd (on_store f st)"

definition on_mgr :: "('m \<Rightarrow> 'r \<times> 'm) \<Rightarrow> ('m, 'g) recon \<Rightarrow> 'r \<times> ('m, 'g) recon" where
  "on_mgr f st = (case f (rc_mgr st) of (r, m) \<Rightarrow> (r, st\<lparr>rc_mgr := m\<rparr>))"

definition on_gw :: "('g \<Rightarrow> 'r \<times> 'g) \<Rightarrow> ('m, 'g) recon \<Rightarrow> 'r \<times> ('m, 'g) recon" where
  "on_gw f st = (case f (rc_gw st) of (r, g) \<Rightarrow> (r, st\<lparr>rc_gw := g\<rparr>))"

definition registry_of :: "('m, 'g) recon_env \<Rightarrow> ('m, 'g) recon \<Rightarrow> registry" where
  "registry_of env st = ro_registry (re_runtime env) (rc_mgr st)"

definition on_registry :: "('m, 'g) recon_env \<Rightarrow> (registry \<Rightarrow> registry) \<Rightarrow> ('m, 'g) recon \<Rightarrow> ('m, 'g) recon" where
  "on_registry env f st = st\<lparr>rc_mgr := ro_on_registry (re_runtime env) f (rc_mgr st)\<rparr>"

definition clock_iso :: "('m, 'g) recon_env \<Rightarrow> ('m, 'g) recon \<Rightarrow> string \<times> ('m, 'g) recon" where
  "clock_iso env st = (re_now env (rc_reads st), st\<lparr>rc_reads := Suc (rc_reads st)\<rparr>)"

section \<open>Failures\<close>

definition backoff_ready :: "('m, 'g) recon_env \<Rightarrow> instance_spec \<Rightarrow> ('m, 'g) recon \<Rightarrow> bool \<times> ('m, 'g) recon" where
  "backoff_ready env sp st =
     (case sp_next_retry sp of
        None \<Rightarrow> (True, st)
      | Some next \<Rightarrow>
          (case re_parse env next of
             None \<Rightarrow> (True, st)
           | Some next_t \<Rightarrow>
               (case clock_iso env st of (stamp, st1) \<Rightarrow>
                  (case re_parse env stamp of
                     None \<Rightarrow> (True, st1)
                   | Some now_t \<Rightarrow> (next_t \<le> now_t, st1)))))"

text \<open>The interval to the next retry, from the interval that is stored: the base the first time,
  afterwards twice the last one, up to the maximum.\<close>

definition stored_gap :: "('m, 'g) recon_env \<Rightarrow> instance_spec \<Rightarrow> nat option" where
  "stored_gap env sp =
     (case (Option.bind (sp_last_failure sp) (re_parse env), Option.bind (sp_next_retry sp) (re_parse env)) of
        (Some l, Some n) \<Rightarrow> if l < n then Some (max (nat \<bar>n - l\<bar>) (re_base env)) else None
      | _ \<Rightarrow> None)"

definition next_gap :: "('m, 'g) recon_env \<Rightarrow> nat option \<Rightarrow> nat" where
  "next_gap env gap =
     (case gap of None \<Rightarrow> re_base env | Some g \<Rightarrow> min (min (g * 2) duration_max) (re_max env))"

definition record_failure :: "('m, 'g) recon_env \<Rightarrow> instance_id \<Rightarrow> ('m, 'g) recon \<Rightarrow> ('m, 'g) recon" where
  "record_failure env i st =
     (case clock_iso env st of (now_iso, st1) \<Rightarrow>
     (case on_store (repo_get i) st1 of (r, st2) \<Rightarrow>
       (let gap = (case r of Inr (Some sp) \<Rightarrow> stored_gap env sp | _ \<Rightarrow> None);
            due = (case re_parse env now_iso of None \<Rightarrow> 0 | Some t \<Rightarrow> t + int (next_gap env gap));
            next_iso = (case re_format env due of None \<Rightarrow> [] | Some x \<Rightarrow> x)
        in quietly (repo_record_backoff i now_iso (Some next_iso)) st2)))"

section \<open>Starting and restarting\<close>

definition acknowledge :: "instance_spec \<Rightarrow> ('m, 'g) recon \<Rightarrow> ('m, 'g) recon" where
  "acknowledge sp st =
     quietly (repo_acknowledge_restart (sp_id sp) (sp_command_gen sp))
       (quietly (repo_clear_restart_pending (sp_id sp))
         (quietly (repo_clear_backoff (sp_id sp)) st))"

definition start_instance :: "('m, 'g) recon_env \<Rightarrow> instance_spec \<Rightarrow> ('m, 'g) recon
    \<Rightarrow> (string + unit) \<times> ('m, 'g) recon" where
  "start_instance env sp st =
     (case context_new (re_data_dir env) (re_runtime_base env) (sp_id sp) of
        Inl e \<Rightarrow> (Inl (show_id_error e), st)
      | Inr ctx \<Rightarrow>
          (case on_mgr (ro_start (re_runtime env) ctx (sp_profile sp)) st of
             (Inr _, st1) \<Rightarrow> (Inr (), acknowledge sp st1)
           | (Inl e, st1) \<Rightarrow> (Inl (''start failed: '' @ e), record_failure env (sp_id sp) st1)))"

definition restart_instance :: "('m, 'g) recon_env \<Rightarrow> instance_spec \<Rightarrow> ('m, 'g) recon
    \<Rightarrow> (string + unit) \<times> ('m, 'g) recon" where
  "restart_instance env sp st =
     (case on_mgr (ro_restart (re_runtime env) (sp_id sp) (sp_profile sp)) st of
        (Inr _, st1) \<Rightarrow> (Inr (), acknowledge sp st1)
      | (Inl e, st1) \<Rightarrow> (Inl (''restart failed: '' @ e), record_failure env (sp_id sp) st1))"

section \<open>One instance\<close>

definition reconcile_instance :: "('m, 'g) recon_env \<Rightarrow> instance_spec \<Rightarrow> ('m, 'g) recon
    \<Rightarrow> (string + unit) \<times> ('m, 'g) recon" where
  "reconcile_instance env sp st =
     (let actual = map_option ir_state (reg_get (registry_of env st) (sp_id sp)) in
      if \<not> should_run sp then
        (case actual of
           None \<Rightarrow> (Inr (), st)
         | Some state \<Rightarrow>
             if state \<in> {Stopped, Stopping, Disabled} then (Inr (), st)
             else on_mgr (ro_stop (re_runtime env) (sp_id sp)) st)
      else
        (case actual of
           None \<Rightarrow> start_instance env sp st
         | Some state \<Rightarrow>
             (case state of
                Stopped \<Rightarrow> start_instance env sp st
              | Failed \<Rightarrow>
                  if sp_observed_gen sp < sp_command_gen sp then restart_instance env sp st
                  else if sp_auto_restart sp then
                    (case backoff_ready env sp st of (ready, st1) \<Rightarrow>
                       if ready then restart_instance env sp st1 else (Inr (), st1))
                  else (Inr (), st)
              | Stopping \<Rightarrow> (Inr (), st)
              | Disabled \<Rightarrow> (Inr (), st)
              | _ \<Rightarrow>
                  if sp_restart_pending sp then restart_instance env sp st
                  else if sp_observed_gen sp < sp_command_gen sp then restart_instance env sp st
                  else (Inr (), st))))"

section \<open>The proxy\<close>

definition proxy_settings_from_config :: "proxy_config \<Rightarrow> proxy_settings" where
  "proxy_settings_from_config c =
     \<lparr>ps_socks5 = pc_socks5 c, ps_http = pc_http c, ps_auth = None, ps_allowlist = pc_allowed_ips c,
      ps_max_connections = pc_max_connections c, ps_max_rps = pc_max_rps c\<rparr>"

definition record_apply_error :: "('m, 'g) recon_env \<Rightarrow> string \<Rightarrow> ('m, 'g) recon \<Rightarrow> ('m, 'g) recon" where
  "record_apply_error env msg st =
     (case clock_iso env st of (stamp, st1) \<Rightarrow> st1\<lparr>rc_apply_error := Some \<lparr>ae_error = msg, ae_at = stamp\<rparr>\<rparr>)"

definition clear_apply_error :: "('m, 'g) recon \<Rightarrow> ('m, 'g) recon" where
  "clear_apply_error st = st\<lparr>rc_apply_error := None\<rparr>"

definition apply_settings :: "('m, 'g) recon_env \<Rightarrow> proxy_settings \<Rightarrow> ('m, 'g) recon \<Rightarrow> ('m, 'g) recon" where
  "apply_settings env settings st =
     (case on_gw (po_apply (re_proxy env) settings) st of
        (Inr _, st1) \<Rightarrow> clear_apply_error st1
      | (Inl e, st1) \<Rightarrow> record_apply_error env (''gateway apply failed: '' @ e) st1)"

definition sync_proxy :: "('m, 'g) recon_env \<Rightarrow> ('m, 'g) recon \<Rightarrow> ('m, 'g) recon" where
  "sync_proxy env st =
     (case on_store proxy_repo_get st of
        (Inl _, st1) \<Rightarrow> st1
      | (Inr cfg, st1) \<Rightarrow>
          (let settings = proxy_settings_from_config cfg in
           if \<not> ps_socks5 settings \<and> \<not> ps_http settings then
             (case on_gw (po_stop (re_proxy env)) st1 of
                (Inr _, st2) \<Rightarrow> clear_apply_error st2
              | (Inl e, st2) \<Rightarrow> record_apply_error env (''gateway stop failed: '' @ e) st2)
           else if pc_auth cfg then
             (case on_store (secret_get_plaintext (re_crypto env) ProxyPassword) st1 of
                (Inr (Some password), st2) \<Rightarrow>
                  apply_settings env (settings\<lparr>ps_auth := Some
                    \<lparr>pa_username = (case pc_username cfg of None \<Rightarrow> [] | Some u \<Rightarrow> u), pa_password = password\<rparr>\<rparr>) st2
              | (Inr None, st2) \<Rightarrow>
                  record_apply_error env
                    ''proxy auth enabled but password missing; keeping last applied config (fail-closed)'' st2
              | (Inl e, st2) \<Rightarrow>
                  record_apply_error env
                    (''failed to read proxy password; keeping last applied config (fail-closed): '' @
                     show_secret_error e) st2)
           else apply_settings env settings st1))"

section \<open>A round and the loop\<close>

definition insert_missing :: "('m, 'g) recon_env \<Rightarrow> instance_spec list \<Rightarrow> ('m, 'g) recon \<Rightarrow> ('m, 'g) recon" where
  "insert_missing env = fold (\<lambda>sp st.
     if reg_get (registry_of env st) (sp_id sp) = None then on_registry env (reg_insert (sp_id sp)) st else st)"

definition reap_orphan :: "('m, 'g) recon_env \<Rightarrow> instance_id list \<Rightarrow> instance_id \<Rightarrow> ('m, 'g) recon \<Rightarrow> ('m, 'g) recon" where
  "reap_orphan env desired_ids i st =
     (if i \<in> set desired_ids then st
      else (case on_mgr (ro_stop (re_runtime env) i) st of
              (Inl _, st1) \<Rightarrow> st1
            | (Inr _, st1) \<Rightarrow> on_registry env (reg_remove i) st1))"

definition reap_orphans :: "('m, 'g) recon_env \<Rightarrow> instance_id list \<Rightarrow> ('m, 'g) recon \<Rightarrow> ('m, 'g) recon" where
  "reap_orphans env desired_ids st =
     fold (\<lambda>(i, _). reap_orphan env desired_ids i) (reg_list (registry_of env st)) st"

definition reconcile_all :: "('m, 'g) recon_env \<Rightarrow> instance_spec list \<Rightarrow> ('m, 'g) recon \<Rightarrow> ('m, 'g) recon" where
  "reconcile_all env = fold (\<lambda>sp st. snd (reconcile_instance env sp st))"

definition reconcile_once :: "('m, 'g) recon_env \<Rightarrow> ('m, 'g) recon \<Rightarrow> ('m, 'g) recon" where
  "reconcile_once env st =
     (case on_store repo_list st of
        (Inl _, st1) \<Rightarrow> st1
      | (Inr desired, st1) \<Rightarrow>
          sync_proxy env
            (reconcile_all env desired
              (reap_orphans env (List.map sp_id desired)
                (insert_missing env desired st1))))"

datatype recon_trigger = IntervalTick | Notified | BusEvent health_event | BusOther | ShutdownChanged bool

definition to_failed :: "health_event \<Rightarrow> bool" where
  "to_failed ev = (case ev of StateChanged t \<Rightarrow> tx_to t = Failed | HealthChanged t \<Rightarrow> tx_to t = Failed
     | ExitIpChanged _ _ _ _ _ \<Rightarrow> False)"

text \<open>The loop over the arms that \<open>select!\<close> takes, each preceded by what the other tasks do
  while the loop waits. \<open>True\<close> when it has left the loop.\<close>

fun recon_run :: "('m, 'g) recon_env \<Rightarrow> ((('m, 'g) recon \<Rightarrow> ('m, 'g) recon) \<times> recon_trigger) list
    \<Rightarrow> ('m, 'g) recon \<Rightarrow> bool \<times> ('m, 'g) recon" where
  "recon_run env [] st = (False, st)"
| "recon_run env ((others, ShutdownChanged down) # arms) st =
     (if down then (True, others st) else recon_run env arms (others st))"
| "recon_run env ((others, BusOther) # arms) st = recon_run env arms (others st)"
| "recon_run env ((others, BusEvent ev) # arms) st =
     recon_run env arms (if to_failed ev then reconcile_once env (others st) else others st)"
| "recon_run env ((others, _) # arms) st = recon_run env arms (reconcile_once env (others st))"

section \<open>What an operation leaves alone\<close>

lemma on_store_frame [simp]:
  "rc_mgr (snd (on_store f st)) = rc_mgr st" "rc_gw (snd (on_store f st)) = rc_gw st"
  "rc_apply_error (snd (on_store f st)) = rc_apply_error st" "rc_reads (snd (on_store f st)) = rc_reads st"
  "rc_store (snd (on_store f st)) = snd (f (rc_store st))" "fst (on_store f st) = fst (f (rc_store st))"
  by (simp_all add: on_store_def case_prod_beta)

lemma on_store_eq:
  "on_store f st = (r, st') \<longleftrightarrow> (\<exists>s. f (rc_store st) = (r, s) \<and> st' = st\<lparr>rc_store := s\<rparr>)"
  by (cases "f (rc_store st)") (auto simp: on_store_def)

lemma quietly_frame [simp]:
  "rc_mgr (quietly f st) = rc_mgr st" "rc_gw (quietly f st) = rc_gw st"
  "rc_apply_error (quietly f st) = rc_apply_error st" "rc_reads (quietly f st) = rc_reads st"
  "rc_store (quietly f st) = snd (f (rc_store st))"
  by (simp_all add: quietly_def)

lemma acknowledge_frame [simp]:
  "rc_mgr (acknowledge sp st) = rc_mgr st" "rc_gw (acknowledge sp st) = rc_gw st"
  "rc_apply_error (acknowledge sp st) = rc_apply_error st"
  by (simp_all add: acknowledge_def)

lemma clock_iso_frame [simp]:
  "rc_mgr (snd (clock_iso env st)) = rc_mgr st" "rc_gw (snd (clock_iso env st)) = rc_gw st"
  "rc_apply_error (snd (clock_iso env st)) = rc_apply_error st" "rc_store (snd (clock_iso env st)) = rc_store st"
  by (simp_all add: clock_iso_def)

lemma record_failure_frame [simp]:
  "rc_mgr (record_failure env i st) = rc_mgr st" "rc_gw (record_failure env i st) = rc_gw st"
  "rc_apply_error (record_failure env i st) = rc_apply_error st"
  by (simp_all add: record_failure_def clock_iso_def case_prod_beta Let_def)

lemma backoff_ready_frame [simp]:
  "rc_mgr (snd (backoff_ready env sp st)) = rc_mgr st" "rc_gw (snd (backoff_ready env sp st)) = rc_gw st"
  "rc_apply_error (snd (backoff_ready env sp st)) = rc_apply_error st"
  "rc_store (snd (backoff_ready env sp st)) = rc_store st"
  by (simp_all add: backoff_ready_def clock_iso_def split: option.splits)

lemma on_mgr_frame [simp]:
  "rc_mgr (snd (on_mgr f st)) = snd (f (rc_mgr st))" "rc_gw (snd (on_mgr f st)) = rc_gw st"
  "rc_apply_error (snd (on_mgr f st)) = rc_apply_error st" "rc_store (snd (on_mgr f st)) = rc_store st"
  "fst (on_mgr f st) = fst (f (rc_mgr st))"
  by (simp_all add: on_mgr_def case_prod_beta)

lemma on_gw_frame [simp]:
  "rc_gw (snd (on_gw f st)) = snd (f (rc_gw st))" "rc_mgr (snd (on_gw f st)) = rc_mgr st"
  "rc_apply_error (snd (on_gw f st)) = rc_apply_error st" "rc_store (snd (on_gw f st)) = rc_store st"
  "fst (on_gw f st) = fst (f (rc_gw st))"
  by (simp_all add: on_gw_def case_prod_beta)

lemma apply_error_frame [simp]:
  "rc_mgr (record_apply_error env msg st) = rc_mgr st" "rc_gw (record_apply_error env msg st) = rc_gw st"
  "rc_store (record_apply_error env msg st) = rc_store st"
  "rc_mgr (clear_apply_error st) = rc_mgr st" "rc_gw (clear_apply_error st) = rc_gw st"
  "rc_store (clear_apply_error st) = rc_store st"
  by (simp_all add: record_apply_error_def clear_apply_error_def case_prod_beta)

lemma apply_error_set [simp]:
  "rc_apply_error (record_apply_error env msg st) = Some \<lparr>ae_error = msg, ae_at = re_now env (rc_reads st)\<rparr>"
  "rc_apply_error (clear_apply_error st) = None"
  by (simp_all add: record_apply_error_def clear_apply_error_def clock_iso_def)

text \<open>Pairs of a result and a state, with the result a sum.\<close>

lemma case_sum_pair: "(case p of (Inr x, s) \<Rightarrow> f x s | (Inl e, s) \<Rightarrow> g e s) = case_sum (\<lambda>e. g e (snd p)) (\<lambda>x. f x (snd p)) (fst p)"
  by (simp add: case_prod_beta split: sum.splits)

lemma start_instance_mgr [simp]:
  "rc_mgr (snd (start_instance env sp st)) =
     (case context_new (re_data_dir env) (re_runtime_base env) (sp_id sp) of
        Inl _ \<Rightarrow> rc_mgr st | Inr ctx \<Rightarrow> snd (ro_start (re_runtime env) ctx (sp_profile sp) (rc_mgr st)))"
  "rc_gw (snd (start_instance env sp st)) = rc_gw st"
  "rc_apply_error (snd (start_instance env sp st)) = rc_apply_error st"
  by (auto simp: start_instance_def case_sum_pair split: sum.splits)

lemma restart_instance_mgr [simp]:
  "rc_mgr (snd (restart_instance env sp st)) = snd (ro_restart (re_runtime env) (sp_id sp) (sp_profile sp) (rc_mgr st))"
  "rc_gw (snd (restart_instance env sp st)) = rc_gw st"
  "rc_apply_error (snd (restart_instance env sp st)) = rc_apply_error st"
  by (auto simp: restart_instance_def case_sum_pair split: sum.splits)

section \<open>The decision table\<close>

text \<open>What the design asks for, by the desired state and the actual one: an instance that should
  not run is stopped unless it is stopped, stopping or disabled; one that should run is started
  when it is absent or stopped, restarted after a failure on command or, with automatic
  restarts, when its waiting time is over, and restarted while it runs when its profile changed
  or on command. Everything else is left alone.\<close>

datatype action = Leave | Start | Stop | Restart

definition commanded :: "instance_spec \<Rightarrow> bool" where
  "commanded sp \<longleftrightarrow> sp_observed_gen sp < sp_command_gen sp"

definition in_flight :: "runtime_state \<Rightarrow> bool" where
  "in_flight s \<longleftrightarrow> is_running s \<and> s \<noteq> Failed \<and> s \<noteq> Stopping"

definition decide :: "instance_spec \<Rightarrow> runtime_state option \<Rightarrow> bool \<Rightarrow> action" where
  "decide sp actual due =
     (if \<not> should_run sp then
        (if (case actual of None \<Rightarrow> False | Some s \<Rightarrow> is_running s \<and> s \<noteq> Stopping) then Stop else Leave)
      else case actual of
             None \<Rightarrow> Start
           | Some s \<Rightarrow>
               if s = Stopped then Start
               else if s = Failed \<and> (commanded sp \<or> sp_auto_restart sp \<and> due) then Restart
               else if in_flight s \<and> (commanded sp \<or> sp_restart_pending sp) then Restart
               else Leave)"

text \<open>The waiting time is over at time \<open>now\<close>, or unreadable.\<close>

definition retry_due :: "('m, 'g) recon_env \<Rightarrow> instance_spec \<Rightarrow> string \<Rightarrow> bool" where
  "retry_due env sp now =
     (case (Option.bind (sp_next_retry sp) (re_parse env), re_parse env now) of
        (Some n, Some t) \<Rightarrow> n \<le> t | _ \<Rightarrow> True)"

lemma backoff_ready_due: "fst (backoff_ready env sp st) = retry_due env sp (re_now env (rc_reads st))"
  by (auto simp: backoff_ready_def retry_due_def clock_iso_def split: option.splits)

definition act :: "('m, 'g) recon_env \<Rightarrow> instance_spec \<Rightarrow> action \<Rightarrow> 'm \<Rightarrow> 'm" where
  "act env sp a m =
     (case a of
        Leave \<Rightarrow> m
      | Start \<Rightarrow> (case context_new (re_data_dir env) (re_runtime_base env) (sp_id sp) of
                   Inl _ \<Rightarrow> m | Inr ctx \<Rightarrow> snd (ro_start (re_runtime env) ctx (sp_profile sp) m))
      | Stop \<Rightarrow> snd (ro_stop (re_runtime env) (sp_id sp) m)
      | Restart \<Rightarrow> snd (ro_restart (re_runtime env) (sp_id sp) (sp_profile sp) m))"

lemma reconcile_instance_mgr:
  "rc_mgr (snd (reconcile_instance env sp st)) =
     act env sp (decide sp (map_option ir_state (reg_get (registry_of env st) (sp_id sp)))
       (retry_due env sp (re_now env (rc_reads st)))) (rc_mgr st)"
proof (cases "reg_get (registry_of env st) (sp_id sp)")
  case (Some e)
  show ?thesis
    by (cases "ir_state e")
       (auto simp: Some reconcile_instance_def Let_def decide_def act_def commanded_def in_flight_def is_running_def
         case_prod_beta backoff_ready_due)
qed (auto simp: reconcile_instance_def decide_def act_def)

lemma reconcile_instance_frame [simp]:
  "rc_gw (snd (reconcile_instance env sp st)) = rc_gw st"
  "rc_apply_error (snd (reconcile_instance env sp st)) = rc_apply_error st"
  by (auto simp: reconcile_instance_def Let_def case_prod_beta split: option.splits runtime_state.splits)

section \<open>The interface of the runtime\<close>

text \<open>\<open>tracked\<close>: every process the runtime holds is known to the registry. \<open>settled D\<close>: moreover
  every instance of \<open>D\<close> has an entry, and an entry outside \<open>D\<close> belongs to processes that could not
  be stopped.\<close>

definition entries :: "'m runtime_ops \<Rightarrow> 'm \<Rightarrow> instance_id set" where
  "entries ops m = dom (reg_get (ro_registry ops m))"

definition tracked :: "'m runtime_ops \<Rightarrow> ('m \<Rightarrow> instance_id set) \<Rightarrow> 'm \<Rightarrow> bool" where
  "tracked ops live m \<longleftrightarrow> live m \<subseteq> entries ops m"

definition settled :: "'m runtime_ops \<Rightarrow> ('m \<Rightarrow> instance_id set) \<Rightarrow> instance_id set \<Rightarrow> 'm \<Rightarrow> bool" where
  "settled ops live D m \<longleftrightarrow> tracked ops live m \<and> D \<subseteq> entries ops m \<and> entries ops m - D \<subseteq> live m"

text \<open>What the reconciler relies on. \<open>live\<close> is the set of instances whose processes the runtime
  holds. An operation touches the entry of its own instance only; a stop that succeeds lets go
  of the processes, one that fails keeps them; no operation but a start or restart adds an entry,
  and none removes one.\<close>

locale warp_runtime =
  fixes ops :: "'m runtime_ops" and live :: "'m \<Rightarrow> instance_id set" and ok :: "'m \<Rightarrow> bool"
  assumes ok_reg_wf: "ok m \<Longrightarrow> reg_wf (ro_registry ops m)"
    and on_registry_ok: "ok m \<Longrightarrow> reg_wf (f (ro_registry ops m)) \<Longrightarrow> ok (ro_on_registry ops f m)"
    and on_registry_law: "ro_registry ops (ro_on_registry ops f m) = f (ro_registry ops m)"
    and on_registry_live: "live (ro_on_registry ops f m) = live m"
    and keeps_ok: "ok m \<Longrightarrow> ok (snd (ro_start ops ctx p m))"
      "ok m \<Longrightarrow> ok (snd (ro_stop ops i m))"
      "ok m \<Longrightarrow> ok (snd (ro_restart ops i p m))"
    and stop_ok: "ok m \<Longrightarrow> ro_stop ops i m = (Inr u, m') \<Longrightarrow> live m' = live m - {i}"
    and stop_err: "ok m \<Longrightarrow> ro_stop ops i m = (Inl e, m') \<Longrightarrow> live m' = live m \<and> i \<in> live m"
    and stop_entries: "ok m \<Longrightarrow> entries ops (snd (ro_stop ops i m)) = entries ops m"
    and start_live: "ok m \<Longrightarrow> live (snd (ro_start ops ctx p m)) \<subseteq> insert (cx_id ctx) (live m)"
      "ok m \<Longrightarrow> live m \<subseteq> insert (cx_id ctx) (live (snd (ro_start ops ctx p m)))"
    and start_entries: "ok m \<Longrightarrow> entries ops m \<subseteq> entries ops (snd (ro_start ops ctx p m))"
      "ok m \<Longrightarrow> entries ops (snd (ro_start ops ctx p m)) \<subseteq> insert (cx_id ctx) (entries ops m)"
    and restart_live: "ok m \<Longrightarrow> live (snd (ro_restart ops i p m)) \<subseteq> insert i (live m)"
      "ok m \<Longrightarrow> live m \<subseteq> insert i (live (snd (ro_restart ops i p m)))"
    and restart_entries: "ok m \<Longrightarrow> entries ops m \<subseteq> entries ops (snd (ro_restart ops i p m))"
      "ok m \<Longrightarrow> entries ops (snd (ro_restart ops i p m)) \<subseteq> insert i (entries ops m)"
begin

lemma settled_step:
  assumes "settled ops live D m" "i \<in> D"
    and "live m' \<subseteq> insert i (live m)" "live m \<subseteq> insert i (live m')"
    and "entries ops m \<subseteq> entries ops m'" "entries ops m' \<subseteq> insert i (entries ops m)"
  shows "settled ops live D m'"
  using assms unfolding settled_def tracked_def by blast

lemma act_ok:
  assumes "re_runtime env = ops" "ok m"
  shows "ok (act env sp a m)"
  using assms by (simp add: act_def keeps_ok split: action.splits sum.splits)

lemma act_settled:
  assumes "re_runtime env = ops" "ok m" "settled ops live D m" "sp_id sp \<in> D"
  shows "settled ops live D (act env sp a m)"
proof (cases a)
  case Leave
  with assms show ?thesis by (simp add: act_def)
next
  case Start
  show ?thesis
  proof (cases "context_new (re_data_dir env) (re_runtime_base env) (sp_id sp)")
    case (Inr ctx)
    then have "cx_id ctx = sp_id sp" by (auto simp: context_new_def split: sum.splits)
    with assms(1) start_live [where ctx = ctx, OF assms(2)] start_entries [where ctx = ctx, OF assms(2)] Inr Start show ?thesis
      by (intro settled_step [OF assms(3,4)]) (simp_all add: act_def)
  qed (use assms Start in \<open>simp add: act_def\<close>)
next
  case Stop
  obtain r m' where r: "ro_stop ops (sp_id sp) m = (r, m')" by fastforce
  have "live m - {sp_id sp} \<subseteq> live m'" "live m' \<subseteq> live m"
    using r by (cases r; auto dest: stop_ok [OF assms(2)] stop_err [OF assms(2)])+
  with assms(1) r Stop stop_entries [OF assms(2), of "sp_id sp"] show ?thesis
    by (intro settled_step [OF assms(3,4)]) (auto simp: act_def)
next
  case Restart
  with assms(1) restart_live [OF assms(2)] restart_entries [OF assms(2)] show ?thesis
    by (intro settled_step [OF assms(3,4)]) (simp_all add: act_def)
qed

lemma insert_missing_tracked:
  assumes "re_runtime env = ops" "ok (rc_mgr st)" "tracked ops live (rc_mgr st)"
  shows "ok (rc_mgr (insert_missing env sps st)) \<and> tracked ops live (rc_mgr (insert_missing env sps st)) \<and>
    entries ops (rc_mgr (insert_missing env sps st)) = entries ops (rc_mgr st) \<union> sp_id ` set sps"
  using assms(2,3)
proof (induction sps arbitrary: st)
  case (Cons sp sps)
  let ?st = "if reg_get (registry_of env st) (sp_id sp) = None then on_registry env (reg_insert (sp_id sp)) st else st"
  have "ok (rc_mgr ?st)"
    using Cons.prems(1) ok_reg_wf [OF Cons.prems(1)] assms(1) by (simp add: on_registry_def on_registry_ok)
  moreover have "tracked ops live (rc_mgr ?st)"
    and "entries ops (rc_mgr ?st) = insert (sp_id sp) (entries ops (rc_mgr st))"
    using Cons.prems(2) assms(1)
    by (auto simp: tracked_def entries_def on_registry_def registry_of_def on_registry_law on_registry_live dom_def)
  ultimately show ?case using Cons.IH [of ?st] by (auto simp: insert_missing_def)
qed (simp add: insert_missing_def)

text \<open>Reaping: an entry goes when its processes have been let go of, and only then.\<close>

lemma reap_orphan_tracked:
  assumes "re_runtime env = ops" "ok (rc_mgr st)" "tracked ops live (rc_mgr st)"
  shows "ok (rc_mgr (reap_orphan env ids i st)) \<and> tracked ops live (rc_mgr (reap_orphan env ids i st)) \<and>
    (i \<in> set ids \<or> i \<notin> entries ops (rc_mgr (reap_orphan env ids i st)) \<or> i \<in> live (rc_mgr (reap_orphan env ids i st))) \<and>
    entries ops (rc_mgr st) - {i} \<subseteq> entries ops (rc_mgr (reap_orphan env ids i st)) \<and>
    entries ops (rc_mgr (reap_orphan env ids i st)) \<subseteq> entries ops (rc_mgr st) \<and>
    live (rc_mgr st) - {i} \<subseteq> live (rc_mgr (reap_orphan env ids i st))"
proof (cases "i \<in> set ids")
  case False
  obtain r m' where r: "ro_stop ops i (rc_mgr st) = (r, m')" by fastforce
  from stop_entries [OF assms(2), of i] keeps_ok(2) [OF assms(2), of i] r
  have e: "entries ops m' = entries ops (rc_mgr st)" "ok m'" by simp_all
  show ?thesis
  proof (cases r)
    case (Inl err)
    from stop_err [OF assms(2), of i err m'] r Inl e assms False show ?thesis
      by (auto simp: reap_orphan_def on_mgr_def tracked_def)
  next
    case (Inr u)
    then have m: "rc_mgr (reap_orphan env ids i st) = ro_on_registry ops (reg_remove i) m'"
      using r assms(1) False by (simp add: reap_orphan_def on_mgr_def on_registry_def)
    have l: "live m' = live (rc_mgr st) - {i}" using stop_ok [OF assms(2)] r Inr by blast
    have w: "reg_wf (ro_registry ops m')" by (rule ok_reg_wf [OF e(2)])
    then have "entries ops (ro_on_registry ops (reg_remove i) m') = entries ops m' - {i}"
      by (auto simp: entries_def on_registry_law split: if_splits)
    with m l e w assms(3) show ?thesis
      by (auto simp: tracked_def on_registry_live intro: on_registry_ok)
  qed
qed (use assms in \<open>auto simp: reap_orphan_def tracked_def\<close>)

lemma reap_list_tracked:
  assumes "re_runtime env = ops" "ok (rc_mgr st)" "tracked ops live (rc_mgr st)" "distinct (List.map fst es)"
  shows "let st' = fold (\<lambda>(i, _). reap_orphan env ids i) es st in
    ok (rc_mgr st') \<and> tracked ops live (rc_mgr st') \<and> entries ops (rc_mgr st') \<subseteq> entries ops (rc_mgr st) \<and>
    entries ops (rc_mgr st) - fst ` set es \<subseteq> entries ops (rc_mgr st') \<and>
    live (rc_mgr st) - fst ` set es \<subseteq> live (rc_mgr st') \<and>
    (\<forall>i \<in> fst ` set es. i \<in> set ids \<and> i \<in> entries ops (rc_mgr st) \<longrightarrow> i \<in> entries ops (rc_mgr st')) \<and>
    (\<forall>i \<in> fst ` set es - set ids. i \<in> entries ops (rc_mgr st') \<longrightarrow> i \<in> live (rc_mgr st'))"
  using assms(2-4)
proof (induction es arbitrary: st)
  case (Cons e es)
  let ?st = "reap_orphan env ids (fst e) st"
  note h = reap_orphan_tracked [OF assms(1) Cons.prems(1,2), of ids "fst e"]
  have keep: "rc_mgr ?st = rc_mgr st" if "fst e \<in> set ids" using that by (simp add: reap_orphan_def)
  note ih = Cons.IH [of ?st, unfolded Let_def]
  from h Cons.prems(3) have t: "ok (rc_mgr ?st)" "tracked ops live (rc_mgr ?st)" "distinct (List.map fst es)" by simp_all
  have f: "fold (\<lambda>(i, _). reap_orphan env ids i) (e # es) st = fold (\<lambda>(i, _). reap_orphan env ids i) es ?st"
    by (simp add: case_prod_beta)
  have e: "fst e \<notin> fst ` set es" using Cons.prems(3) by simp
  show ?case
    unfolding Let_def f using ih [OF t] h keep e by (auto 0 3)
qed (simp add: Let_def)

lemma reap_settled:
  assumes "re_runtime env = ops" "ok (rc_mgr st)" "tracked ops live (rc_mgr st)" "set ids \<subseteq> entries ops (rc_mgr st)"
  shows "ok (rc_mgr (reap_orphans env ids st)) \<and> settled ops live (set ids) (rc_mgr (reap_orphans env ids st))"
proof -
  let ?r = "registry_of env st"
  have wf: "reg_wf ?r" using assms(1) ok_reg_wf [OF assms(2)] by (simp add: registry_of_def)
  have all: "fst ` set (reg_list ?r) = entries ops (rc_mgr st)"
    using reg.lst_get [OF wf] assms(1) by (force simp: entries_def registry_of_def dom_def image_iff)
  have "distinct (List.map fst (reg_list ?r))" by (rule reg.lst_distinct [OF wf])
  from reap_list_tracked [OF assms(1-3) this, of ids] assms(4) show ?thesis
    unfolding reap_orphans_def Let_def all settled_def by blast
qed

lemma reconcile_all_settled:
  assumes "re_runtime env = ops" "ok (rc_mgr st)" "settled ops live D (rc_mgr st)" "sp_id ` set sps \<subseteq> D"
  shows "ok (rc_mgr (reconcile_all env sps st)) \<and> settled ops live D (rc_mgr (reconcile_all env sps st))"
  using assms(2-4)
  by (induction sps arbitrary: st)
     (simp_all add: reconcile_all_def reconcile_instance_mgr act_settled [OF assms(1)] act_ok [OF assms(1)])

lemma sync_proxy_mgr: "rc_mgr (sync_proxy env st) = rc_mgr st"
  by (auto simp: sync_proxy_def apply_settings_def on_store_eq Let_def case_prod_beta split: sum.splits option.splits)

text \<open>A round.\<close>

lemma round_settled:
  assumes "re_runtime env = ops" "ok (rc_mgr st)" "tracked ops live (rc_mgr st)"
    and "repo_list (rc_store st) = (Inr desired, s)"
  shows "ok (rc_mgr (reconcile_once env st)) \<and> settled ops live (sp_id ` set desired) (rc_mgr (reconcile_once env st))"
proof -
  let ?st1 = "insert_missing env desired (st\<lparr>rc_store := s\<rparr>)"
  have 1: "ok (rc_mgr ?st1)" "tracked ops live (rc_mgr ?st1)" "sp_id ` set desired \<subseteq> entries ops (rc_mgr ?st1)"
    using insert_missing_tracked [OF assms(1), of "st\<lparr>rc_store := s\<rparr>" desired] assms(2,3) by simp_all
  note 2 = reap_settled [OF assms(1) 1(1,2), of "List.map sp_id desired"]
  from 1(3) 2 reconcile_all_settled [OF assms(1), of "reap_orphans env (List.map sp_id desired) ?st1" "sp_id ` set desired" desired]
  show ?thesis
    using assms(4) by (simp add: reconcile_once_def on_store_def sync_proxy_mgr)
qed

end

section \<open>The manager meets the interface\<close>

definition mg_live :: "'e manager \<Rightarrow> instance_id set" where
  "mg_live m = dom (map_of (mg_runs m))"

text \<open>Two managers have the same entries, both or neither with distinct keys.\<close>

definition same_entries :: "registry \<Rightarrow> registry \<Rightarrow> bool" where
  "same_entries r r' \<longleftrightarrow> dom (reg_get r') = dom (reg_get r) \<and> (reg_wf r \<longrightarrow> reg_wf r')"

lemma same_entries_refl [simp]: "same_entries r r"
  by (simp add: same_entries_def)

lemma same_entries_trans: "same_entries a b \<Longrightarrow> same_entries b c \<Longrightarrow> same_entries a c"
  by (simp add: same_entries_def)

lemma map_fst_map_entry: "List.map fst (AList.map_entry i f r) = List.map fst r"
  by (induction r) auto

lemma same_entries_update [simp]: "same_entries r (reg_update i f r') \<longleftrightarrow> same_entries r r'"
proof -
  have "dom (reg_get (reg_update i f r')) = dom (reg_get r')" by (auto simp: dom_def)
  moreover have "reg_wf (reg_update i f r') = reg_wf r'" by (simp add: reg_wf_def reg_update_def map_fst_map_entry)
  ultimately show ?thesis by (simp only: same_entries_def)
qed

lemma same_entries_ops [simp]:
  "same_entries r (set_state i s r') = same_entries r r'" "same_entries r (record_error i msg r') = same_entries r r'"
  "same_entries r (on_started i p q r') = same_entries r r'" "same_entries r (on_stopped i r') = same_entries r r'"
  "same_entries r (on_crash ev r') = same_entries r r'"
  by (simp_all add: reg_op_defs)

lemma task_step_frame:
  "mg_runs (task_step ev m) = mg_runs m" "mg_current (task_step ev m) = mg_current m"
  "same_entries (mg_reg m) (mg_reg (task_step ev m))"
  by (cases ev; simp add: watcher_crash_def apply_health_verdict_def Let_def split: option.splits)+

lemma tasks_frame:
  "mg_runs (fold task_step evs m) = mg_runs m \<and> mg_current (fold task_step evs m) = mg_current m \<and>
   same_entries (mg_reg m) (mg_reg (fold task_step evs m))"
  by (induction evs arbitrary: m) (auto simp: task_step_frame intro: same_entries_trans task_step_frame)

lemma verify_entries:
  assumes "verify_data_plane ops (fold task_step evs) ctx n m = (r, m')"
  shows "same_entries (mg_reg m) (mg_reg m') \<and> mg_runs m' = mg_runs m"
  using assms
proof (induction n arbitrary: m)
  case (Suc n)
  obtain q m1 where q: "mcall (call (mo_probe ops (cx_port ctx))) m = (q, m1)" by fastforce
  let ?m2 = "fold task_step evs m1"
  have "same_entries (mg_reg m) (mg_reg ?m2) \<and> mg_runs ?m2 = mg_runs m"
    using tasks_frame [of evs m1] mcall_frameD [OF q] by simp
  with Suc.prems Suc.IH [of "?m2\<lparr>mg_world := sleep verify_backoff (mg_world ?m2)\<rparr>"] Suc.IH [of ?m2]
  show ?case
    by (auto simp: q Let_def split: sum.splits if_splits intro: same_entries_trans)
qed simp

lemma conclude_entries: "same_entries r (mg_reg (conclude_start ops ctx creds v m)) \<longleftrightarrow> same_entries r (mg_reg m)"
  by (simp add: conclude_start_def Let_def split: sum.splits)

lemma do_start_entries:
  assumes "do_start ops (fold task_step evs) ctx p m = (r, m')"
  shows "same_entries (reg_insert (cx_id ctx) (mg_reg m)) (mg_reg m') \<and> mg_runs m' = mg_runs m"
  using assms
proof (cases rule: do_start_cases)
  case (3 m5 m6 svc dbus creds v)
  have "same_entries (reg_insert (cx_id ctx) (mg_reg m)) (mg_reg m5)" by (simp add: 3)
  with verify_entries [OF 3(5)] 3(3,6) show ?thesis
    by (simp add: conclude_entries) (blast intro: same_entries_trans)
qed simp_all

lemma insert_entries:
  "same_entries (reg_insert i r) r' \<Longrightarrow> dom (reg_get r') = insert i (dom (reg_get r)) \<and> (reg_wf r \<longrightarrow> reg_wf r')"
  by (auto simp: same_entries_def dom_def)

lemma take_runs: "map_of (mg_runs (snd (take_running i m))) = (map_of (mg_runs m))(i := None)"
  by (simp add: take_running_def delete_conv')

lemma stop_for_entries:
  assumes "stop_for ops b i m = (r, m')" 
  shows "same_entries (mg_reg m) (mg_reg m')" "mg_live m' \<subseteq> mg_live m" "mg_live m - {i} \<subseteq> mg_live m'"
proof -
  obtain q m1 where t: "take_running i m = (q, m1)" by fastforce
  have m1: "q = map_of (mg_runs m) i" "mg_reg m1 = mg_reg m" "map_of (mg_runs m1) = (map_of (mg_runs m))(i := None)"
    "mg_current m1 = mg_current m"
    using take_running_frame [of i m] take_runs [of i m] t by simp_all
  have "same_entries (mg_reg m) (mg_reg m') \<and> mg_live m' \<subseteq> mg_live m \<and> mg_live m - {i} \<subseteq> mg_live m'"
  proof (cases q)
    case None
    with assms t show ?thesis by (auto simp: stop_for_def split: if_splits)
  next
    case (Some x)
    obtain d x' m2 where d: "do_stop ops (ru_ctx x) x m1 = (d, x', m2)" by (cases "do_stop ops (ru_ctx x) x m1") auto
    show ?thesis
    proof (cases d)
      case (Inl e)
      with do_stop_Inl [of ops "ru_ctx x" x m1 e x' m2] d assms t Some m1 show ?thesis
        by (auto simp: stop_for_def mg_live_def split: if_splits)
    next
      case (Inr oc)
      with do_stop_Inr [of ops "ru_ctx x" x m1 oc x' m2] d assms t Some m1 show ?thesis
        by (auto simp: stop_for_def mg_live_def split: if_splits)
    qed
  qed
  then show "same_entries (mg_reg m) (mg_reg m')" "mg_live m' \<subseteq> mg_live m" "mg_live m - {i} \<subseteq> mg_live m'" by auto
qed

lemma rt_stop_entries:
  assumes "rt_stop ops i m = (r, m')"
  shows "same_entries (mg_reg m) (mg_reg m') \<and>
    (case r of Inl _ \<Rightarrow> mg_live m' = mg_live m \<and> i \<in> mg_live m | Inr _ \<Rightarrow> mg_live m' = mg_live m - {i})"
proof -
  obtain q m1 where t: "take_running i m = (q, m1)" by fastforce
  have m1: "q = map_of (mg_runs m) i" "mg_reg m1 = mg_reg m" "map_of (mg_runs m1) = (map_of (mg_runs m))(i := None)"
    "mg_current m1 = mg_current m"
    using take_running_frame [of i m] take_runs [of i m] t by simp_all
  show ?thesis
  proof (cases q)
    case None
    with assms t m1(1) show ?thesis by (auto simp: rt_stop_def mg_live_def Let_def split: option.splits)
  next
    case (Some x)
    obtain d x' m2 where d: "do_stop ops (ru_ctx x) x m1 = (d, x', m2)" by (cases "do_stop ops (ru_ctx x) x m1") auto
    show ?thesis
    proof (cases d)
      case (Inl e)
      with do_stop_Inl [of ops "ru_ctx x" x m1 e x' m2] d assms t Some m1 show ?thesis
        by (auto simp: rt_stop_def mg_live_def split: if_splits)
    next
      case (Inr oc)
      with do_stop_Inr [of ops "ru_ctx x" x m1 oc x' m2] d assms t Some m1 show ?thesis
        by (auto simp: rt_stop_def mg_live_def split: if_splits)
    qed
  qed
qed

lemma do_start_current:
  assumes "do_start ops (fold task_step evs) ctx p m = (r, m')"
  shows "map_of (mg_current m') = (map_of (mg_current m))(cx_id ctx \<mapsto> fst (next_generation (cx_id ctx) m))"
proof -
  have k: "keeps_tables (fold task_step evs)" by (simp add: keeps_tables_def tasks_frame)
  obtain g m0 where g: "next_generation (cx_id ctx) m = (g, m0)" by fastforce
  with next_generation_frame(3) [of "cx_id ctx" m] have "map_of (mg_current m0) = (map_of (mg_current m))(cx_id ctx \<mapsto> g)" by simp
  moreover have "mg_current m' = mg_current m0"
    using assms g unfolding do_start_def Let_def
    by (auto dest!: mcall_frameD bring_up_frame verify_data_plane_tables [OF k] split: prod.splits sum.splits if_splits)
  ultimately show ?thesis by (simp add: g)
qed

text \<open>The table of running instances belongs to a well-formed registry; an entry has its own id
  and a current generation.\<close>

definition mg_ok :: "'e manager \<Rightarrow> bool" where
  "mg_ok m \<longleftrightarrow> reg_wf (mg_reg m) \<and>
     (\<forall>i r. map_of (mg_runs m) i = Some r \<longrightarrow> cx_id (ru_ctx r) = i \<and> (\<exists>g. map_of (mg_current m) i = Some g))"

lemma do_start_ctx: "do_start ops others ctx p m = (Inr r, m') \<Longrightarrow> ru_ctx r = ctx"
  by (erule do_start_cases) auto

lemma stop_for_ctx:
  assumes "stop_for ops b i m = (r, m')" "mg_ok m"
  shows "mg_ok m'" "r = Inr ctx \<Longrightarrow> cx_id ctx = i"
proof -
  obtain q m1 where t: "take_running i m = (q, m1)" by fastforce
  have m1: "q = map_of (mg_runs m) i" "mg_reg m1 = mg_reg m" "map_of (mg_runs m1) = (map_of (mg_runs m))(i := None)"
    "mg_current m1 = mg_current m"
    using take_running_frame [of i m] take_runs [of i m] t by simp_all
  have wf: "reg_wf (mg_reg m')" using stop_for_entries(1) [OF assms(1)] assms(2) by (simp add: same_entries_def mg_ok_def)
  have "mg_ok m' \<and> (r = Inr ctx \<longrightarrow> cx_id ctx = i)"
  proof (cases q)
    case None
    with assms t show ?thesis
      by (auto simp: stop_for_def context_new_def map_err_def split: if_splits sum.splits)
  next
    case (Some x)
    then have x: "cx_id (ru_ctx x) = i" using m1 assms(2) by (simp add: mg_ok_def)
    obtain d x' m2 where d: "do_stop ops (ru_ctx x) x m1 = (d, x', m2)" by (cases "do_stop ops (ru_ctx x) x m1") auto
    show ?thesis
    proof (cases d)
      case (Inl e)
      with do_stop_Inl [of ops "ru_ctx x" x m1 e x' m2] d assms t Some m1 x wf show ?thesis
        by (auto simp: stop_for_def mg_ok_def split: if_splits)
    next
      case (Inr oc)
      with do_stop_Inr [of ops "ru_ctx x" x m1 oc x' m2] d assms t Some m1 x wf show ?thesis
        by (auto simp: stop_for_def mg_ok_def split: if_splits)
    qed
  qed
  then show "mg_ok m'" "r = Inr ctx \<Longrightarrow> cx_id ctx = i" by auto
qed

text \<open>Effects of a start and of a restart on the tables.\<close>

definition grows :: "instance_id \<Rightarrow> 'e manager \<Rightarrow> 'e manager \<Rightarrow> bool" where
  "grows i m m' \<longleftrightarrow> mg_ok m' \<and>
     dom (reg_get (mg_reg m)) \<subseteq> dom (reg_get (mg_reg m')) \<and> dom (reg_get (mg_reg m')) \<subseteq> insert i (dom (reg_get (mg_reg m))) \<and>
     mg_live m' \<subseteq> insert i (mg_live m) \<and> mg_live m \<subseteq> insert i (mg_live m')"

lemma do_start_grows:
  assumes "do_start ops (fold task_step evs) ctx p m = (r, m')" "mg_ok m"
  shows "grows (cx_id ctx) m m'" "r = Inr x \<Longrightarrow> grows (cx_id ctx) m (put_run (cx_id ctx) x m')"
proof -
  note d = do_start_entries [OF assms(1)]
  then have e: "dom (reg_get (mg_reg m')) = insert (cx_id ctx) (dom (reg_get (mg_reg m)))" "reg_wf (mg_reg m')"
    using insert_entries assms(2) by (auto simp: mg_ok_def)
  note c = do_start_current [OF assms(1)]
  show "grows (cx_id ctx) m m'" using d e assms(2) by (auto simp: grows_def mg_ok_def mg_live_def c)
  show "grows (cx_id ctx) m (put_run (cx_id ctx) x m')" if "r = Inr x"
    using d e assms that by (auto simp: grows_def mg_ok_def mg_live_def c split: if_splits dest: do_start_ctx)
qed

lemma rt_start_grows:
  assumes "mg_ok m"
  shows "grows (cx_id ctx) m (snd (rt_start ops (fold task_step evs) ctx p m))"
proof (cases "map_of (mg_runs m) (cx_id ctx)")
  case None
  obtain r m' where d: "do_start ops (fold task_step evs) ctx p m = (r, m')" by fastforce
  with None do_start_grows [OF d assms] show ?thesis by (cases r) (auto simp: rt_start_def)
qed (use assms in \<open>auto simp: rt_start_def grows_def\<close>)

lemma rt_restart_grows:
  assumes "mg_ok m"
  shows "grows i m (snd (rt_restart ops (fold task_step evs) i p m))"
proof -
  obtain q m1 where s: "stop_for ops True i m = (q, m1)" by fastforce
  note e = stop_for_entries [OF s] and ok = stop_for_ctx [OF s assms]
  have d1: "dom (reg_get (mg_reg m1)) = dom (reg_get (mg_reg m))" using e(1) by (simp add: same_entries_def)
  show ?thesis
  proof (cases q)
    case (Inl err)
    with s ok(1) e d1 show ?thesis by (auto simp: rt_restart_def grows_def)
  next
    case (Inr ctx)
    obtain r m2 where d: "do_start ops (fold task_step evs) ctx p m1 = (r, m2)" by fastforce
    have c: "cx_id ctx = i" using ok(2) Inr by blast
    have "grows i m1 (snd (rt_restart ops (fold task_step evs) i p m))"
      using do_start_grows [OF d ok(1)] c s Inr d by (cases r) (auto simp: rt_restart_def)
    with d1 e(2,3) show ?thesis by (auto simp: grows_def)
  qed
qed

lemma rt_stop_ok:
  assumes "mg_ok m"
  shows "mg_ok (snd (rt_stop ops i m))"
proof -
  obtain q m1 where t: "take_running i m = (q, m1)" by fastforce
  have m1: "q = map_of (mg_runs m) i" "mg_reg m1 = mg_reg m" "map_of (mg_runs m1) = (map_of (mg_runs m))(i := None)"
    "mg_current m1 = mg_current m"
    using take_running_frame [of i m] take_runs [of i m] t by simp_all
  have wf: "reg_wf (mg_reg (snd (rt_stop ops i m)))"
    using rt_stop_entries [of ops i m] assms by (cases "rt_stop ops i m") (simp add: same_entries_def mg_ok_def)
  show ?thesis
  proof (cases q)
    case None
    with wf t assms show ?thesis by (auto simp: rt_stop_def mg_ok_def Let_def split: option.splits)
  next
    case (Some x)
    then have x: "cx_id (ru_ctx x) = i" using m1 assms by (simp add: mg_ok_def)
    obtain d x' m2 where d: "do_stop ops (ru_ctx x) x m1 = (d, x', m2)" by (cases "do_stop ops (ru_ctx x) x m1") auto
    show ?thesis
    proof (cases d)
      case (Inl e)
      with do_stop_Inl [of ops "ru_ctx x" x m1 e x' m2] d assms t Some m1 x wf show ?thesis
        by (auto simp: rt_stop_def mg_ok_def delete_conv' split: if_splits)
    next
      case (Inr oc)
      with do_stop_Inr [of ops "ru_ctx x" x m1 oc x' m2] d assms t Some m1 x wf show ?thesis
        by (auto simp: rt_stop_def mg_ok_def delete_conv' split: if_splits)
    qed
  qed
qed

interpretation mgr: warp_runtime "manager_runtime ops (fold task_step evs)" mg_live mg_ok
proof
  fix m :: "'a manager" and i :: instance_id and ctx :: instance_context and p :: "int option" and f
  let ?o = "manager_runtime ops (fold task_step evs)"
  show "mg_ok m \<Longrightarrow> reg_wf (ro_registry ?o m)" by (simp add: manager_runtime_def mg_ok_def)
  show "mg_ok m \<Longrightarrow> reg_wf (f (ro_registry ?o m)) \<Longrightarrow> mg_ok (ro_on_registry ?o f m)"
    by (simp add: manager_runtime_def mg_ok_def)
  show "ro_registry ?o (ro_on_registry ?o f m) = f (ro_registry ?o m)" "mg_live (ro_on_registry ?o f m) = mg_live m"
    by (simp_all add: manager_runtime_def mg_live_def)
  show "mg_ok m \<Longrightarrow> mg_ok (snd (ro_stop ?o i m))" by (simp add: manager_runtime_def rt_stop_ok)
  show "mg_ok m \<Longrightarrow> ro_stop ?o i m = (Inr u, m') \<Longrightarrow> mg_live m' = mg_live m - {i}" for u m'
    using rt_stop_entries [of ops i m] by (cases "rt_stop ops i m"; cases "fst (rt_stop ops i m)") (auto simp: manager_runtime_def)
  show "mg_ok m \<Longrightarrow> ro_stop ?o i m = (Inl e, m') \<Longrightarrow> mg_live m' = mg_live m \<and> i \<in> mg_live m" for e m'
    using rt_stop_entries [of ops i m] by (cases "rt_stop ops i m"; cases "fst (rt_stop ops i m)") (auto simp: manager_runtime_def)
  show "mg_ok m \<Longrightarrow> entries ?o (snd (ro_stop ?o i m)) = entries ?o m"
    using rt_stop_entries [of ops i m] by (cases "rt_stop ops i m") (simp add: manager_runtime_def entries_def same_entries_def)
qed (simp_all add: manager_runtime_def entries_def rt_start_grows [unfolded grows_def] rt_restart_grows [unfolded grows_def])

section \<open>The proxy follows the stored configuration\<close>

text \<open>The configuration in the database, and the settings that render it: credentials exactly
  when it asks for authentication.\<close>

definition stored_proxy :: "database \<Rightarrow> proxy_config" where
  "stored_proxy d = (case db_proxy d of Some r \<Rightarrow> row_to_proxy_config r | None \<Rightarrow> proxy_default_enabled)"

definition renders :: "proxy_config \<Rightarrow> proxy_settings \<Rightarrow> bool" where
  "renders cfg s \<longleftrightarrow>
     s\<lparr>ps_auth := None\<rparr> = proxy_settings_from_config cfg \<and> (ps_auth s \<noteq> None \<longleftrightarrow> pc_auth cfg) \<and>
     (ps_socks5 s \<or> ps_http s)"

lemma proxy_repo_get_Inr:
  "proxy_repo_get s = (Inr cfg, s') \<Longrightarrow> cfg = stored_proxy (st_db s) \<and> st_db s' = st_db s"
  by (auto simp: proxy_repo_get_def stored_proxy_def andthen_eq_Inr mapping_err_eq_Inr dest!: select_Inr)

lemma apply_settings_gw [simp]:
  "rc_gw (apply_settings env s st) = snd (po_apply (re_proxy env) s (rc_gw st))"
  by (simp add: apply_settings_def case_sum_pair split: sum.splits)

lemma sync_proxy_gw:
  "rc_gw (sync_proxy env st) = rc_gw st \<or> rc_gw (sync_proxy env st) = snd (po_stop (re_proxy env) (rc_gw st)) \<or>
   (\<exists>s. renders (stored_proxy (st_db (rc_store st))) s \<and>
        rc_gw (sync_proxy env st) = snd (po_apply (re_proxy env) s (rc_gw st)))"
proof -
  obtain r s1 where g: "proxy_repo_get (rc_store st) = (r, s1)" by fastforce
  show ?thesis
  proof (cases r)
    case (Inl e)
    with g show ?thesis by (simp add: sync_proxy_def on_store_def)
  next
    case (Inr cfg)
    note cfg = proxy_repo_get_Inr [of "rc_store st" cfg s1]
    show ?thesis
    proof (cases "pc_auth cfg \<and> (pc_socks5 cfg \<or> pc_http cfg)")
      case False
      let ?s = "proxy_settings_from_config cfg"
      from False have "pc_socks5 cfg \<or> pc_http cfg \<Longrightarrow> renders cfg ?s"
        by (auto simp: renders_def proxy_settings_from_config_def)
      moreover have "\<not> (pc_socks5 cfg \<or> pc_http cfg) \<Longrightarrow> rc_gw (sync_proxy env st) = snd (po_stop (re_proxy env) (rc_gw st))"
        using g Inr by (auto simp: sync_proxy_def on_store_def proxy_settings_from_config_def Let_def case_sum_pair split: sum.splits)
      moreover have "pc_socks5 cfg \<or> pc_http cfg \<Longrightarrow> rc_gw (sync_proxy env st) = snd (po_apply (re_proxy env) ?s (rc_gw st))"
        using g Inr False
        by (auto simp: sync_proxy_def on_store_def proxy_settings_from_config_def Let_def split: sum.splits)
      ultimately show ?thesis using cfg g Inr by blast
    next
      case True
      obtain q s2 where q: "secret_get_plaintext (re_crypto env) ProxyPassword s1 = (q, s2)" by fastforce
      let ?s = "\<lambda>pw. (proxy_settings_from_config cfg)\<lparr>ps_auth := Some
        \<lparr>pa_username = (case pc_username cfg of None \<Rightarrow> [] | Some u \<Rightarrow> u), pa_password = pw\<rparr>\<rparr>"
      have "renders cfg (?s pw)" for pw using True by (auto simp: renders_def proxy_settings_from_config_def)
      moreover have "rc_gw (sync_proxy env st) =
          (case q of Inr (Some pw) \<Rightarrow> snd (po_apply (re_proxy env) (?s pw) (rc_gw st)) | _ \<Rightarrow> rc_gw st)"
        using g Inr q True
        by (auto simp: sync_proxy_def on_store_def proxy_settings_from_config_def Let_def
            split: sum.splits option.splits)
      ultimately show ?thesis using cfg g Inr by (auto split: sum.splits option.splits)
    qed
  qed
qed

section \<open>Properties\<close>

text \<open>C5: The reconciler fails closed. When the stored configuration asks for authentication and
  has a listener on, a round either hands the gateway settings with the stored user name and the
  decrypted password, or, when the password is missing or cannot be read, leaves the gateway as
  it is and records an error. It never hands over settings without credentials.\<close>

theorem sync_proxy_fail_closed:
  assumes "proxy_repo_get (rc_store st) = (Inr cfg, s1)" and "pc_auth cfg" and "pc_socks5 cfg \<or> pc_http cfg"
    and "secret_get_plaintext (re_crypto env) ProxyPassword s1 = (q, s2)"
  shows "case q of
      Inr (Some pw) \<Rightarrow> rc_gw (sync_proxy env st) = snd (po_apply (re_proxy env)
        \<lparr>ps_socks5 = pc_socks5 cfg, ps_http = pc_http cfg,
         ps_auth = Some \<lparr>pa_username = (case pc_username cfg of None \<Rightarrow> [] | Some u \<Rightarrow> u), pa_password = pw\<rparr>,
         ps_allowlist = pc_allowed_ips cfg, ps_max_connections = pc_max_connections cfg, ps_max_rps = pc_max_rps cfg\<rparr>
        (rc_gw st))
    | _ \<Rightarrow> rc_gw (sync_proxy env st) = rc_gw st \<and> rc_apply_error (sync_proxy env st) \<noteq> None"
  using assms
  by (auto simp: sync_proxy_def on_store_def proxy_settings_from_config_def Let_def
      split: sum.splits option.splits)

text \<open>C11: For every instance the round does to the runtime exactly what the decision table of the
  design says, given the desired state that was read and the state in the registry; in
  particular an explicit restart command of a failed instance takes precedence over the retry
  policy and over the waiting time.\<close>

theorem reconcile_follows_table:
  "rc_mgr (snd (reconcile_instance env sp st)) =
     act env sp (decide sp (map_option ir_state (reg_get (registry_of env st) (sp_id sp)))
       (retry_due env sp (re_now env (rc_reads st)))) (rc_mgr st)"
  by (rule reconcile_instance_mgr)


text \<open>Instance \<open>i\<close> is waiting to be stopped: its entries in the two tables.\<close>

definition waits :: "instance_id \<Rightarrow> running option \<Rightarrow> instance_runtime \<Rightarrow> 'e manager \<Rightarrow> bool" where
  "waits i r x m \<longleftrightarrow> map_of (mg_runs m) i = r \<and> reg_get (mg_reg m) i = Some x \<and> ir_state x = Stopping"

definition no_crash :: "instance_id \<Rightarrow> task_event list \<Rightarrow> bool" where
  "no_crash i evs \<longleftrightarrow> (\<forall>g ev. Crashed g ev \<in> set evs \<longrightarrow> cr_instance ev \<noteq> i)"

lemma waits_tasks: "no_crash i evs \<Longrightarrow> waits i r x m \<Longrightarrow> waits i r x (fold task_step evs m)"
proof (induction evs arbitrary: m)
  case (Cons e evs)
  have "waits i r x (task_step e m)"
    using Cons.prems
    by (cases e) (auto simp: no_crash_def waits_def watcher_crash_def apply_health_verdict_def on_crash_def probed_def Let_def
      split: option.splits)
  moreover have "no_crash i evs" using Cons.prems(1) by (simp add: no_crash_def)
  ultimately show ?case using Cons.IH by simp
qed simp

lemma waits_verify:
  "no_crash i evs \<Longrightarrow> waits i r x m \<Longrightarrow> verify_data_plane ops (fold task_step evs) ctx n m = (q, m') \<Longrightarrow> waits i r x m'"
proof (induction n arbitrary: m)
  case (Suc n)
  obtain p m1 where p: "mcall (call (mo_probe ops (cx_port ctx))) m = (p, m1)" by fastforce
  let ?m2 = "fold task_step evs m1"
  have "waits i r x m1" using Suc.prems(2) mcall_frameD [OF p] by (simp add: waits_def)
  then have m2: "waits i r x ?m2" by (rule waits_tasks [OF Suc.prems(1)])
  show ?case
  proof (cases "\<exists>rep. p = Inr rep \<and> warp_on rep")
    case True
    with Suc.prems(3) p m2 show ?thesis by auto
  next
    case False
    let ?m3 = "if 0 < n then ?m2\<lparr>mg_world := sleep verify_backoff (mg_world ?m2)\<rparr> else ?m2"
    have "verify_data_plane ops (fold task_step evs) ctx n ?m3 = (q, m')"
      using False Suc.prems(3) p by (cases p) (auto simp: Let_def split: if_splits)
    then show ?thesis by (rule Suc.IH [OF Suc.prems(1), rotated]) (use m2 in \<open>simp add: waits_def\<close>)
  qed
qed simp

lemma waits_do_start:
  assumes "no_crash i evs" "waits i r x m" "cx_id ctx \<noteq> i" "do_start ops (fold task_step evs) ctx p m = (q, m')"
  shows "waits i r x m'"
  using assms(4)
proof (cases rule: do_start_cases)
  case (1 m2 fr)
  with assms(2,3) show ?thesis by (auto simp: waits_def record_error_def)
next
  case (2 m4 msg)
  with assms(2,3) show ?thesis by (auto simp: waits_def record_error_def)
next
  case (3 m5 m6 svc dbus creds v)
  have "waits i r x m5" using 3(2,3) assms(2,3) by (auto simp: waits_def on_started_def)
  from waits_verify [OF assms(1) this 3(5)] 3(6) assms(3) show ?thesis
    by (auto simp: waits_def conclude_start_def Let_def split: sum.splits)
qed

lemma waits_rt_start:
  assumes "no_crash i evs" "waits i r x m" "cx_id ctx \<noteq> i"
  shows "waits i r x (snd (rt_start ops (fold task_step evs) ctx p m))"
proof -
  obtain q m' where d: "do_start ops (fold task_step evs) ctx p m = (q, m')" by fastforce
  from waits_do_start [OF assms d] d assms(2,3) show ?thesis by (auto simp: rt_start_def waits_def split: sum.splits)
qed

text \<open>A stop of another instance.\<close>

lemma stop_other:
  assumes "mg_ok m" "j \<noteq> i" "waits i r x m"
  shows "waits i r x (snd (rt_stop ops j m))" "waits i r x (snd (stop_for ops b j m))"
proof -
  obtain q m1 where t: "take_running j m = (q, m1)" by fastforce
  have m1: "q = map_of (mg_runs m) j" "mg_reg m1 = mg_reg m" "map_of (mg_runs m1) = (map_of (mg_runs m))(j := None)"
    using take_running_frame [of j m] take_runs [of j m] t by simp_all
  have "waits i r x (snd (rt_stop ops j m)) \<and> waits i r x (snd (stop_for ops b j m))"
  proof (cases q)
    case None
    with t m1 assms(2,3) show ?thesis
      by (auto simp: rt_stop_def stop_for_def waits_def on_stopped_def Let_def split: option.splits)
  next
    case (Some y)
    then have y: "cx_id (ru_ctx y) = j" using m1 assms(1) by (simp add: mg_ok_def)
    obtain d y' m2 where d: "do_stop ops (ru_ctx y) y m1 = (d, y', m2)" by (cases "do_stop ops (ru_ctx y) y m1") auto
    show ?thesis
    proof (cases d)
      case (Inl e)
      with do_stop_Inl [of ops "ru_ctx y" y m1 e y' m2] d t Some m1 y assms(2,3) show ?thesis
        by (auto simp: rt_stop_def stop_for_def waits_def)
    next
      case (Inr oc)
      with do_stop_Inr [of ops "ru_ctx y" y m1 oc y' m2] d t Some m1 y assms(2,3) show ?thesis
        by (auto simp: rt_stop_def stop_for_def waits_def on_stopped_def delete_conv')
    qed
  qed
  then show "waits i r x (snd (rt_stop ops j m))" "waits i r x (snd (stop_for ops b j m))" by auto
qed

lemma waits_rt_restart:
  assumes "no_crash i evs" "waits i r x m" "j \<noteq> i" "mg_ok m"
  shows "waits i r x (snd (rt_restart ops (fold task_step evs) j p m))"
proof -
  obtain q m1 where s: "stop_for ops True j m = (q, m1)" by fastforce
  with stop_other(2) [OF assms(4,3,2), of ops True] have m1: "waits i r x m1" by simp
  show ?thesis
  proof (cases q)
    case (Inl e)
    with s m1 show ?thesis by (simp add: rt_restart_def)
  next
    case (Inr ctx)
    then have c: "cx_id ctx \<noteq> i" using stop_for_ctx(2) [OF s assms(4)] assms(3) by blast
    obtain d m2 where d: "do_start ops (fold task_step evs) ctx p m1 = (d, m2)" by fastforce
    from stop_for_ctx(2) [OF s assms(4)] Inr have "cx_id ctx = j" by blast
    with waits_do_start [OF assms(1) m1 c d] d s Inr assms(3) show ?thesis
      by (auto simp: rt_restart_def waits_def split: sum.splits)
  qed
qed

text \<open>A round: the waiting instance is left alone as long as it has a row.\<close>

lemma decide_waits: "decide sp (Some Stopping) due = action.Leave"
  by (simp add: decide_def in_flight_def)

lemma waits_instance:
  assumes "re_runtime env = manager_runtime ops (fold task_step evs)" "no_crash i evs"
    and "mg_ok (rc_mgr st)" "waits i r x (rc_mgr st)"
  shows "waits i r x (rc_mgr (snd (reconcile_instance env sp st)))"
proof (cases "sp_id sp = i")
  case True
  with assms(1,4) show ?thesis
    by (simp add: reconcile_instance_mgr registry_of_def manager_runtime_def waits_def decide_waits act_def)
next
  case False
  have "waits i r x (act env sp a (rc_mgr st))" for a
  proof (cases a)
    case Start
    have "context_new (re_data_dir env) (re_runtime_base env) (sp_id sp) = Inr ctx \<Longrightarrow> cx_id ctx = sp_id sp" for ctx
      by (auto simp: context_new_def split: sum.splits)
    with Start False assms waits_rt_start [OF assms(2,4)] show ?thesis
      by (auto simp: act_def manager_runtime_def split: sum.splits)
  qed (use False assms stop_other(1) waits_rt_restart in \<open>auto simp: act_def manager_runtime_def\<close>)
  then show ?thesis by (simp add: reconcile_instance_mgr)
qed

lemma waits_all:
  assumes "re_runtime env = manager_runtime ops (fold task_step evs)" "no_crash i evs"
  shows "mg_ok (rc_mgr st) \<Longrightarrow> waits i r x (rc_mgr st) \<Longrightarrow> waits i r x (rc_mgr (reconcile_all env sps st))"
proof (induction sps arbitrary: st)
  case (Cons sp sps)
  have "mg_ok (rc_mgr (snd (reconcile_instance env sp st)))"
    using mgr.act_ok [OF assms(1) Cons.prems(1)] by (simp add: reconcile_instance_mgr)
  from Cons.IH [OF this waits_instance [OF assms Cons.prems]] show ?case by (simp add: reconcile_all_def)
qed (simp add: reconcile_all_def)

lemma waits_missing:
  "re_runtime env = manager_runtime ops others \<Longrightarrow> waits i r x (rc_mgr st) \<Longrightarrow>
     waits i r x (rc_mgr (insert_missing env sps st))"
proof (induction sps arbitrary: st)
  case (Cons sp sps)
  let ?st = "if reg_get (registry_of env st) (sp_id sp) = None then on_registry env (reg_insert (sp_id sp)) st else st"
  have "waits i r x (rc_mgr ?st)"
    using Cons.prems by (auto simp: waits_def registry_of_def on_registry_def manager_runtime_def)
  with Cons.IH [of ?st] Cons.prems(1) show ?case by (simp add: insert_missing_def)
qed (simp add: insert_missing_def)

lemma waits_reap_one:
  assumes "re_runtime env = manager_runtime ops (fold task_step evs)" "i \<in> set ids"
    and "mg_ok (rc_mgr st)" "waits i r x (rc_mgr st)"
  shows "mg_ok (rc_mgr (reap_orphan env ids j st)) \<and> waits i r x (rc_mgr (reap_orphan env ids j st))"
proof (cases "j \<in> set ids")
  case True
  with assms show ?thesis by (simp add: reap_orphan_def)
next
  case False
  with assms(2) have j: "j \<noteq> i" by blast
  obtain q m' where q: "rt_stop ops j (rc_mgr st) = (q, m')" by fastforce
  have m': "mg_ok m'" "waits i r x m'"
    using rt_stop_ok [OF assms(3), of ops j] stop_other(1) [OF assms(3) j assms(4), of ops] q by simp_all
  then have "mg_ok (on_reg (reg_remove j) m')" "waits i r x (on_reg (reg_remove j) m')"
    using j by (auto simp: mg_ok_def waits_def)
  with m' q False assms(1) show ?thesis
    by (cases q) (auto simp: reap_orphan_def on_mgr_def on_registry_def manager_runtime_def)
qed

lemma waits_reap:
  assumes "re_runtime env = manager_runtime ops (fold task_step evs)" "i \<in> set ids"
    and "mg_ok (rc_mgr st)" "waits i r x (rc_mgr st)"
  shows "mg_ok (rc_mgr (reap_orphans env ids st)) \<and> waits i r x (rc_mgr (reap_orphans env ids st))"
proof -
  have "mg_ok (rc_mgr (fold (\<lambda>(j, _). reap_orphan env ids j) es st)) \<and>
      waits i r x (rc_mgr (fold (\<lambda>(j, _). reap_orphan env ids j) es st))" for es :: registry
    using assms(3,4)
  proof (induction es arbitrary: st)
    case (Cons e es)
    from waits_reap_one [OF assms(1,2) Cons.prems, of "fst e"] Cons.IH show ?case by (simp add: case_prod_beta)
  qed simp
  then show ?thesis by (simp add: reap_orphans_def)
qed

lemma missing_ok:
  assumes "re_runtime env = manager_runtime ops (fold task_step evs)"
  shows "mg_ok (rc_mgr st) \<Longrightarrow> mg_ok (rc_mgr (insert_missing env sps st))"
proof (induction sps arbitrary: st)
  case (Cons sp sps)
  let ?st = "if reg_get (registry_of env st) (sp_id sp) = None then on_registry env (reg_insert (sp_id sp)) st else st"
  have "mg_ok (rc_mgr ?st)" using Cons.prems assms by (auto simp: on_registry_def manager_runtime_def mg_ok_def)
  from Cons.IH [OF this] show ?case by (simp add: insert_missing_def)
qed (simp add: insert_missing_def)

lemma all_ok:
  assumes "re_runtime env = manager_runtime ops (fold task_step evs)"
  shows "mg_ok (rc_mgr st) \<Longrightarrow> mg_ok (rc_mgr (reconcile_all env sps st))"
  by (induction sps arbitrary: st) (simp_all add: reconcile_all_def reconcile_instance_mgr mgr.act_ok [OF assms])

lemma round_waits:
  assumes "re_runtime env = manager_runtime ops (fold task_step evs)" "no_crash i evs"
    and "mg_ok (rc_mgr st)" "waits i r x (rc_mgr st)"
    and "\<And>desired s. repo_list (rc_store st) = (Inr desired, s) \<Longrightarrow> i \<in> sp_id ` set desired"
  shows "mg_ok (rc_mgr (reconcile_once env st)) \<and> waits i r x (rc_mgr (reconcile_once env st))"
proof -
  obtain q s where l: "repo_list (rc_store st) = (q, s)" by fastforce
  show ?thesis
  proof (cases q)
    case (Inl e)
    with l assms(3,4) show ?thesis by (simp add: reconcile_once_def on_store_def)
  next
    case (Inr desired)
    let ?st1 = "insert_missing env desired (st\<lparr>rc_store := s\<rparr>)"
    have i: "i \<in> set (List.map sp_id desired)" using assms(5) l Inr by simp
    have 1: "mg_ok (rc_mgr ?st1)" "waits i r x (rc_mgr ?st1)"
      using missing_ok [OF assms(1), of "st\<lparr>rc_store := s\<rparr>"] waits_missing [OF assms(1), of i r x "st\<lparr>rc_store := s\<rparr>"] assms(3,4)
      by simp_all
    from waits_reap [OF assms(1) i 1] have
      2: "mg_ok (rc_mgr (reap_orphans env (List.map sp_id desired) ?st1))"
        "waits i r x (rc_mgr (reap_orphans env (List.map sp_id desired) ?st1))" by auto
    from all_ok [OF assms(1) 2(1)] waits_all [OF assms(1,2) 2] l Inr show ?thesis
      by (simp add: reconcile_once_def on_store_def mgr.sync_proxy_mgr)
  qed
qed

text \<open>Rounds, one after the other, each with the tasks that report before it and the database that the
  requests have left by then.\<close>

fun rounds :: "(task_event list \<times> store \<times> ('e manager, 'g) recon_env) list \<Rightarrow> ('e manager, 'g) recon \<Rightarrow> ('e manager, 'g) recon" where
  "rounds [] st = st"
| "rounds ((es, s, env) # rest) st =
     rounds rest (reconcile_once env (st\<lparr>rc_store := s, rc_mgr := fold task_step es (rc_mgr st)\<rparr>))"

text \<open>A round of the code's manager that finds the row of \<open>i\<close>, if it can read the rows at all, and no
  crash of \<open>i\<close> is reported before it or meanwhile.\<close>

definition round_with_row :: "instance_id \<Rightarrow> 'e manager_ops \<Rightarrow> task_event list \<times> store \<times> ('e manager, 'g) recon_env \<Rightarrow> bool" where
  "round_with_row i ops = (\<lambda>(es, s, env). no_crash i es \<and>
     (\<exists>evs. re_runtime env = manager_runtime ops (fold task_step evs) \<and> no_crash i evs) \<and>
     (\<forall>desired s'. repo_list s = (Inr desired, s') \<longrightarrow> i \<in> sp_id ` set desired))"

lemma mg_ok_tasks: "mg_ok m \<Longrightarrow> mg_ok (fold task_step es m)"
  using tasks_frame [of es m] by (simp add: mg_ok_def same_entries_def)

lemma rounds_wait:
  "mg_ok (rc_mgr st) \<Longrightarrow> waits i r x (rc_mgr st) \<Longrightarrow> list_all (round_with_row i ops) rs \<Longrightarrow>
     waits i r x (rc_mgr (rounds rs st))"
proof (induction rs arbitrary: st)
  case (Cons q rs)
  obtain es s env where q: "q = (es, s, env)" by (cases q)
  from Cons.prems(3) q obtain evs where env: "re_runtime env = manager_runtime ops (fold task_step evs)"
    "no_crash i evs" "no_crash i es" and rows: "\<And>desired s'. repo_list s = (Inr desired, s') \<Longrightarrow> i \<in> sp_id ` set desired"
    and rest: "list_all (round_with_row i ops) rs" by (auto simp: round_with_row_def)
  let ?st = "st\<lparr>rc_store := s, rc_mgr := fold task_step es (rc_mgr st)\<rparr>"
  have "mg_ok (rc_mgr (reconcile_once env ?st)) \<and> waits i r x (rc_mgr (reconcile_once env ?st))"
    by (rule round_waits [OF env(1,2)]) (use Cons.prems(1,2) env(3) rows in \<open>simp_all add: mg_ok_tasks waits_tasks\<close>)
  with Cons.IH [OF _ _ rest] q show ?case by simp
qed simp


text \<open>Creating an instance: the row and its number.\<close>

lemma reads_db: "(\<And>I. keeps I m) \<Longrightarrow> m s = (r, s') \<Longrightarrow> st_db s' = st_db s"
  using keepsD [of "\<lambda>d. d = st_db s" m s] by simp

lemma rows_of_upd: "d\<lparr>db_instances := rs\<rparr> = d' \<Longrightarrow> db_instances d' = rs"
  by auto

lemma check_profile_db: "check_profile p s = (Inr u, s') \<Longrightarrow> st_db s' = st_db s"
  by (auto simp: check_profile_def profile_get_def andthen_eq_Inr mapping_err_eq_Inr case_option_op dest!: select_Inr)

lemma load_profiles_db: "load_profiles s = (Inr ps, s') \<Longrightarrow> st_db s' = st_db s"
  by (auto simp: load_profiles_def profile_list_def andthen_eq_Inr mapping_err_eq_Inr dest!: select_Inr)

lemma bindable_db: "ensure_warp_plus_bindable p excl s = (Inr u, s') \<Longrightarrow> st_db s' = st_db s"
  using triple_Inr [OF ensure_bindable [of "\<lambda>d. d = st_db s" p excl]] by blast

lemma create_guarded_effect:
  assumes "repo_create_guarded name p s = (Inr sp, s')"
  shows "\<exists>i. i = next_rowid (List.map wi_id (db_instances (st_db s))) \<and>
    db_instances (st_db s') = db_instances (st_db s) @ [default_instance i name p] \<and>
    row_to_spec (default_instance i name p) = Inr sp"
proof -
  from assms obtain x s0 where t: "tx repo_sql
      (andthen (ensure_warp_plus_bindable p None)
            (\<lambda>_. andthen (insert_row name p)
            (\<lambda>i. andthen (mapping_err repo_sql (select_stmt (\<lambda>d. find_instance d i)))
            (\<lambda>row. ret (bind_res (ok_or (RepoDb ''row vanished after insert'') row) row_to_spec))))) s = (Inr x, s0)"
    and x: "x = Inr sp" "s' = s0"
    by (auto simp: repo_create_guarded_def andthen_eq_Inr)
  from t obtain s1 s2 where
    b: "andthen (ensure_warp_plus_bindable p None)
            (\<lambda>_. andthen (insert_row name p)
            (\<lambda>i. andthen (mapping_err repo_sql (select_stmt (\<lambda>d. find_instance d i)))
            (\<lambda>row. ret (bind_res (ok_or (RepoDb ''row vanished after insert'') row) row_to_spec)))) s1 = (Inr x, s2)"
    and db: "st_db s1 = st_db s" "st_db s0 = st_db s2" by (elim tx_Inr)
  from b obtain u a i c where e: "ensure_warp_plus_bindable p None s1 = (Inr u, a)"
    and r: "insert_row name p a = (Inr i, c)" and s2: "st_db s2 = st_db c"
    and sp: "bind_res (ok_or (RepoDb ''row vanished after insert'') (find_instance (st_db c) i)) row_to_spec = Inr sp"
    by (auto simp: x andthen_eq_Inr mapping_err_eq_Inr dest!: select_Inr)
  let ?i = "next_rowid (List.map wi_id (db_instances (st_db s)))"
  from r bindable_db [OF e] db have i: "i = ?i"
    and rows: "db_instances (st_db c) = db_instances (st_db s) @ [default_instance ?i name p]"
    by (auto simp: insert_row_def mapping_err_eq_Inr insert_instance_def Let_def
        dest!: stmt_Inr rows_of_upd split: if_splits)
  have "find (\<lambda>r. wi_id r = ?i) (db_instances (st_db s)) = None"
    using next_rowid_fresh [of _ "List.map wi_id (db_instances (st_db s))"] by (fastforce simp: find_None_iff)
  then have "find_instance (st_db c) i = Some (default_instance ?i name p)"
    by (simp add: find_instance_def rows i find_append default_instance_def)
  with sp rows db(2) s2 x(2) show ?thesis by (simp add: ok_or_def)
qed

text \<open>C40: An instance number is used again. When the instance with the highest number is deleted
  and another is created before the next round, the new instance gets the same number (SQLite
  gives out the highest row number plus one), the reconciler sees a healthy instance where one
  is desired and does nothing: the processes of the deleted instance, with its registration,
  serve for the new one and its profile, although a deleted instance is to be stopped as an
  orphan.\<close>

theorem reused_id_adopts_process:
  assumes "instances_delete i s = (Inr (), s1)"
    and "i = next_rowid (List.map wi_id (filter (\<lambda>r. wi_id r \<noteq> i) (db_instances (st_db s))))"
    and "instances_create reg (Some q) s1 = (Inr v, s2)"
    and "map_option ir_state (reg_get (registry_of env st) i) = Some Healthy"
  shows "iv_id v = i \<and> (\<exists>row sp. row \<in> set (db_instances (st_db s2)) \<and> row_to_spec row = Inr sp \<and>
    sp_id sp = i \<and> sp_profile sp = cq_profile q \<and> reconcile_instance env sp st = (Inr (), st))"
proof -
  have d: "db_instances (st_db s1) = filter (\<lambda>r. wi_id r \<noteq> i) (db_instances (st_db s))"
    using assms(1)
    by (auto simp: instances_delete_def parse_id_def id_from_db_def ensure_exists_def get_instance_def repo_get_def
        repo_delete_def delete_instances_def notify_change_def andthen_eq_Inr mapping_err_eq_Inr
        dest!: select_Inr stmt_Inr rows_of_upd split: if_splits)
  from assms(3) obtain name a b sp ps c where
    chk: "check_profile (cq_profile q) s1 = (Inr (), a)" and cr: "repo_create_guarded name (cq_profile q) a = (Inr sp, b)"
    and l: "load_profiles (snd (notify_change b :: (api_error + unit) \<times> store)) = (Inr ps, s2)" and v: "v = instance_view_of reg ps sp"
    by (auto simp: instances_create_def json_body_def andthen_eq_Inr mapping_err_eq_Inr notify_change_def)
  from create_guarded_effect [OF cr] check_profile_db [OF chk] d assms(2)
  have rows: "default_instance i name (cq_profile q) \<in> set (db_instances (st_db b))"
    and sp: "row_to_spec (default_instance i name (cq_profile q)) = Inr sp" by auto
  have "st_db s2 = st_db b" using load_profiles_db [OF l] by (simp add: notify_change_def)
  with rows have mem: "default_instance i name (cq_profile q) \<in> set (db_instances (st_db s2))" by simp
  from sp have f: "sp_id sp = i" "sp_profile sp = cq_profile q" "should_run sp" "\<not> sp_restart_pending sp"
    "sp_observed_gen sp = sp_command_gen sp"
    by (auto simp: row_to_spec_def default_instance_def desired_parse_def id_from_db_def should_run_def split: if_splits)
  have "iv_id v = i" using v f(1) by (simp add: instance_view_of_def with_account_def view_from_parts_def Let_def)
  moreover have "reconcile_instance env sp st = (Inr (), st)"
    using f assms(4) by (auto simp: reconcile_instance_def Let_def)
  ultimately show ?thesis using mem sp f by blast
qed

section \<open>Retry intervals\<close>

lemma row_to_spec_ok:
  assumes "db_wf d" "find_instance d i = Some row"
  obtains sp where "row_to_spec row = Inr sp" "sp_id sp = i" "sp_last_failure sp = wi_last_failure row"
    "sp_next_retry sp = wi_next_retry row"
proof -
  from assms(2) have r: "row \<in> set (db_instances d)" "wi_id row = i"
    by (auto simp: find_instance_def find_Some_iff)
  with assms(1) have "0 < i" "desired_valid (wi_desired row)" by (auto simp: db_wf_def list_all_iff)
  with r(2) that show thesis
    by (cases "desired_parse (wi_desired row)")
       (auto simp: row_to_spec_def id_from_db_def desired_valid_def desired_parse_def split: if_splits)
qed

lemma update_id_ok:
  assumes "db_wf (st_db s)" "st_faults s = []" "\<And>r. wi_profile (f r) = wi_profile r"
  shows "\<exists>d'. update_id i f s = (Inr (), s\<lparr>st_db := d'\<rparr>)"
proof -
  let ?rows = "List.map (\<lambda>r. if wi_id r = i then f r else r) (db_instances (st_db s))"
  have "update_instances (\<lambda>r. wi_id r = i) f (st_db s) =
      Inr (length (filter (\<lambda>r. wi_id r = i) (db_instances (st_db s))), st_db s\<lparr>db_instances := ?rows\<rparr>)"
    using assms(1,3) by (auto simp: update_instances_Inr db_wf_def list_all_iff)
  with assms(2) show ?thesis
    by (auto simp: update_id_def update_where_def andthen_def mapping_err_def)
qed

lemma repo_get_ok:
  assumes "db_wf (st_db s)" "st_faults s = []" "find_instance (st_db s) i = Some row" "row_to_spec row = Inr sp"
  shows "repo_get i s = (Inr (Some sp), s)"
  using assms by (simp add: repo_get_def andthen_def mapping_err_def)

lemma record_failure_ok:
  assumes d: "desired_ok (st_db (rc_store st))" and f: "st_faults (rc_store st) = []"
    and row: "find_instance (st_db (rc_store st)) i = Some row" "row_to_spec row = Inr sp"
    and t: "re_parse env (re_now env (rc_reads st)) = Some t"
    and due: "re_format env (t + int (next_gap env (stored_gap env sp))) = Some nxt"
  shows "desired_ok (st_db (rc_store (record_failure env i st)))"
    and "st_faults (rc_store (record_failure env i st)) = []"
    and "rc_reads (record_failure env i st) = Suc (rc_reads st)"
    and "find_instance (st_db (rc_store (record_failure env i st))) i =
      Some (row\<lparr>wi_last_failure := Some (re_now env (rc_reads st)), wi_next_retry := Some nxt\<rparr>)"
proof -
  let ?upd = "repo_record_backoff i (re_now env (rc_reads st)) (Some nxt)"
  have wf: "db_wf (st_db (rc_store st))" using d by (simp add: desired_ok_def)
  have run: "record_failure env i st = quietly ?upd (st\<lparr>rc_reads := Suc (rc_reads st)\<rparr>)"
    using repo_get_ok [OF wf f row] t due by (simp add: record_failure_def clock_iso_def on_store_def)
  obtain d' where u: "?upd (rc_store st) = (Inr (), (rc_store st)\<lparr>st_db := d'\<rparr>)"
    unfolding repo_record_backoff_def using update_id_ok [OF wf f] by fastforce
  show "desired_ok (st_db (rc_store (record_failure env i st)))"
    using keepsD [OF repo_updates_keep(2) d, of i] by (simp add: run)
  show "st_faults (rc_store (record_failure env i st)) = []" "rc_reads (record_failure env i st) = Suc (rc_reads st)"
    using u f by (simp_all add: run)
  from update_id_Inr [OF u [unfolded repo_record_backoff_def], of i] row(1)
  show "find_instance (st_db (rc_store (record_failure env i st))) i =
      Some (row\<lparr>wi_last_failure := Some (re_now env (rc_reads st)), wi_next_retry := Some nxt\<rparr>)"
    by (simp add: run repo_record_backoff_def u [unfolded repo_record_backoff_def])
qed

text \<open>The end of the years that RFC 3339 can write.\<close>

definition rfc3339_end :: int where "rfc3339_end = 253402300800 * 10 ^ 9"

definition clock_good :: "('m, 'g) recon_env \<Rightarrow> (nat \<Rightarrow> int) \<Rightarrow> bool" where
  "clock_good env t \<longleftrightarrow>
     (\<forall>k. re_parse env (re_now env k) = Some (t k) \<and> 0 \<le> t k \<and> t k + int (re_max env) < rfc3339_end) \<and>
     (\<forall>x. 0 \<le> x \<longrightarrow> x < rfc3339_end \<longrightarrow> Option.bind (re_format env x) (re_parse env) = Some x)"

definition interval :: "('m, 'g) recon_env \<Rightarrow> nat \<Rightarrow> nat" where
  "interval env n = min (re_base env * 2 ^ n) (re_max env)"

lemma interval_Suc:
  assumes "0 < re_base env" "re_base env \<le> re_max env" "re_max env \<le> duration_max"
  shows "next_gap env (Some (max (interval env n) (re_base env))) = interval env (Suc n)"
proof -
  have "re_base env \<le> interval env n" using assms by (simp add: interval_def)
  moreover have "min (min (interval env n * 2) duration_max) (re_max env) = interval env (Suc n)"
    using assms by (auto simp: interval_def min_def)
  ultimately show ?thesis by (simp add: next_gap_def max_def)
qed

lemma failure_step:
  assumes base: "0 < re_base env" "re_base env \<le> re_max env" "re_max env \<le> duration_max"
    and good: "clock_good env t"
    and d: "desired_ok (st_db (rc_store st))" and f: "st_faults (rc_store st) = []"
    and row: "find_instance (st_db (rc_store st)) i = Some row" "row_to_spec row = Inr sp"
    and gap: "next_gap env (stored_gap env sp) = interval env n"
  obtains row' sp' where "desired_ok (st_db (rc_store (record_failure env i st)))"
    "st_faults (rc_store (record_failure env i st)) = []" "rc_reads (record_failure env i st) = Suc (rc_reads st)"
    "find_instance (st_db (rc_store (record_failure env i st))) i = Some row'" "row_to_spec row' = Inr sp'"
    "wi_last_failure row' = Some (re_now env (rc_reads st))"
    "Option.bind (wi_next_retry row') (re_parse env) = Some (t (rc_reads st) + int (interval env n))"
    "next_gap env (stored_gap env sp') = interval env (Suc n)"
proof -
  let ?due = "t (rc_reads st) + int (interval env n)"
  have le: "interval env n \<le> re_max env" by (simp add: interval_def)
  have t: "re_parse env (re_now env (rc_reads st)) = Some (t (rc_reads st))" "0 \<le> ?due" "?due < rfc3339_end"
    using good le by (auto simp: clock_good_def dest: spec [of _ "rc_reads st"]
      intro: le_less_trans [of _ "t (rc_reads st) + int (re_max env)"])
  then have "Option.bind (re_format env ?due) (re_parse env) = Some ?due" using good unfolding clock_good_def by blast
  then obtain nxt where n: "re_format env ?due = Some nxt" "re_parse env nxt = Some ?due"
    by (auto simp: bind_eq_Some_conv)
  let ?row = "row\<lparr>wi_last_failure := Some (re_now env (rc_reads st)), wi_next_retry := Some nxt\<rparr>"
  note eff = record_failure_ok [OF d f row t(1), unfolded gap, OF n(1)]
  obtain sp' where sp': "row_to_spec ?row = Inr sp'" "sp_last_failure sp' = wi_last_failure ?row"
    "sp_next_retry sp' = wi_next_retry ?row"
    using row_to_spec_ok [OF _ eff(4)] eff(1) by (auto simp: desired_ok_def)
  have "0 < interval env n" using base by (simp add: interval_def)
  then have "stored_gap env sp' = Some (max (interval env n) (re_base env))"
    using sp'(2,3) t(1) n(2) by (simp add: stored_gap_def)
  then have "next_gap env (stored_gap env sp') = interval env (Suc n)" by (simp add: interval_Suc base)
  with eff n sp'(1) show thesis by (intro that [of ?row sp']) simp_all
qed

lemma failures_intervals:
  assumes base: "0 < re_base env" "re_base env \<le> re_max env" "re_max env \<le> duration_max"
    and good: "clock_good env t"
    and d: "desired_ok (st_db (rc_store st))" "st_faults (rc_store st) = []"
    and row: "find_instance (st_db (rc_store st)) i = Some row" "row_to_spec row = Inr sp" "stored_gap env sp = None"
  shows "\<exists>row' sp'. (let st' = (record_failure env i ^^ Suc n) st in
    desired_ok (st_db (rc_store st')) \<and> st_faults (rc_store st') = [] \<and> rc_reads st' = Suc (rc_reads st + n) \<and>
    find_instance (st_db (rc_store st')) i = Some row' \<and> row_to_spec row' = Inr sp' \<and>
    wi_last_failure row' = Some (re_now env (rc_reads st + n)) \<and>
    Option.bind (wi_next_retry row') (re_parse env) = Some (t (rc_reads st + n) + int (interval env n)) \<and>
    next_gap env (stored_gap env sp') = interval env (Suc n))"
proof (induction n)
  case 0
  have "next_gap env (stored_gap env sp) = interval env 0"
    using row(3) base by (simp add: next_gap_def interval_def)
  then show ?case by (elim failure_step [OF base good d row(1,2)]) (auto simp: Let_def)
next
  case (Suc n)
  let ?st = "(record_failure env i ^^ Suc n) st"
  from Suc obtain row1 sp1 where h: "desired_ok (st_db (rc_store ?st))" "st_faults (rc_store ?st) = []"
    "rc_reads ?st = Suc (rc_reads st + n)" "find_instance (st_db (rc_store ?st)) i = Some row1" "row_to_spec row1 = Inr sp1"
    "next_gap env (stored_gap env sp1) = interval env (Suc n)"
    unfolding Let_def by blast
  have s: "(record_failure env i ^^ Suc (Suc n)) st = record_failure env i ?st" by simp
  obtain row' sp' where "desired_ok (st_db (rc_store (record_failure env i ?st)))"
    "st_faults (rc_store (record_failure env i ?st)) = []" "rc_reads (record_failure env i ?st) = Suc (rc_reads ?st)"
    "find_instance (st_db (rc_store (record_failure env i ?st))) i = Some row'" "row_to_spec row' = Inr sp'"
    "wi_last_failure row' = Some (re_now env (rc_reads ?st))"
    "Option.bind (wi_next_retry row') (re_parse env) = Some (t (rc_reads ?st) + int (interval env (Suc n)))"
    "next_gap env (stored_gap env sp') = interval env (Suc (Suc n))"
    by (rule failure_step [OF base good h(1,2,4,5,6)])
  then show ?case unfolding Let_def s using h(3) by auto
qed

text \<open>C24: Retries back off exponentially with a cap. After the first failure of an instance and
  \<open>n\<close> more in a row, the stored time of the next retry is the time of the last failure plus
  \<open>base * 2^n\<close>, but never more than the maximum; the interval is recovered from the two stored
  time stamps alone. The time stamps are assumed to be read back as they were written.\<close>

theorem backoff_doubles_with_cap:
  assumes "0 < re_base env" and "re_base env \<le> re_max env" and "re_max env \<le> duration_max" and "clock_good env t"
    and "desired_ok (st_db (rc_store st))" and "st_faults (rc_store st) = []"
    and "find_instance (st_db (rc_store st)) i = Some row" and "wi_next_retry row = None"
  shows "\<exists>row'. find_instance (st_db (rc_store ((record_failure env i ^^ Suc n) st))) i = Some row' \<and>
    Option.bind (wi_next_retry row') (re_parse env) =
      Some (t (rc_reads st + n) + int (min (re_base env * 2 ^ n) (re_max env)))"
proof -
  from assms(5,7) obtain sp where sp: "row_to_spec row = Inr sp" "sp_next_retry sp = wi_next_retry row"
    by (auto simp: desired_ok_def elim: row_to_spec_ok)
  with assms(8) have "stored_gap env sp = None" by (simp add: stored_gap_def split: option.splits)
  from failures_intervals [OF assms(1-7) sp(1) this, of n] show ?thesis
    unfolding Let_def interval_def by blast
qed

section \<open>What a round writes\<close>

text \<open>The columns that carry what the user asked for.\<close>

definition command_of :: "instance_row \<Rightarrow> bool \<times> string \<times> int option \<times> int \<times> int \<times> int" where
  "command_of r = (wi_enabled r \<noteq> 0, wi_desired r, wi_profile r, wi_pending r, wi_cmd r, wi_observed r)"

lemma record_failure_commands:
  "map_option command_of (find_instance (st_db (rc_store (record_failure env i st))) j) =
   map_option command_of (find_instance (st_db (rc_store st)) j)"
proof -
  obtain g s1 where g: "repo_get i (rc_store st) = (g, s1)" by fastforce
  have s1: "st_db s1 = st_db (rc_store st)" by (rule reads_db [OF repo_reads_keep(1) g])
  have upd: "map_option command_of (find_instance (st_db (snd (repo_record_backoff i a b s1))) j) =
      map_option command_of (find_instance (st_db s1) j)" for a b
  proof (cases "repo_record_backoff i a b s1")
    case (Pair r s2)
    show ?thesis
    proof (cases r)
      case (Inl e)
      with Pair have "st_db s2 = st_db s1"
        by (auto simp: repo_record_backoff_def update_id_def update_where_def andthen_def mapping_err_def map_err_def
            dest!: stmt_Inl split: prod.splits sum.splits)
      with Pair show ?thesis by simp
    next
      case (Inr u)
      with Pair update_id_Inr [of i "\<lambda>r. r\<lparr>wi_last_failure := Some a, wi_next_retry := b\<rparr>" s1 s2 j]
      show ?thesis by (cases "find_instance (st_db s1) j") (auto simp: repo_record_backoff_def command_of_def)
    qed
  qed
  show ?thesis
    using upd g s1 by (simp add: record_failure_def clock_iso_def on_store_def Let_def)
qed

text \<open>What the user asked for survives a failure. When a start, stop or restart of an instance
  fails in a round, no row loses its desired state, its binding, its restart mark or its restart
  command: the command stays unacknowledged and is carried out by a later round.\<close>

theorem failed_action_keeps_command:
  assumes "reconcile_instance env sp st = (Inl e, st')"
  shows "map_option command_of (find_instance (st_db (rc_store st')) j) =
         map_option command_of (find_instance (st_db (rc_store st)) j)"
proof -
  have start: "map_option command_of (find_instance (st_db (rc_store st')) j) =
      map_option command_of (find_instance (st_db (rc_store st0)) j)"
    if "start_instance env sp st0 = (Inl e, st')" for st0
    using that
    by (auto simp: start_instance_def on_mgr_def record_failure_commands split: sum.splits prod.splits)
  have restart: "map_option command_of (find_instance (st_db (rc_store st')) j) =
      map_option command_of (find_instance (st_db (rc_store st0)) j)"
    if "restart_instance env sp st0 = (Inl e, st')" for st0
    using that
    by (auto simp: restart_instance_def on_mgr_def record_failure_commands split: sum.splits prod.splits)
  have ready: "rc_store st1 = rc_store st" if "backoff_ready env sp st = (b, st1)" for b st1
    using backoff_ready_frame(4) [of env sp st] that by simp
  from assms show ?thesis
    by (auto simp: reconcile_instance_def Let_def on_mgr_def split: if_splits option.splits runtime_state.splits prod.splits
        dest!: start restart ready)
qed

text \<open>The writes of a round keep the invariant of the tables.\<close>

lemma round_ops_keep [inv_intros]:
  "keeps api_ok (repo_record_backoff i a b)" "keeps api_ok (repo_clear_backoff i)"
  "keeps api_ok (repo_clear_restart_pending i)" "keeps api_ok (repo_acknowledge_restart i g)"
  by (intro api_okI db_okI inv_intros;
      simp only: repo_record_backoff_def repo_clear_backoff_def repo_clear_restart_pending_def
        repo_acknowledge_restart_def; intro inv_intros)+

lemma on_store_api_ok:
  "keeps api_ok f \<Longrightarrow> api_ok (st_db (rc_store st)) \<Longrightarrow> api_ok (st_db (rc_store (snd (on_store f st))))"
  "keeps api_ok f \<Longrightarrow> api_ok (st_db (rc_store st)) \<Longrightarrow> api_ok (st_db (rc_store (quietly f st)))"
  by (simp_all add: keepsD)

lemma record_failure_api_ok:
  "api_ok (st_db (rc_store st)) \<Longrightarrow> api_ok (st_db (rc_store (record_failure env i st)))"
  by (simp add: record_failure_def clock_iso_def case_prod_beta Let_def keepsD round_ops_keep repo_reads_keep)

lemma acknowledge_api_ok: "api_ok (st_db (rc_store st)) \<Longrightarrow> api_ok (st_db (rc_store (acknowledge sp st)))"
  by (simp add: acknowledge_def keepsD round_ops_keep)

lemma reconcile_instance_api_ok:
  assumes "api_ok (st_db (rc_store st))"
  shows "api_ok (st_db (rc_store (snd (reconcile_instance env sp st))))"
proof -
  have s: "api_ok (st_db (rc_store (snd (start_instance env sp st))))"
    using assms by (auto simp: start_instance_def case_sum_pair record_failure_api_ok acknowledge_api_ok split: sum.splits)
  have r: "api_ok (st_db (rc_store (snd (restart_instance env sp st1))))" if "rc_store st1 = rc_store st" for st1
    using assms that by (auto simp: restart_instance_def case_sum_pair record_failure_api_ok acknowledge_api_ok split: sum.splits)
  show ?thesis
    using assms s r [of st] r [of "snd (backoff_ready env sp st)"]
    by (auto simp: reconcile_instance_def Let_def case_prod_beta split: option.splits runtime_state.splits)
qed

lemma plaintext_keeps: "keeps I (plaintext_at cy k p)"
  unfolding plaintext_at_def by (intro inv_intros) (auto split: option.splits intro!: inv_intros)

lemma sync_proxy_db: "st_db (rc_store (sync_proxy env st)) = st_db (rc_store st)"
proof -
  obtain r s1 where g: "proxy_repo_get (rc_store st) = (r, s1)" by fastforce
  have s1: "st_db s1 = st_db (rc_store st)" by (rule reads_db [OF repo_reads_keep(4) g])
  obtain q s2 where q: "secret_get_plaintext (re_crypto env) ProxyPassword s1 = (q, s2)" by fastforce
  have s2: "st_db s2 = st_db s1" using reads_db [OF plaintext_keeps] q by (simp add: secret_get_plaintext_def)
  have a: "rc_store (apply_settings env x st1) = rc_store st1" for x st1
    by (simp add: apply_settings_def case_sum_pair split: sum.splits)
  show ?thesis
    using g s1 q s2 a
    by (auto simp: sync_proxy_def on_store_def Let_def case_sum_pair split: sum.splits option.splits)
qed

lemma insert_missing_frame [simp]:
  "rc_store (insert_missing env sps st) = rc_store st" "rc_gw (insert_missing env sps st) = rc_gw st"
  by (induction sps arbitrary: st) (simp_all add: insert_missing_def on_registry_def)

lemma reap_orphans_frame [simp]:
  "rc_store (reap_orphans env ids st) = rc_store st" "rc_gw (reap_orphans env ids st) = rc_gw st"
proof -
  have one: "rc_store (reap_orphan env ids i st) = rc_store st" "rc_gw (reap_orphan env ids i st) = rc_gw st" for i st
    by (auto simp: reap_orphan_def on_mgr_def on_registry_def split: sum.splits prod.splits)
  have "rc_store (fold (\<lambda>(i, _). reap_orphan env ids i) es st) = rc_store st \<and>
        rc_gw (fold (\<lambda>(i, _). reap_orphan env ids i) es st) = rc_gw st" for es :: "(instance_id \<times> instance_runtime) list"
    by (induction es arbitrary: st) (simp_all add: one case_prod_beta)
  then show "rc_store (reap_orphans env ids st) = rc_store st" "rc_gw (reap_orphans env ids st) = rc_gw st"
    by (simp_all add: reap_orphans_def)
qed

lemma reconcile_all_frame:
  "rc_gw (reconcile_all env sps st) = rc_gw st"
  "api_ok (st_db (rc_store st)) \<Longrightarrow> api_ok (st_db (rc_store (reconcile_all env sps st)))"
  by (induction sps arbitrary: st) (simp_all add: reconcile_all_def reconcile_instance_api_ok)

text \<open>No action of a round touches the proxy row.\<close>

lemma round_ops_proxy:
  "keeps (\<lambda>d. db_proxy d = px) (update_id i f)"
  unfolding update_id_def update_where_def by (intro inv_intros) (auto simp: update_instances_Inr)

lemmas round_op_defs = repo_record_backoff_def repo_clear_backoff_def repo_clear_restart_pending_def repo_acknowledge_restart_def

lemma quietly_proxy: "db_proxy (st_db (rc_store (quietly (update_id i f) st))) = db_proxy (st_db (rc_store st))"
  using keepsD [OF round_ops_proxy [of "db_proxy (st_db (rc_store st))"], of "rc_store st"] by simp

lemma record_failure_proxy: "db_proxy (st_db (rc_store (record_failure env i st))) = db_proxy (st_db (rc_store st))"
proof -
  obtain g s1 where g: "repo_get i (rc_store st) = (g, s1)" by fastforce
  with reads_db [OF repo_reads_keep(1) g] show ?thesis
    by (simp add: record_failure_def clock_iso_def on_store_def Let_def round_op_defs quietly_proxy del: quietly_frame(5))
qed

lemma acknowledge_proxy: "db_proxy (st_db (rc_store (acknowledge sp st))) = db_proxy (st_db (rc_store st))"
  by (simp add: acknowledge_def round_op_defs quietly_proxy del: quietly_frame(5))

lemma reconcile_instance_proxy:
  "db_proxy (st_db (rc_store (snd (reconcile_instance env sp st)))) = db_proxy (st_db (rc_store st))"
proof -
  have s: "db_proxy (st_db (rc_store (snd (start_instance env sp st)))) = db_proxy (st_db (rc_store st))"
    by (auto simp: start_instance_def case_sum_pair record_failure_proxy acknowledge_proxy split: sum.splits)
  have r: "db_proxy (st_db (rc_store (snd (restart_instance env sp st1)))) = db_proxy (st_db (rc_store st1))" for st1
    by (auto simp: restart_instance_def case_sum_pair record_failure_proxy acknowledge_proxy split: sum.splits)
  show ?thesis
    by (auto simp: reconcile_instance_def Let_def case_prod_beta s r split: option.splits runtime_state.splits)
qed

lemma reconcile_all_proxy:
  "db_proxy (st_db (rc_store (reconcile_all env sps st))) = db_proxy (st_db (rc_store st))"
  by (induction sps arbitrary: st) (simp_all add: reconcile_all_def reconcile_instance_proxy)

lemma reconcile_once_store:
  "api_ok (st_db (rc_store st)) \<Longrightarrow> api_ok (st_db (rc_store (reconcile_once env st)))"
  "db_proxy (st_db (rc_store (reconcile_once env st))) = db_proxy (st_db (rc_store st))"
proof -
  obtain r s1 where l: "repo_list (rc_store st) = (r, s1)" by fastforce
  have s1: "st_db s1 = st_db (rc_store st)" by (rule reads_db [OF repo_reads_keep(2) l])
  show "api_ok (st_db (rc_store (reconcile_once env st)))" if "api_ok (st_db (rc_store st))"
    using that l s1 by (cases r) (simp_all add: reconcile_once_def on_store_def sync_proxy_db reconcile_all_frame)
  show "db_proxy (st_db (rc_store (reconcile_once env st))) = db_proxy (st_db (rc_store st))"
    using l s1 by (cases r) (simp_all add: reconcile_once_def on_store_def sync_proxy_db reconcile_all_proxy)
qed

text \<open>What a round does to the gateway: nothing, a stop, or an application of settings that render
  the stored configuration.\<close>

lemma reconcile_once_gw:
  "rc_gw (reconcile_once env st) = rc_gw st \<or> rc_gw (reconcile_once env st) = snd (po_stop (re_proxy env) (rc_gw st)) \<or>
   (\<exists>s. renders (stored_proxy (st_db (rc_store st))) s \<and>
        rc_gw (reconcile_once env st) = snd (po_apply (re_proxy env) s (rc_gw st)))"
proof -
  obtain r s1 where l: "repo_list (rc_store st) = (r, s1)" by fastforce
  have s1: "st_db s1 = st_db (rc_store st)" by (rule reads_db [OF repo_reads_keep(2) l])
  show ?thesis
  proof (cases r)
    case (Inr desired)
    let ?st = "reconcile_all env desired (reap_orphans env (List.map sp_id desired) (insert_missing env desired (st\<lparr>rc_store := s1\<rparr>)))"
    have "stored_proxy (st_db (rc_store ?st)) = stored_proxy (st_db (rc_store st))"
      by (simp add: stored_proxy_def reconcile_all_proxy s1)
    with sync_proxy_gw [of env ?st] show ?thesis
      using l Inr by (simp add: reconcile_once_def on_store_def reconcile_all_frame)
  qed (use l in \<open>simp add: reconcile_once_def on_store_def\<close>)
qed

section \<open>A concrete round\<close>

definition demo_round :: "join_result \<Rightarrow> (unit manager, nat gateway) recon_env" where
  "demo_round j = \<lparr>re_runtime = manager_runtime (demo_ops j) (fold task_step []), re_proxy = builtin_gateway nat_semaphore 0,
     re_crypto = demo_crypto, re_now = (\<lambda>k. replicate (min k 100) CHR ''i''), re_parse = (\<lambda>s. Some (int (length s))),
     re_format = (\<lambda>x. Some (replicate (nat x) CHR ''i'')), re_base = 5, re_max = 300,
     re_data_dir = ''/d'', re_runtime_base = ''/r''\<rparr>"

definition demo_recon :: "database \<Rightarrow> unit manager \<Rightarrow> (unit manager, nat gateway) recon" where
  "demo_recon d m = \<lparr>rc_store = demo_store d, rc_mgr = m, rc_gw = gateway_new, rc_apply_error = None, rc_reads = 0\<rparr>"

definition demo_one :: database where
  "demo_one = db_migrated\<lparr>db_instances := [default_instance 1 ''one'' None]\<rparr>"

lemma demo_one_ok: "desired_ok demo_one"
  by (simp add: desired_ok_def db_wf_def warp_plus_single_def demo_one_def db_migrated_def default_instance_def
      desired_valid_def profile_exists_def)

lemma demo_up_ok: "mg_ok demo_up" "mg_live demo_up \<subseteq> dom (reg_get (mg_reg demo_up))"
  by (auto simp: mg_ok_def reg_wf_def mg_live_def demo_up_def demo_manager_def demo_running_def demo_ctx_def reg_get_def
      split: if_splits)

theorem sync_proxy_fail_closed_witness:
  "let st = demo_recon (db_migrated\<lparr>db_proxy := Some (proxy_config_row demo_proxy)\<rparr>) demo_manager
   in rc_gw (sync_proxy (demo_round (Joined None)) st) = gateway_new \<and>
      rc_apply_error (sync_proxy (demo_round (Joined None)) st) \<noteq> None"
proof -
  let ?st = "demo_recon (db_migrated\<lparr>db_proxy := Some (proxy_config_row demo_proxy)\<rparr>) demo_manager"
  have g: "proxy_repo_get (rc_store ?st) = (Inr (row_to_proxy_config (proxy_config_row demo_proxy)), rc_store ?st)"
    by (simp add: proxy_repo_get_def andthen_def mapping_err_def demo_recon_def demo_store_def)
  have c: "row_to_proxy_config (proxy_config_row demo_proxy) = demo_proxy"
    by (rule proxy_row_roundtrip [OF demo_proxy_storable])
  have q: "secret_get_plaintext (re_crypto (demo_round (Joined None))) ProxyPassword (rc_store ?st) = (Inr None, rc_store ?st)"
    by (simp add: secret_get_plaintext_def plaintext_at_def andthen_def mapping_err_def demo_recon_def demo_store_def db_migrated_def)
  have "pc_auth demo_proxy" "pc_socks5 demo_proxy \<or> pc_http demo_proxy" by (simp_all add: demo_proxy_def)
  from sync_proxy_fail_closed [OF g [unfolded c] this q] show ?thesis by (simp add: Let_def demo_recon_def)
qed



theorem backoff_doubles_with_cap_witness:
  "\<exists>row'. find_instance (st_db (rc_store ((record_failure (demo_round (Joined None)) 1 ^^ Suc 2) (demo_recon demo_one demo_manager)))) 1
      = Some row' \<and> Option.bind (wi_next_retry row') (re_parse (demo_round (Joined None))) = Some 22"
proof -
  let ?env = "demo_round (Joined None)" and ?st = "demo_recon demo_one demo_manager"
  have "clock_good ?env (\<lambda>k. int (min k 100))"
    by (auto simp: clock_good_def demo_round_def rfc3339_end_def)
  moreover have "desired_ok (st_db (rc_store ?st))" using demo_one_ok by (simp add: demo_recon_def demo_store_def)
  moreover have "find_instance (st_db (rc_store ?st)) 1 = Some (default_instance 1 ''one'' None)"
    by (simp add: demo_recon_def demo_store_def demo_one_def find_instance_def default_instance_def)
  ultimately show ?thesis
    using backoff_doubles_with_cap [of ?env "\<lambda>k. int (min k 100)" ?st 1 "default_instance 1 ''one'' None" 2]
    by (simp add: demo_round_def demo_recon_def demo_store_def default_instance_def duration_max_def)
qed

definition demo_stopped :: instance_spec where
  "demo_stopped = \<lparr>sp_id = 1, sp_name = ''one'', sp_enabled = True, sp_desired = DesiredStopped, sp_auto_restart = True,
     sp_profile = None, sp_restart_pending = False, sp_command_gen = 0, sp_observed_gen = 0,
     sp_last_failure = None, sp_next_retry = None\<rparr>"

theorem failed_action_keeps_command_witness:
  "\<exists>e st'. reconcile_instance (demo_round (JoinFailed ''panic'')) demo_stopped (demo_recon demo_one demo_up) = (Inl e, st') \<and>
     map_option command_of (find_instance (st_db (rc_store st')) 1) = Some (command_of (default_instance 1 ''one'' None))"
proof -
  obtain e m1 where f: "rt_stop (demo_ops (JoinFailed ''panic'')) 1 demo_up = (Inl e, m1)"
    by (simp add: rt_stop_def take_running_def demo_up_def do_stop_def demo_running_def Let_def mcall_def call_def
        demo_ops_def demo_manager_def)
  have h: "map_option ir_state (reg_get (registry_of (demo_round (JoinFailed ''panic'')) (demo_recon demo_one demo_up)) 1) = Some Healthy"
    by (simp add: registry_of_def demo_round_def manager_runtime_def demo_recon_def demo_up_def reg_get_def)
  have "\<not> should_run demo_stopped" "sp_id demo_stopped = 1" by (simp_all add: should_run_def demo_stopped_def)
  with h have "reconcile_instance (demo_round (JoinFailed ''panic'')) demo_stopped (demo_recon demo_one demo_up) =
      on_mgr (ro_stop (re_runtime (demo_round (JoinFailed ''panic''))) 1) (demo_recon demo_one demo_up)"
    unfolding reconcile_instance_def Let_def by auto
  moreover obtain st' e' where "on_mgr (ro_stop (re_runtime (demo_round (JoinFailed ''panic''))) 1) (demo_recon demo_one demo_up) = (Inl e', st')"
    using f by (simp add: on_mgr_def manager_runtime_def demo_round_def demo_recon_def)
  ultimately have r: "reconcile_instance (demo_round (JoinFailed ''panic'')) demo_stopped (demo_recon demo_one demo_up) = (Inl e', st')"
    by simp
  from failed_action_keeps_command [OF r, of 1] r show ?thesis
    by (auto simp: demo_recon_def demo_store_def demo_one_def find_instance_def default_instance_def)
qed

theorem reused_id_adopts_process_witness:
  "\<exists>s1 v s2. instances_delete 1 (demo_store demo_one) = (Inr (), s1) \<and>
     instances_create [] (Some \<lparr>cq_name = ''two'', cq_profile = None\<rparr>) s1 = (Inr v, s2) \<and> iv_id v = 1"
proof -
  have "case instances_delete 1 (demo_store demo_one) of
      (Inr _, s1) \<Rightarrow> (case instances_create [] (Some \<lparr>cq_name = ''two'', cq_profile = None\<rparr>) s1 of
         (Inr v, s2) \<Rightarrow> True | _ \<Rightarrow> False)
    | _ \<Rightarrow> False"
    by code_simp
  then obtain s1 v s2 where d: "instances_delete 1 (demo_store demo_one) = (Inr (), s1)"
    and c: "instances_create [] (Some \<lparr>cq_name = ''two'', cq_profile = None\<rparr>) s1 = (Inr v, s2)"
    by (elim case_stepD [THEN exE] exE conjE) (auto dest!: case_stepD)
  have i: "1 = next_rowid (List.map wi_id (filter (\<lambda>r. wi_id r \<noteq> 1) (db_instances (st_db (demo_store demo_one)))))"
    by (simp add: demo_store_def demo_one_def default_instance_def next_rowid_def)
  have h: "map_option ir_state (reg_get (registry_of (demo_round (Joined None)) (demo_recon demo_one demo_up)) 1) = Some Healthy"
    by (simp add: registry_of_def demo_round_def manager_runtime_def demo_recon_def demo_up_def reg_get_def)
  from reused_id_adopts_process [OF d i c h] d c show ?thesis by blast
qed

end
