(* ===== verification/Status.thy ===== *)
theory Status
  imports Reconciler WebUi Logs
begin

text \<open>
  What the server tells about itself: the counts of the instances by state and the system status
  (\<open>src/api/system.rs\<close>, the views of \<open>src/api/dto.rs\<close>), and the frames of the event stream
  (\<open>src/api/events.rs\<close>). A receiver of tokio's broadcast channel is given by what its successive
  \<open>recv\<close> calls return: an item, a gap, or the end of the channel. Time stamps are arguments. The
  members of a JSON object stand in the order in which the code writes them.
\<close>

section \<open>Counts\<close>

record instance_counts =
  ic_total :: nat
  ic_running :: nat
  ic_healthy :: nat
  ic_degraded :: nat
  ic_failed :: nat
  ic_stopped :: nat

definition no_counts :: instance_counts where
  "no_counts = \<lparr>ic_total = 0, ic_running = 0, ic_healthy = 0, ic_degraded = 0, ic_failed = 0, ic_stopped = 0\<rparr>"

definition count_instance :: "instance_counts \<Rightarrow> instance_id \<times> instance_runtime \<Rightarrow> instance_counts" where
  "count_instance c = (\<lambda>(i, r).
     (let c1 = c\<lparr>ic_total := ic_total c + 1\<rparr> in
      case ir_state r of
        Healthy \<Rightarrow> c1\<lparr>ic_healthy := ic_healthy c1 + 1, ic_running := ic_running c1 + 1\<rparr>
      | Degraded \<Rightarrow> c1\<lparr>ic_degraded := ic_degraded c1 + 1, ic_running := ic_running c1 + 1\<rparr>
      | Failed \<Rightarrow> c1\<lparr>ic_failed := ic_failed c1 + 1\<rparr>
      | Stopped \<Rightarrow> c1\<lparr>ic_stopped := ic_stopped c1 + 1\<rparr>
      | Disabled \<Rightarrow> c1\<lparr>ic_stopped := ic_stopped c1 + 1\<rparr>
      | _ \<Rightarrow> c1\<lparr>ic_running := ic_running c1 + 1\<rparr>))"

definition counts_from_runtime :: "(instance_id \<times> instance_runtime) list \<Rightarrow> instance_counts" where
  "counts_from_runtime snapshots = foldl count_instance no_counts snapshots"

section \<open>System status\<close>

record last_apply_error_view =
  le_error :: string
  le_at :: string

definition from_slot :: "apply_error option \<Rightarrow> last_apply_error_view option" where
  "from_slot slot = map_option (\<lambda>e. \<lparr>le_error = ae_error e, le_at = ae_at e\<rparr>) slot"

record system_components =
  sc_gost :: string
  sc_gost_reason :: "string option"
  sc_secret_store :: string

record system_status_view =
  sv_status :: string
  sv_version :: string
  sv_uptime :: nat
  sv_instances :: instance_counts
  sv_components :: system_components
  sv_last_apply_error :: "last_apply_error_view option"

text \<open>The handler reads the registry, asks the gateway for its status \<open>st\<close>, probes the secret store
  and looks at the slot of the last failed apply. It cannot fail.\<close>

definition system_status :: "string \<Rightarrow> nat \<Rightarrow> registry \<Rightarrow> proxy_status option \<Rightarrow> apply_error option
    \<Rightarrow> store \<Rightarrow> system_status_view \<times> store" where
  "system_status version uptime reg st slot s =
     (let counts = counts_from_runtime (reg_list reg);
          gost = (case st of
                    Some x \<Rightarrow> actual_of_status x
                  | None \<Rightarrow> \<lparr>xa_status = ''unknown'', xa_pid = None, xa_exit_code = None, xa_reason = None\<rparr>)
      in case secret_exists ProxyPassword s of (r, s1) \<Rightarrow>
        (let secret_store = (case r of Inr _ \<Rightarrow> ''ok'' | Inl _ \<Rightarrow> ''unavailable'');
             has_problem = xa_status gost \<in> {''failed'', ''degraded''} \<or> secret_store \<noteq> ''ok'' \<or> slot \<noteq> None
         in (\<lparr>sv_status = (if has_problem then ''degraded'' else ''ok''), sv_version = version,
               sv_uptime = uptime, sv_instances = counts,
               sv_components = \<lparr>sc_gost = xa_status gost, sc_gost_reason = xa_reason gost, sc_secret_store = secret_store\<rparr>,
               sv_last_apply_error = from_slot slot\<rparr>, s1)))"

section \<open>Event frames\<close>

definition event_version :: nat where "event_version = 1"

definition jopt :: "string option \<Rightarrow> json" where
  "jopt x = (case x of None \<Rightarrow> JNull | Some s \<Rightarrow> JString s)"

definition envelope :: "string \<Rightarrow> string \<Rightarrow> string \<Rightarrow> json \<Rightarrow> json" where
  "envelope stamp event_type resource_id data =
     JObject [(''type'', JString event_type), (''version'', JNumber (show_nat event_version)),
       (''timestamp'', JString stamp), (''resource_id'', JString resource_id), (''data'', data)]"

definition transition_data :: "state_transition \<Rightarrow> json" where
  "transition_data t =
     JObject [(''instance_id'', JNumber (show_int (tx_instance t))), (''from'', JString (state_str (tx_from t))),
       (''to'', JString (state_str (tx_to t))), (''reason'', JString (tx_reason t))]"

definition exit_ip_data :: "instance_id \<Rightarrow> string option \<Rightarrow> string option \<Rightarrow> string option \<Rightarrow> nat option \<Rightarrow> json" where
  "exit_ip_data i v4 v6 c latency =
     JObject [(''instance_id'', JNumber (show_int i)), (''exit_ip_v4'', jopt v4), (''exit_ip_v6'', jopt v6),
       (''colo'', jopt c), (''latency_ms'', case latency of None \<Rightarrow> JNull | Some n \<Rightarrow> JNumber (show_nat n))]"

definition frame_parts :: "health_event \<Rightarrow> string \<times> string \<times> string \<times> json" where
  "frame_parts ev =
     (case ev of
        StateChanged t \<Rightarrow>
          (''state_changed'', ''instance.state_changed'', ''instance:'' @ show_int (tx_instance t), transition_data t)
      | HealthChanged t \<Rightarrow>
          (''health_changed'', ''instance.health_changed'', ''instance:'' @ show_int (tx_instance t), transition_data t)
      | ExitIpChanged i v4 v6 c latency \<Rightarrow>
          (''exit_ip_changed'', ''instance.exit_ip_changed'', ''instance:'' @ show_int i, exit_ip_data i v4 v6 c latency))"

record sse_event =
  ss_event :: string
  ss_data :: json

definition to_sse_event :: "string \<Rightarrow> health_event \<Rightarrow> sse_event" where
  "to_sse_event stamp ev =
     (case frame_parts ev of (frame, event_type, resource_id, data) \<Rightarrow>
        \<lparr>ss_event = frame, ss_data = envelope stamp event_type resource_id data\<rparr>)"

text \<open>A line of a log: its source, its number and its text.\<close>

type_synonym log_line = "log_source \<times> nat \<times> string"

definition log_frame_parts :: "log_line \<Rightarrow> string \<times> string \<times> json" where
  "log_frame_parts = (\<lambda>(source, n, line).
     (''log.line'', source_id source,
      JObject [(''source'', JString (source_id source)), (''seq'', JNumber (show_nat n)), (''line'', JString line)]))"

definition to_log_sse_event :: "string \<Rightarrow> log_line \<Rightarrow> sse_event" where
  "to_log_sse_event stamp l =
     (case log_frame_parts l of (frame, resource_id, data) \<Rightarrow>
        \<lparr>ss_event = frame, ss_data = envelope stamp ''log.line'' resource_id data\<rparr>)"

text \<open>One receiver: what \<open>recv\<close> returns, and the items that the stream yields from it. A gap is
  passed over, the end of the channel ends the stream.\<close>

datatype 'a recv = Received 'a | Lagged nat | Closed

fun stream_items :: "'a recv list \<Rightarrow> 'a list" where
  "stream_items [] = []"
| "stream_items (Received x # rs) = x # stream_items rs"
| "stream_items (Lagged n # rs) = stream_items rs"
| "stream_items (Closed # rs) = []"

text \<open>What one subscriber is sent. The arms are the turns of \<open>select\<close> between the two channels.\<close>

fun subscribe :: "string \<Rightarrow> (health_event recv + log_line recv) list \<Rightarrow> sse_event list" where
  "subscribe stamp [] = []"
| "subscribe stamp (Inl (Received ev) # rs) = to_sse_event stamp ev # subscribe stamp rs"
| "subscribe stamp (Inr (Received l) # rs) = to_log_sse_event stamp l # subscribe stamp rs"
| "subscribe stamp (Inl Closed # rs) = subscribe stamp (filter (Not \<circ> isl) rs)"
| "subscribe stamp (Inr Closed # rs) = subscribe stamp (filter isl rs)"
| "subscribe stamp (_ # rs) = subscribe stamp rs"

section \<open>Lemmas\<close>

lemma count_instance_simps [simp]:
  "ic_total (count_instance c (i, r)) = ic_total c + 1"
  "ic_healthy (count_instance c (i, r)) = ic_healthy c + (if ir_state r = Healthy then 1 else 0)"
  "ic_degraded (count_instance c (i, r)) = ic_degraded c + (if ir_state r = Degraded then 1 else 0)"
  "ic_failed (count_instance c (i, r)) = ic_failed c + (if ir_state r = Failed then 1 else 0)"
  "ic_stopped (count_instance c (i, r)) = ic_stopped c + (if ir_state r \<in> {Stopped, Disabled} then 1 else 0)"
  "ic_running (count_instance c (i, r)) =
     ic_running c + (if ir_state r \<in> {Healthy, Degraded, Starting, Registering, Connecting, Stopping} then 1 else 0)"
  by (cases "ir_state r"; simp add: count_instance_def)+

definition in_state :: "runtime_state set \<Rightarrow> (instance_id \<times> instance_runtime) list \<Rightarrow> nat" where
  "in_state S rs = length (filter (\<lambda>(i, r). ir_state r \<in> S) rs)"

lemma in_state_simps:
  "in_state S [] = 0" "in_state S ((i, r) # rs) = (if ir_state r \<in> S then 1 else 0) + in_state S rs"
  by (simp_all add: in_state_def)

lemma foldl_counts:
  "ic_total (foldl count_instance c rs) = ic_total c + length rs \<and>
   ic_healthy (foldl count_instance c rs) = ic_healthy c + in_state {Healthy} rs \<and>
   ic_degraded (foldl count_instance c rs) = ic_degraded c + in_state {Degraded} rs \<and>
   ic_failed (foldl count_instance c rs) = ic_failed c + in_state {Failed} rs \<and>
   ic_stopped (foldl count_instance c rs) = ic_stopped c + in_state {Stopped, Disabled} rs \<and>
   ic_running (foldl count_instance c rs) =
     ic_running c + in_state {Healthy, Degraded, Starting, Registering, Connecting, Stopping} rs"
  by (induction rs arbitrary: c) (simp_all add: in_state_simps split_paired_all)

lemma counts_simps:
  "ic_total (counts_from_runtime rs) = length rs" "ic_healthy (counts_from_runtime rs) = in_state {Healthy} rs"
  "ic_degraded (counts_from_runtime rs) = in_state {Degraded} rs"
  "ic_failed (counts_from_runtime rs) = in_state {Failed} rs"
  "ic_stopped (counts_from_runtime rs) = in_state {Stopped, Disabled} rs"
  "ic_running (counts_from_runtime rs) = in_state {Healthy, Degraded, Starting, Registering, Connecting, Stopping} rs"
  using foldl_counts [of no_counts rs] by (simp_all add: counts_from_runtime_def no_counts_def)

lemma in_state_disjoint:
  assumes "S \<inter> T = {}"
  shows "in_state S rs + in_state T rs = in_state (S \<union> T) rs"
proof (induction rs)
  case (Cons x rs)
  then show ?case using assms by (cases x) (auto simp: in_state_simps)
qed (simp add: in_state_simps)

lemma in_state_all: "in_state S rs = length rs" if "S = UNIV"
  using that by (simp add: in_state_def split_def)

lemma frame_names: "ss_event (to_sse_event stamp ev) \<noteq> ''log.line''" "ss_event (to_log_sse_event stamp l) = ''log.line''"
  by (simp_all add: to_sse_event_def frame_parts_def to_log_sse_event_def log_frame_parts_def split: health_event.splits prod.splits)

definition lefts :: "('a + 'b) list \<Rightarrow> 'a list" where "lefts rs = List.map projl (filter isl rs)"
definition rights :: "('a + 'b) list \<Rightarrow> 'b list" where "rights rs = List.map projr (filter (Not \<circ> isl) rs)"

lemma lefts_rights [simp]:
  "lefts [] = []" "lefts (Inl x # rs) = x # lefts rs" "lefts (Inr y # rs) = lefts rs"
  "rights [] = []" "rights (Inl x # rs) = rights rs" "rights (Inr y # rs) = y # rights rs"
  "lefts (filter (Not \<circ> isl) rs) = []" "rights (filter (Not \<circ> isl) rs) = rights rs"
  "lefts (filter isl rs) = lefts rs" "rights (filter isl rs) = []"
  by (simp_all add: lefts_def rights_def comp_def)

lemma publish_lines_filtered: "snd ` set (fst (publish_lines f n b)) \<subseteq> range f"
proof (induction f n b rule: publish_lines.induct)
  case (1 f n b)
  show ?case
  proof (cases "split_once (CHR 0x0A) b")
    case None
    then show ?thesis by (simp add: publish_lines.simps)
  next
    case (Some x)
    obtain raw rest where x: "x = (raw, rest)" by fastforce
    note IH = 1 [OF Some x [symmetric] HOL.refl]
    show ?thesis
      using Some x IH by (subst publish_lines.simps) (simp add: Let_def case_prod_beta)
  qed
qed

lemma poll_filtered: "snd ` set (fst (poll f b t)) \<subseteq> range f"
  using publish_lines_filtered [of f "tl_seq t"]
  by (simp add: poll_def Let_def case_prod_beta)

section \<open>Properties\<close>

text \<open>The counts of the status page add up. They cover every instance of the registry once:
  running, failed and stopped are disjoint and complete, healthy and degraded are running, and the
  healthy ones are as many as the gateway reports as its upstreams.\<close>

theorem counts_add_up:
  assumes "counts_from_runtime (reg_list reg) = c"
  shows "ic_total c = length (reg_list reg) \<and> ic_running c + ic_failed c + ic_stopped c = ic_total c \<and>
    ic_healthy c + ic_degraded c \<le> ic_running c \<and>
    (gw_status pid reg g = Some (StRunning p n v) \<longrightarrow> n = ic_healthy c)"
proof -
  let ?r = "reg_list reg"
  have "ic_running c + ic_failed c + ic_stopped c = ic_total c"
    unfolding assms [symmetric] counts_simps
    by (simp add: in_state_disjoint, rule in_state_all) (auto intro: runtime_state.exhaust)
  moreover have "ic_running c = ic_healthy c + ic_degraded c + in_state {Starting, Registering, Connecting, Stopping} ?r"
    unfolding assms [symmetric] counts_simps by (simp add: in_state_disjoint insert_commute)
  moreover have "n = ic_healthy c" if "gw_status pid reg g = Some (StRunning p n v)"
    using that unfolding assms [symmetric] counts_simps
    by (auto simp: gw_status_def Let_def in_state_def split: if_splits option.splits)
  moreover have "ic_total c = length ?r" unfolding assms [symmetric] counts_simps ..
  ultimately show ?thesis by simp
qed

text \<open>C26: The status page reports a dead proxy as healthy. When a listener of a serving proxy has
  ended and its port cannot be bound again, nothing listens any more; the system status is then
  still ''ok'' and its proxy component ''running'', as long as the secret store can be read and no
  apply has failed.\<close>

theorem status_hides_dead_proxy:
  assumes "gw_phase g = Serving cfg hb" and "gw_active g" and "\<not> gw_stopped g" and "gw_config g = Some cfg"
    and "secret_exists ProxyPassword s = (Inr present, s')"
  shows "\<exists>g'. loop_run [ListenerExit, SleepDone, CheckTop, BindFail msg] g = Some g' \<and>
    \<not> socks5_bound g' \<and> \<not> http_bound g' \<and>
    (let v = fst (system_status version uptime reg (gw_status pid reg g') None s)
     in sv_status v = ''ok'' \<and> sc_gost (sv_components v) = ''running'')"
proof -
  obtain g' n where g': "loop_run [ListenerExit, SleepDone, CheckTop, BindFail msg] g = Some g'"
    "\<not> socks5_bound g'" "\<not> http_bound g'" "gw_status pid reg g' = Some (StRunning pid n [])"
    using gateway_failure_hidden [OF assms(1-4), of msg pid reg] by blast
  then show ?thesis by (intro exI [of _ g']) (simp add: system_status_def Let_def assms(5))
qed

text \<open>A subscriber of the event stream is sent, in the order of publication, exactly what its two
  receivers gave it before their channels closed, however the stream alternates between them: each
  state event as the frame of its kind and each log line as a log frame. Gaps lose what they skip
  and nothing else.\<close>

theorem frames_follow_channels:
  "filter (\<lambda>e. ss_event e \<noteq> ''log.line'') (subscribe stamp rs) = List.map (to_sse_event stamp) (stream_items (lefts rs)) \<and>
   filter (\<lambda>e. ss_event e = ''log.line'') (subscribe stamp rs) = List.map (to_log_sse_event stamp) (stream_items (rights rs))"
  by (induction stamp rs rule: subscribe.induct) (simp_all add: frame_names)

text \<open>What is published of an instance's log has been through the redactor, whatever the file
  does: it may grow, shrink, be replaced or vanish between two looks.\<close>

theorem live_lines_redacted:
  assumes "(n, line) \<in> set (tail_watcher_loop rx (InstanceLog i) obs)"
  shows "line \<in> range (scrub_line rx)"
proof -
  have "snd ` set (tail_watch f b t obs) \<subseteq> range f" for f :: "string \<Rightarrow> string" and b t
  proof (induction f b t obs rule: tail_watch.induct)
    case (4 f first t b obs)
    obtain ls t1 where "poll f b t = (ls, t1)" by fastforce
    with 4 [of ls t1] poll_filtered [of f b t] show ?case by auto
  qed simp_all
  from this [of "line_filter rx (InstanceLog i)" True None] assms
  show ?thesis by (force simp: tail_watcher_loop_def line_filter_def)
qed

text \<open>A frame of the event stream names its instance. The resource identifier of a state event
  leads back to the instance, and the data carry the same number and nothing but the fields of
  the contract.\<close>

theorem event_names_instance:
  assumes "0 \<le> i" and "i \<le> i64_max"
    and "ev = StateChanged t \<and> tx_instance t = i \<or> ev = HealthChanged t \<and> tx_instance t = i \<or>
      ev = ExitIpChanged i v4 v6 c latency"
  shows "\<exists>frame ty data. frame_parts ev = (frame, ty, ''instance:'' @ show_int i, JObject data) \<and>
    source_parse (''instance:'' @ show_int i) = Some (InstanceLog i) \<and>
    map_of data ''instance_id'' = Some (JNumber (show_int i)) \<and>
    set (List.map fst data) \<subseteq> {''instance_id'', ''from'', ''to'', ''reason'', ''exit_ip_v4'', ''exit_ip_v6'', ''colo'', ''latency_ms''}"
proof -
  have "source_parse (''instance:'' @ show_int i) = Some (InstanceLog i)"
    using instance_source_show [OF assms(1,2)] by (simp add: source_parse_def)
  with assms(3) show ?thesis
    by (elim disjE conjE) (simp_all add: frame_parts_def transition_data_def exit_ip_data_def)
qed

section \<open>Witnesses\<close>

definition demo_two :: registry where
  "demo_two = [(1, rt_stopped\<lparr>ir_state := Healthy\<rparr>), (2, rt_stopped)]"

theorem counts_add_up_witness:
  "ic_healthy (counts_from_runtime (reg_list demo_two)) + ic_degraded (counts_from_runtime (reg_list demo_two))
     \<le> ic_running (counts_from_runtime (reg_list demo_two)) \<and> ic_running (counts_from_runtime (reg_list demo_two)) = 1"
proof
  show "ic_running (counts_from_runtime (reg_list demo_two)) = 1"
    by (simp add: counts_simps in_state_simps demo_two_def reg_list_def rt_stopped_def)
qed (use counts_add_up [OF HOL.refl, of demo_two] in blast)

theorem status_hides_dead_proxy_witness:
  "\<exists>g'. loop_run [ListenerExit, SleepDone, CheckTop, BindFail ''in use''] (demo_serving True) = Some g' \<and> \<not> socks5_bound g' \<and>
     sv_status (fst (system_status ''1'' 5 [] (gw_status 1 [] g') None (demo_store db_migrated))) = ''ok''"
proof -
  let ?cfg = "config_from_settings nat_semaphore 0 (demo_settings True)"
  have g: "gw_phase (demo_serving True) = Serving ?cfg True" "gw_active (demo_serving True)"
    "\<not> gw_stopped (demo_serving True)" "gw_config (demo_serving True) = Some ?cfg"
    by (simp_all add: demo_serving_def gateway_new_def)
  obtain p s' where "secret_exists ProxyPassword (demo_store db_migrated) = (Inr p, s')"
    by (simp add: secret_exists_def exists_at_def stmt_def demo_store_def mapping_err_def ret_def)
  from status_hides_dead_proxy [OF g this, of "''in use''" "''1''" 5 "[]" 1] show ?thesis by (auto simp: Let_def)
qed

theorem live_lines_redacted_witness: "scrub_line demo_patterns ''a'' \<in> range (scrub_line demo_patterns)"
proof -
  have "poll (scrub_line demo_patterns) [CHR ''a'', CHR 0x0A] (tail_at 0) = ([(1, scrub_line demo_patterns ''a'')],
     \<lparr>tl_pos = 2, tl_prev = Some (CHR 0x0A), tl_pending = [], tl_seq = 1\<rparr>)"
    by (simp add: poll_def tail_at_def read_batch_bytes_def Let_def trim_pending_def pending_max_bytes_def publish_lines.simps,
        code_simp)
  then have "(1, scrub_line demo_patterns ''a'') \<in> set (tail_watcher_loop demo_patterns (InstanceLog 1) [FileIs [], FileIs [CHR ''a'', CHR 0x0A]])"
    by (simp add: tail_watcher_loop_def line_filter_def)
  from live_lines_redacted [OF this] show ?thesis .
qed

theorem event_names_instance_witness:
  "\<exists>frame ty data. frame_parts (ExitIpChanged 7 None None None (Some 12)) = (frame, ty, ''instance:'' @ show_int 7, JObject data) \<and>
     map_of data ''instance_id'' = Some (JNumber (show_int 7))"
proof -
  have "0 \<le> (7::int)" "(7::int) \<le> i64_max" by (simp_all add: i64_max_def)
  from event_names_instance [OF this, of "ExitIpChanged 7 None None None (Some 12)" _ None None None "Some 12"]
  show ?thesis by auto
qed

end
