(* ===== verification/Timestamp.thy ===== *)
theory Timestamp
  imports RustStr
begin

text \<open>
  The time stamp in the names of backup archives (\<open>stamp\<close> of \<open>crates/xtask/src/tasks/backup.rs\<close>): a
  conversion of days to a date by arithmetic on eras of 400 years that begin in March, and the proof
  that it follows the calendar day by day.
\<close>

section \<open>The code\<close>

text \<open>Days since 1970-01-01 to year, month and day. The code computes in 64-bit integers; all
  intermediate results are small and not negative, so its division is that of natural numbers.\<close>

definition civil_from_days :: "nat \<Rightarrow> nat \<times> nat \<times> nat" where
  "civil_from_days days =
     (let z = days + 719468;
          era = z div 146097;
          doe = z - era * 146097;
          yoe = (doe - doe div 1460 + doe div 36524 - doe div 146096) div 365;
          y = yoe + era * 400;
          doy = doe - (365 * yoe + yoe div 4 - yoe div 100);
          mp = (5 * doy + 2) div 153;
          day = doy - (153 * mp + 2) div 5 + 1;
          month = (if mp < 10 then mp + 3 else mp - 9);
          year = (if month \<le> 2 then y + 1 else y)
      in (year, month, day))"

definition pad0 :: "nat \<Rightarrow> nat \<Rightarrow> string" where
  "pad0 w n = replicate (w - length (show_nat n)) (CHR ''0'') @ show_nat n"

definition stamp :: "nat \<Rightarrow> string" where
  "stamp secs =
     (let h = secs mod 86400 div 3600; m = secs mod 3600 div 60; s = secs mod 60
      in case civil_from_days (secs div 86400) of (year, month, day) \<Rightarrow>
           pad0 4 year @ pad0 2 month @ pad0 2 day @ ''-'' @ pad0 2 h @ pad0 2 m @ pad0 2 s)"

section \<open>The calendar\<close>

definition leap :: "nat \<Rightarrow> bool" where
  "leap y \<longleftrightarrow> y mod 4 = 0 \<and> (y mod 100 \<noteq> 0 \<or> y mod 400 = 0)"

definition month_days :: "nat \<Rightarrow> nat \<Rightarrow> nat" where
  "month_days y m = (if m = 2 then if leap y then 29 else 28 else if m \<in> {4, 6, 9, 11} then 30 else 31)"

definition next_day :: "nat \<times> nat \<times> nat \<Rightarrow> nat \<times> nat \<times> nat" where
  "next_day = (\<lambda>(y, m, d). if d < month_days y m then (y, m, d + 1) else if m < 12 then (y, m + 1, 1) else (y + 1, 1, 1))"

section \<open>Years of an era\<close>

text \<open>The first day of a year in its era, and the last year's extra day.\<close>

definition year_start :: "nat \<Rightarrow> nat" where
  "year_start y = 365 * y + y div 4 - y div 100 + (if y = 400 then 1 else 0)"

definition scaled :: "nat \<Rightarrow> nat" where
  "scaled doe = doe - doe div 1460 + doe div 36524 - doe div 146096"

lemma year_parts:
  assumes "y < 400"
  obtains c q s where "y = 100 * c + 4 * q + s" "c < 4" "q < 25" "s < (4::nat)"
proof
  show "y = 100 * (y div 100) + 4 * (y mod 100 div 4) + y mod 100 mod 4" by presburger
qed (use assms in auto)

lemma year_start_parts:
  assumes "y = 100 * c + 4 * q + s" "c < 4" "q < 25" "s < 4"
  shows "year_start y = 36524 * c + 1461 * q + 365 * s"
proof -
  have "y div 4 = 25 * c + q" "y div 100 = c" using assms by (intro div_nat_eqI; simp)+
  moreover have "y < 400" using assms by linarith
  ultimately show ?thesis by (simp add: year_start_def assms(1))
qed

lemma scaled_val:
  assumes "1460 * a \<le> doe" "doe < 1460 * Suc a" "36524 * b \<le> doe" "doe < 36524 * Suc b" "146096 * d \<le> doe" "doe < 146096 * Suc d"
    and "v + a + d = doe + b"
  shows "scaled doe = v"
  using div_nat_eqI [OF assms(1,2)] div_nat_eqI [OF assms(3,4)] div_nat_eqI [OF assms(5,6)] assms(1,7)
  by (simp add: scaled_def)

text \<open>The four kinds of years: within four years, the last of four years, of a century, of the era;
  with their first and their last day.\<close>

lemma year_cases:
  assumes "y < 400"
  obtains (plain) c q s where "y = 100 * c + 4 * q + s" "c < 4" "q < 25" "s < 3" "\<not> leap (y + 1)"
      "year_start y = 36524 * c + 1461 * q + 365 * s" "year_start (y + 1) = 36524 * c + 1461 * q + 365 * s + 365"
  | (fourth) c q where "y = 100 * c + 4 * q + 3" "c < 4" "q < 24" "leap (y + 1)"
      "year_start y = 36524 * c + 1461 * q + 1095" "year_start (y + 1) = 36524 * c + 1461 * q + 1461"
  | (century) c where "y = 100 * c + 99" "c < 3" "\<not> leap (y + 1)"
      "year_start y = 36524 * c + 36159" "year_start (y + 1) = 36524 * c + 36524"
  | (era) "y = 399" "leap (y + 1)" "year_start y = 145731" "year_start (y + 1) = 146097"
  using assms
proof (cases rule: year_parts)
  case (1 c q s)
  note start = year_start_parts [OF 1]
  consider "s < 3" | "s = 3" "q < 24" | "s = 3" "q = 24" "c < 3" | "s = 3" "q = 24" "c = 3" using 1 by linarith
  then show ?thesis
  proof cases
    case s: 1
    have "y + 1 = s + 1 + 4 * (25 * c + q)" using 1 by simp
    then have "(y + 1) mod 4 = s + 1" using s by (simp only: mod_mult_self2) simp
    then have "\<not> leap (y + 1)" by (simp add: leap_def)
    moreover have "year_start (y + 1) = 36524 * c + 1461 * q + 365 * (s + 1)"
      using 1 s by (intro year_start_parts) simp_all
    ultimately show ?thesis using plain [OF 1(1-3) s] start by simp
  next
    case s: 2
    have y: "y + 1 = 0 + 4 * (25 * c + q + 1)" "y + 1 = 4 * (q + 1) + 100 * c" using 1 s by simp_all
    have "(y + 1) mod 4 = 0" by (simp only: y(1) mod_mult_self2)
    moreover have "(y + 1) mod 100 = 4 * (q + 1)" using s by (simp only: y(2) mod_mult_self2) simp
    ultimately have "leap (y + 1)" by (simp add: leap_def)
    moreover have "year_start (y + 1) = 36524 * c + 1461 * (q + 1) + 365 * 0"
      using 1 s by (intro year_start_parts) simp_all
    moreover have "y = 100 * c + 4 * q + 3" using 1 s by simp
    ultimately show ?thesis using fourth [OF _ 1(2), of q] start s by simp
  next
    case s: 3
    have y: "y + 1 = 100 * (c + 1)" "y = 100 * c + 99" using 1 s by simp_all
    have "(y + 1) mod 100 = 0" "(y + 1) mod 400 = 100 * (c + 1)" using s unfolding y(1) by simp_all
    then have "\<not> leap (y + 1)" by (simp add: leap_def)
    moreover have "year_start (y + 1) = 36524 * (c + 1) + 1461 * 0 + 365 * 0"
      using 1 s by (intro year_start_parts) simp_all
    ultimately show ?thesis using century [OF y(2) s(3)] start s by simp
  next
    case s: 4
    then have y: "y = 399" using 1 by simp
    show ?thesis by (rule era) (simp_all add: y year_start_def leap_def)
  qed
qed

lemma year_length:
  assumes "y < 400"
  shows "year_start (y + 1) = year_start y + (if leap (y + 1) then 366 else 365)"
  using assms by (cases rule: year_cases) (simp_all del: One_nat_def Suc_eq_plus1 add: Suc_eq_plus1 [symmetric])

lemma year_ends:
  assumes "y < 400"
  shows "365 * y \<le> scaled (year_start y) \<and> scaled (year_start (y + 1) - 1) < 365 * (y + 1)"
  using assms
proof (cases rule: year_cases)
  case (plain c q s)
  have "scaled (year_start y) = 365 * y"
    by (rule scaled_val [of "25 * c + q" _ c 0]) (use plain in simp_all)
  moreover have "scaled (year_start (y + 1) - 1) = 365 * y + 364"
    by (rule scaled_val [of "25 * c + q" _ c 0]; simp only: plain(7)) (use plain in simp_all)
  ultimately show ?thesis by simp
next
  case (fourth c q)
  have "scaled (year_start y) = 365 * y"
    by (rule scaled_val [of "25 * c + q" _ c 0]) (use fourth in simp_all)
  moreover have "scaled (year_start (y + 1) - 1) = 365 * y + 364"
    by (rule scaled_val [of "25 * c + q + 1" _ c 0]; simp only: fourth(6)) (use fourth in simp_all)
  ultimately show ?thesis by simp
next
  case (century c)
  have "scaled (year_start y) = 365 * y"
    by (rule scaled_val [of "25 * c + 24" _ c 0]) (use century in simp_all)
  moreover have "scaled (year_start (y + 1) - 1) = 365 * y + 363"
    by (rule scaled_val [of "25 * c + 25" _ c 0]; simp only: century(5)) (use century in simp_all)
  ultimately show ?thesis by simp
next
  case era
  then show ?thesis by (simp add: scaled_def)
qed

lemma step_le:
  "a' \<le> Suc a \<Longrightarrow> b \<le> b' \<Longrightarrow> d' \<le> Suc d \<Longrightarrow> a' = a \<or> d' = d \<Longrightarrow> a + d \<le> n \<Longrightarrow> n - a + b - d \<le> Suc n - a' + b' - (d'::nat)"
  by linarith

lemma scaled_mono: "a \<le> b \<Longrightarrow> b < 146097 \<Longrightarrow> scaled a \<le> scaled b"
proof (induction rule: dec_induct)
  case (step n)
  have "n < 146096" using step by simp
  then have k: "Suc n div 1460 = n div 1460 \<or> Suc n div 146096 = n div 146096"
    by (cases "Suc n = 146096") (auto simp: div_Suc)
  have le: "n div k \<le> Suc n div k \<and> Suc n div k \<le> Suc (n div k)" for k by (simp add: div_Suc)
  have "n div 1460 + n div 146096 \<le> n"
    using times_div_less_eq_dividend [of 1460 n] times_div_less_eq_dividend [of 146096 n] by linarith
  then have "scaled n \<le> scaled (Suc n)"
    unfolding scaled_def using k le by (intro step_le) blast+
  with step show ?case by simp
qed simp

lemma year_exists: "n \<le> 400 \<Longrightarrow> doe < year_start n \<Longrightarrow> \<exists>y < n. year_start y \<le> doe \<and> doe < year_start (y + 1)"
proof (induction n)
  case (Suc n)
  then show ?case by (cases "doe < year_start n") (auto intro: less_SucI)
qed (simp add: year_start_def)

lemma year_bound:
  assumes "y < 400"
  shows "year_start (y + 1) \<le> 146097"
  using assms by (cases rule: year_cases) simp_all

lemma year_unique:
  assumes "y < 400" "year_start y \<le> doe" "doe < year_start (y + 1)"
  shows "scaled doe div 365 = y"
proof (rule div_nat_eqI)
  have le: "doe \<le> year_start (y + 1) - 1" "year_start (y + 1) - 1 < 146097" "doe < 146097"
    using year_bound [OF assms(1)] assms(3) by linarith+
  show "365 * y \<le> scaled doe" using year_ends [OF assms(1), THEN conjunct1] scaled_mono [OF assms(2) le(3)] by linarith
  show "scaled doe < 365 * Suc y" using year_ends [OF assms(1), THEN conjunct2] scaled_mono [OF le(1,2)] by simp
qed

lemma day_in_year:
  assumes "doe < 146097"
  obtains y doy where "y < 400" "doe = year_start y + doy" "doy < (if leap (y + 1) then 366 else 365)" "scaled doe div 365 = y"
proof -
  have "doe < year_start 400" using assms by (simp add: year_start_def)
  then obtain y where y: "y < 400" "year_start y \<le> doe" "doe < year_start (y + 1)" using year_exists [of 400 doe] by auto
  show thesis
    by (rule that [of y "doe - year_start y"]) (use y year_length [OF y(1)] year_unique [OF y] in auto)
qed

section \<open>Days of a year\<close>

text \<open>Month and day from the day of a year that begins in March.\<close>

definition month_day :: "nat \<Rightarrow> nat \<times> nat" where
  "month_day doy =
     (let mp = (5 * doy + 2) div 153 in (if mp < 10 then mp + 3 else mp - 9, doy - (153 * mp + 2) div 5 + 1))"

definition march_next :: "nat \<times> nat \<Rightarrow> nat \<times> nat" where
  "march_next = (\<lambda>(m, d). if d < (if m \<in> {4, 6, 9, 11} then 30 else 31) \<or> m = 2 then (m, d + 1)
     else if m = 12 then (1, 1) else (m + 1, 1))"

lemma month_day_is:
  "153 * k \<le> 5 * doy + 2 \<Longrightarrow> 5 * doy + 2 < 153 * Suc k \<Longrightarrow>
     month_day doy = (if k < 10 then k + 3 else k - 9, doy - (153 * k + 2) div 5 + 1)"
  using div_nat_eqI [of 153 k "5 * doy + 2"] by (simp add: month_day_def)

lemma month_day_table:
  assumes "doy < 365"
  shows "month_day (doy + 1) = march_next (month_day doy) \<and>
     (fst (month_day doy) = 2 \<longrightarrow> snd (month_day doy) + 336 = doy) \<and> fst (month_day doy) \<le> 12"
proof -
  define k where "k = (5 * doy + 2) div 153"
  have k: "153 * k \<le> 5 * doy + 2" "5 * doy + 2 < 153 * Suc k"
    using times_div_less_eq_dividend [of 153 "5 * doy + 2"] dividend_less_times_div [of 153 "5 * doy + 2"]
    by (simp_all only: k_def mult_Suc_right)
  note here = month_day_is [OF k]
  from k(1) assms have "k < 12" by linarith
  then have "k = 0 \<or> k = 1 \<or> k = 2 \<or> k = 3 \<or> k = 4 \<or> k = 5 \<or> k = 6 \<or> k = 7 \<or> k = 8 \<or> k = 9 \<or> k = 10 \<or> k = 11" by presburger
  then consider "k = 0" | "k = 1" | "k = 2" | "k = 3" | "k = 4" | "k = 5" | "k = 6" | "k = 7" | "k = 8" | "k = 9" | "k = 10" | "k = 11" by (elim disjE)
  note months = this
  consider (same) "5 * (doy + 1) + 2 < 153 * Suc k" | (later) "153 * Suc k \<le> 5 * (doy + 1) + 2" by linarith
  then show ?thesis
  proof cases
    case same
    have "month_day (doy + 1) = (if k < 10 then k + 3 else k - 9, doy + 1 - (153 * k + 2) div 5 + 1)"
      by (rule month_day_is) (use k same in simp_all)
    with here k same show ?thesis by (cases rule: months; simp add: march_next_def; (intro conjI impI)?; linarith?)
  next
    case later
    have "month_day (doy + 1) = (if Suc k < 10 then Suc k + 3 else Suc k - 9, doy + 1 - (153 * Suc k + 2) div 5 + 1)"
      by (rule month_day_is) (use k later in simp_all)
    with here k later assms show ?thesis by (cases rule: months; simp add: march_next_def; (intro conjI impI)?; linarith?)
  qed
qed

lemma month_day_ends: "month_day 0 = (3, 1)" "month_day 364 = (2, 28)" "month_day 365 = (2, 29)"
  by (simp_all add: month_day_def)

section \<open>The conversion\<close>

lemma civil_parts:
  assumes "days + 719468 = era * 146097 + doe" "doe < 146097" "y < 400" "doe = year_start y + doy" "scaled doe div 365 = y"
    and "month_day doy = (m, d)"
  shows "civil_from_days days = (if m \<le> 2 then y + era * 400 + 1 else y + era * 400, m, d)"
proof -
  have "(days + 719468) div 146097 = era" using assms(1,2) by (intro div_nat_eqI) simp_all
  moreover have "days + 719468 - era * 146097 = doe" using assms(1) by simp
  moreover have "doe - (365 * y + y div 4 - y div 100) = doy" using assms(3,4) by (simp add: year_start_def)
  moreover have "fst (month_day doy) = m" "snd (month_day doy) = d" using assms(6) by simp_all
  ultimately show ?thesis
    unfolding civil_from_days_def Let_def by (simp only: scaled_def [symmetric] assms(5) month_day_def Let_def fst_conv snd_conv)
qed

lemma leap_era: "leap (era * 400 + y) = leap y"
proof -
  have "(y + 4 * (100 * era)) mod 4 = y mod 4" "(y + 100 * (4 * era)) mod 100 = y mod 100"
    "(y + 400 * era) mod 400 = y mod 400" by (rule mod_mult_self2)+
  moreover have "era * 400 + y = y + 4 * (100 * era)" "era * 400 + y = y + 100 * (4 * era)" "era * 400 + y = y + 400 * era"
    by simp_all
  ultimately show ?thesis unfolding leap_def by metis
qed

text \<open>The day after a day that is not the last of its year, which ends with February.\<close>

lemma next_in_year:
  assumes "doy + 1 < (if leap (Y + 1) then 366 else 365)" and md: "month_day doy = (m, d)" "month_day (doy + 1) = (m', d')"
  shows "next_day (if m \<le> 2 then Y + 1 else Y, m, d) = (if m' \<le> 2 then Y + 1 else Y, m', d')"
proof -
  have "doy < 365" using assms(1) by (simp split: if_splits)
  with month_day_table [of doy] md have t: "(m', d') = march_next (m, d)" "m = 2 \<Longrightarrow> d + 336 = doy" "m \<le> 12" by auto
  show ?thesis
  proof (cases "m = 2")
    case True
    with t assms(1) show ?thesis by (auto simp: march_next_def next_day_def month_days_def split: if_splits)
  next
    case False
    then consider "m < 2" | "2 < m" "m < 12" | "m = 12" using t(3) by linarith
    then show ?thesis using t(1) by cases (auto simp: march_next_def next_day_def month_days_def split: if_splits)
  qed
qed

lemma civil_repr:
  obtains era y doy where "n + 719468 = era * 146097 + (year_start y + doy)" "y < 400" "doy < (if leap (y + 1) then 366 else 365)"
proof -
  define era doe where "era = (n + 719468) div 146097" and "doe = (n + 719468) mod 146097"
  have "n + 719468 = era * 146097 + doe" "doe < 146097" by (simp_all add: era_def doe_def)
  with that show thesis by (metis day_in_year)
qed

lemma civil_at:
  assumes "n + 719468 = era * 146097 + (year_start y + doy)" "y < 400" "doy < (if leap (y + 1) then 366 else 365)"
    and "month_day doy = (m, d)"
  shows "civil_from_days n = (if m \<le> 2 then y + era * 400 + 1 else y + era * 400, m, d)"
proof (rule civil_parts [OF assms(1) _ assms(2) refl _ assms(4)])
  have "year_start y + doy < year_start (y + 1)" using year_length [OF assms(2)] assms(3) by simp
  then show "scaled (year_start y + doy) div 365 = y" "year_start y + doy < 146097"
    using year_unique [OF assms(2)] year_bound [OF assms(2)] by simp_all
qed

section \<open>Property\<close>

text \<open>C37: The conversion of days to a date in the names of backup archives is the calendar's: day 0 is
  the first of January 1970, and the date of the following day is the next day of the Gregorian
  calendar with its rule for leap years, for every day.\<close>

theorem civil_follows_calendar:
  "civil_from_days 0 = (1970, 1, 1) \<and> civil_from_days (Suc n) = next_day (civil_from_days n)"
proof
  have "0 + 719468 = 4 * 146097 + (year_start 369 + 306)" by (simp add: year_start_def)
  from civil_at [OF this, of 1 1] show "civil_from_days 0 = (1970, 1, 1)" by (simp add: month_day_def)
next
  obtain era y doy where r: "n + 719468 = era * 146097 + (year_start y + doy)" "y < 400"
    "doy < (if leap (y + 1) then 366 else 365)" by (rule civil_repr)
  have l: "leap (y + era * 400 + 1) = leap (y + 1)" using leap_era [of era "y + 1"] by (simp add: ac_simps)
  obtain m d where md: "month_day doy = (m, d)" by fastforce
  note here = civil_at [OF r md]
  show "civil_from_days (Suc n) = next_day (civil_from_days n)"
  proof (cases "doy + 1 < (if leap (y + 1) then 366 else 365)")
    case True
    obtain m' d' where md': "month_day (doy + 1) = (m', d')" by fastforce
    have "civil_from_days (Suc n) = (if m' \<le> 2 then y + era * 400 + 1 else y + era * 400, m', d')"
      by (rule civil_at [OF _ r(2) True md']) (use r(1) in simp)
    also have "\<dots> = next_day (if m \<le> 2 then y + era * 400 + 1 else y + era * 400, m, d)"
      by (rule next_in_year [symmetric, OF _ md md']) (use True l in simp)
    finally show ?thesis using here by simp
  next
    case False
    with r(3) have doy: "doy = (if leap (y + 1) then 365 else 364)" by (simp split: if_splits)
    have "next_day (civil_from_days n) = (y + era * 400 + 1, 3, 1)"
      using md l by (simp add: here doy month_day_ends next_day_def month_days_def split: if_splits)
    moreover have "Suc n + 719468 = era * 146097 + (year_start (y + 1) + 0)"
      using r(1) doy year_length [OF r(2)] by simp
    moreover have "civil_from_days (Suc n) = (y + era * 400 + 1, 3, 1)"
    proof (cases "y = 399")
      case True
      with calculation(2) have "Suc n + 719468 = Suc era * 146097 + (year_start 0 + 0)" by (simp add: year_start_def)
      from civil_at [OF this, of 3 1] True show ?thesis by (simp add: month_day_ends)
    next
      case False
      then show ?thesis using civil_at [OF calculation(2), of 3 1] r(2) by (simp add: month_day_ends)
    qed
    ultimately show ?thesis by simp
  qed
qed

end
