(* ===== verification/Backup.thy ===== *)
theory Backup
  imports WebUi Logs Timestamp
begin

text \<open>
  Backup and restore of the data volume (\<open>crates/xtask/src/tasks/backup.rs\<close>): the time stamp in the
  names of archives, the command lines given to docker, the checks on an archive and the sequence
  of a restore. What a docker command line does is the parameter \<open>dk\<close>: it maps the arguments and the
  state of the world to an error or the standard output and the new state. Directories, the
  repository's root and the clock are arguments. Left out are printing, the creation of the backup
  directory, the canonical path of the archive (its directory and name are arguments) and, in
  \<open>expect_volume\<close>, the separate error for a docker that cannot be started.
\<close>

section \<open>Commands\<close>

type_synonym 'w docker = "string list \<Rightarrow> 'w \<Rightarrow> (string + string) \<times> 'w"

text \<open>A step that may fail, and what follows it.\<close>

definition bind_cmd :: "('w \<Rightarrow> (string + 'a) \<times> 'w) \<Rightarrow> ('a \<Rightarrow> 'w \<Rightarrow> (string + 'b) \<times> 'w) \<Rightarrow> 'w \<Rightarrow> (string + 'b) \<times> 'w" where
  "bind_cmd f k w = (case f w of (Inl e, w1) \<Rightarrow> (Inl e, w1) | (Inr x, w1) \<Rightarrow> k x w1)"

definition ensure :: "bool \<Rightarrow> string \<Rightarrow> 'w \<Rightarrow> (string + unit) \<times> 'w" where
  "ensure ok msg w = (if ok then Inr () else Inl msg, w)"

text \<open>\<open>common::run\<close> and \<open>common::capture\<close>, which trims the output.\<close>

definition run_cmd :: "'w docker \<Rightarrow> string list \<Rightarrow> 'w \<Rightarrow> (string + unit) \<times> 'w" where
  "run_cmd dk argv = bind_cmd (dk argv) (\<lambda>_. ensure True [])"

definition capture :: "'w docker \<Rightarrow> string list \<Rightarrow> 'w \<Rightarrow> (string + string) \<times> 'w" where
  "capture dk argv = bind_cmd (dk argv) (\<lambda>out w. (Inr (trim_str out), w))"

definition volume :: "string \<Rightarrow> string" where
  "volume project = project @ ''_warpdeck-data''"

definition inspect_argv :: "string \<Rightarrow> string list" where
  "inspect_argv vol = [''volume'', ''inspect'', vol]"

definition expect_volume :: "'w docker \<Rightarrow> string \<Rightarrow> 'w \<Rightarrow> (string + unit) \<times> 'w" where
  "expect_volume dk vol w =
     (case dk (inspect_argv vol) w of
        (Inr _, w1) \<Rightarrow> (Inr (), w1)
      | (Inl _, w1) \<Rightarrow> (Inl (''volume '' @ vol @ '' does not exist (project up?)''), w1))"

definition mount :: "string \<Rightarrow> string \<Rightarrow> string list" where
  "mount what at = [''-v'', what @ '':'' @ at]"

definition alpine_tar :: "string \<Rightarrow> string \<Rightarrow> string list \<Rightarrow> string list" where
  "alpine_tar vol host_dir args =
     [''run'', ''--rm''] @ mount vol ''/data'' @ mount host_dir ''/backup'' @ [''alpine:3.20'', ''tar''] @ args"

definition alpine_tar_ro :: "string \<Rightarrow> string \<Rightarrow> string list \<Rightarrow> string list" where
  "alpine_tar_ro vol host_dir args =
     [''run'', ''--rm''] @ mount vol ''/data'' @ mount host_dir ''/backup:ro'' @ [''alpine:3.20'', ''tar''] @ args"

definition alpine :: "string \<Rightarrow> string \<Rightarrow> string \<Rightarrow> string list" where
  "alpine vol dir script =
     [''run'', ''--rm''] @ mount vol ''/data'' @ mount dir ''/backup'' @ [''alpine:3.20'', ''sh'', ''-c'', script]"

definition data_sh :: "string \<Rightarrow> string \<Rightarrow> string list" where
  "data_sh vol script = [''run'', ''--rm''] @ mount vol ''/data'' @ [''alpine:3.20'', ''sh'', ''-c'', script]"

definition integrity_argv :: "string \<Rightarrow> string list" where
  "integrity_argv vol = data_sh vol
     (''apk add --no-cache sqlite >/dev/null 2>&1 && sqlite3 /data/warpdeck.db '' @
      CHR 0x27 # ''PRAGMA integrity_check;'' @ [CHR 0x27])"

definition key_argv :: "string \<Rightarrow> string list" where
  "key_argv vol = data_sh vol ''base64 -d /data/master.key | wc -c''"

definition copy_argv :: "string \<Rightarrow> string \<Rightarrow> string list" where
  "copy_argv staging vol =
     [''run'', ''--rm''] @ mount staging ''/src'' @ mount vol ''/dst'' @ [''alpine:3.20'', ''sh'', ''-c'', ''cp -a /src/. /dst/'']"

definition compose_argv :: "string \<Rightarrow> string \<Rightarrow> string \<Rightarrow> string list" where
  "compose_argv repo action project = [''compose'', ''-p'', project, ''-f'', path_join repo ''compose.yml'', action]"

definition volume_rm :: "string \<Rightarrow> string list" where "volume_rm vol = [''volume'', ''rm'', ''-f'', vol]"
definition volume_create :: "string \<Rightarrow> string list" where "volume_create vol = [''volume'', ''create'', vol]"

section \<open>Backup\<close>

definition backup_excludes :: "string list" where
  "backup_excludes = [''./instances/*/state/mdm.xml'']"

definition backup_argv :: "string \<Rightarrow> string \<Rightarrow> string \<Rightarrow> string list" where
  "backup_argv vol dir name = alpine_tar vol dir
     ([''czf'', ''/backup/'' @ name] @ concat (List.map (\<lambda>ex. [''--exclude'', ex]) backup_excludes) @ [''-C'', ''/data'', ''.''])"

definition archive_name :: "string \<Rightarrow> nat \<Rightarrow> string" where
  "archive_name project now = ''warpdeck-'' @ project @ ''-'' @ stamp now @ ''.tar.gz''"

definition backup :: "'w docker \<Rightarrow> string \<Rightarrow> string \<Rightarrow> string \<Rightarrow> nat \<Rightarrow> 'w \<Rightarrow> (string + unit) \<times> 'w" where
  "backup dk repo dir project now =
     (let vol = volume project in
      bind_cmd (expect_volume dk vol) (\<lambda>_.
      bind_cmd (run_cmd dk (compose_argv repo ''stop'' project)) (\<lambda>_ w1.
      case run_cmd dk (backup_argv vol dir (archive_name project now)) w1 of (res, w2) \<Rightarrow>
        bind_cmd (run_cmd dk (compose_argv repo ''start'' project)) (\<lambda>_ w3. (res, w3)) w2)))"

text \<open>The archives that \<open>list\<close> shows, with the names in the order of strings.\<close>

fun insert_name :: "string \<Rightarrow> string list \<Rightarrow> string list" where
  "insert_name x [] = [x]"
| "insert_name x (y # ys) = (if str_less y x then y # insert_name x ys else x # y # ys)"

definition list_backups :: "string list \<Rightarrow> string list" where
  "list_backups names = foldr insert_name
     (filter (\<lambda>n. starts_with ''warpdeck-'' n \<and> starts_with (rev ''.tar.gz'') (rev n)) names) []"

section \<open>Restore\<close>

fun trim_dot_slash :: "string \<Rightarrow> string" where
  "trim_dot_slash (c # d # s) = (if c = CHR ''.'' \<and> d = CHR ''/'' then trim_dot_slash s else c # d # s)"
| "trim_dot_slash s = s"

definition unsafe_entry :: "string \<Rightarrow> bool" where
  "unsafe_entry entry \<longleftrightarrow> ''..'' \<in> set (split_on (CHR ''/'') (trim_dot_slash entry)) \<or> starts_with ''/'' entry"

definition link_line :: "string \<Rightarrow> bool" where
  "link_line line \<longleftrightarrow> (case line of [] \<Rightarrow> False | c # _ \<Rightarrow> c = CHR ''l'' \<or> c = CHR ''h'')"

fun first_missing :: "string list \<Rightarrow> string list \<Rightarrow> string option" where
  "first_missing lines [] = None"
| "first_missing lines (r # rs) = (if r \<in> trim_dot_slash ` set lines then first_missing lines rs else Some r)"

definition quoted :: "string \<Rightarrow> string" where "quoted s = CHR 0x27 # s @ [CHR 0x27]"

definition check_archive :: "string \<Rightarrow> string \<Rightarrow> string + unit" where
  "check_archive listing verbose =
     (case first_missing (str_lines listing) [''warpdeck.db'', ''master.key''] of
        Some r \<Rightarrow> Inl (''archive missing '' @ quoted r @ '' - aborting restore'')
      | None \<Rightarrow>
     (case find unsafe_entry (str_lines listing) of
        Some e \<Rightarrow> Inl (''archive contains unsafe path entry '' @ quoted e @ '' - aborting'')
      | None \<Rightarrow>
     (case find link_line (str_lines verbose) of
        Some l \<Rightarrow> Inl (''archive contains symlink/hardlink entry '' @ quoted l @ '' - refusing to extract'')
      | None \<Rightarrow> Inr ())))"

definition wipe_script :: string where "wipe_script = ''rm -rf /data/* /data/.[!.]*''"

definition rollback_name :: "nat \<Rightarrow> string" where
  "rollback_name now = ''pre-restore-'' @ stamp now"

definition snapshot_argv :: "string \<Rightarrow> string \<Rightarrow> nat \<Rightarrow> string list" where
  "snapshot_argv vol dir now =
     alpine_tar vol dir [''czf'', ''/backup/'' @ rollback_name now @ ''.tar.gz'', ''-C'', ''/data'', ''.'']"

definition rollback_argv :: "string \<Rightarrow> string \<Rightarrow> nat \<Rightarrow> string list" where
  "rollback_argv vol dir now =
     alpine_tar vol dir [''xzf'', ''/backup/'' @ rollback_name now @ ''.tar.gz'', ''-C'', ''/data'']"

text \<open>The closure that runs while the services are stopped: unpack into the staging volume, check it,
  save the live volume, then replace it.\<close>

definition check_staging :: "'w docker \<Rightarrow> string \<Rightarrow> string \<Rightarrow> string \<Rightarrow> 'w \<Rightarrow> (string + unit) \<times> 'w" where
  "check_staging dk staging dir in_backup =
     bind_cmd (run_cmd dk (alpine_tar_ro staging dir [''xzf'', in_backup, ''-C'', ''/data''])) (\<lambda>_.
     bind_cmd (capture dk (integrity_argv staging)) (\<lambda>integrity.
     bind_cmd (ensure (trim_str integrity = ''ok'') (''sqlite integrity_check failed: '' @ integrity)) (\<lambda>_.
     bind_cmd (capture dk (key_argv staging)) (\<lambda>n.
     ensure (trim_str n = ''32'') (''master.key is not a base64-encoded 32-byte key (got '' @ n @ '' bytes)'')))))"

definition switch :: "'w docker \<Rightarrow> string \<Rightarrow> string \<Rightarrow> string \<Rightarrow> nat \<Rightarrow> 'w \<Rightarrow> (string + unit) \<times> 'w" where
  "switch dk vol staging dir now =
     bind_cmd (run_cmd dk (alpine vol dir wipe_script)) (\<lambda>_ w1.
     case run_cmd dk (copy_argv staging vol) w1 of (copied, w2) \<Rightarrow>
       (case copied of
          Inl e \<Rightarrow> bind_cmd (capture dk (rollback_argv vol dir now)) (\<lambda>_.
                   ensure False ''restore copy failed; live volume rolled back from snapshot'')
        | Inr _ \<Rightarrow> bind_cmd (capture dk (integrity_argv vol)) (\<lambda>integrity.
                   ensure (trim_str integrity = ''ok'') (''post-copy sqlite integrity_check failed: '' @ integrity))) w2)"

definition staged_restore :: "'w docker \<Rightarrow> string \<Rightarrow> string \<Rightarrow> string \<Rightarrow> string \<Rightarrow> nat \<Rightarrow> 'w \<Rightarrow> (string + unit) \<times> 'w" where
  "staged_restore dk vol staging dir in_backup now =
     bind_cmd (check_staging dk staging dir in_backup) (\<lambda>_.
     bind_cmd (capture dk (snapshot_argv vol dir now)) (\<lambda>_. switch dk vol staging dir now))"

definition check_listings :: "'w docker \<Rightarrow> string \<Rightarrow> string \<Rightarrow> string \<Rightarrow> 'w \<Rightarrow> (string + unit) \<times> 'w" where
  "check_listings dk vol dir in_backup =
     bind_cmd (capture dk (alpine_tar vol dir [''tzf'', in_backup])) (\<lambda>listing.
     bind_cmd (capture dk (alpine_tar vol dir [''tzvf'', in_backup])) (\<lambda>verbose w.
     (check_archive listing verbose, w)))"

definition prepare_staging :: "'w docker \<Rightarrow> string \<Rightarrow> string \<Rightarrow> 'w \<Rightarrow> (string + unit) \<times> 'w" where
  "prepare_staging dk vol staging =
     bind_cmd (expect_volume dk vol) (\<lambda>_ w1.
     case run_cmd dk (volume_rm staging) w1 of (_, w2) \<Rightarrow> run_cmd dk (volume_create staging) w2)"

text \<open>Stop the services, run the closure, remove the staging volume and start the services again,
  whatever the closure's result is.\<close>

definition while_stopped :: "'w docker \<Rightarrow> string \<Rightarrow> string \<Rightarrow> string \<Rightarrow> ('w \<Rightarrow> (string + unit) \<times> 'w) \<Rightarrow> 'w \<Rightarrow> (string + unit) \<times> 'w" where
  "while_stopped dk repo project staging closure =
     bind_cmd (run_cmd dk (compose_argv repo ''stop'' project)) (\<lambda>_ w1.
     case closure w1 of (result, w2) \<Rightarrow>
     case run_cmd dk (volume_rm staging) w2 of (_, w3) \<Rightarrow>
     bind_cmd (run_cmd dk (compose_argv repo ''start'' project)) (\<lambda>_ w4. (result, w4)) w3)"

text \<open>\<open>dir\<close> and \<open>name\<close> are the directory and the name of the archive's canonical path, which has been
  found to be a file. \<open>now\<close> is the time at which the rollback archive gets its name.\<close>

definition restore :: "'w docker \<Rightarrow> string \<Rightarrow> string \<Rightarrow> string \<Rightarrow> string \<Rightarrow> nat \<Rightarrow> 'w \<Rightarrow> (string + unit) \<times> 'w" where
  "restore dk repo project dir name now =
     (let vol = volume project; in_backup = ''/backup/'' @ name; staging = vol @ ''-restore-staging'' in
      bind_cmd (check_listings dk vol dir in_backup) (\<lambda>_.
      bind_cmd (prepare_staging dk vol staging) (\<lambda>_.
      while_stopped dk repo project staging (staged_restore dk vol staging dir in_backup now))))"

section \<open>Which commands may change a volume\<close>

text \<open>A record of the commands that were run, with their results, the newest first.\<close>

type_synonym log = "(string list \<times> (string + string)) list"

definition logged :: "'w docker \<Rightarrow> ('w \<times> log) docker" where
  "logged dk argv = (\<lambda>(w, log). case dk argv w of (r, w1) \<Rightarrow> (r, w1, (argv, r) # log))"

text \<open>A command may write the volume when it removes or creates it, when it has it mounted and is not
  one of tar's listings or the packing of an archive, and when it starts or stops the services.\<close>

definition writes :: "string \<Rightarrow> string list \<Rightarrow> bool" where
  "writes vol argv \<longleftrightarrow> take 1 argv = [''compose''] \<or> argv = volume_rm vol \<or> argv = volume_create vol \<or>
     vol @ '':/dst'' \<in> set (take 6 argv) \<or>
     vol @ '':/data'' \<in> set (take 6 argv) \<and>
       \<not> (take 1 (drop 7 argv) = [''tar''] \<and> take 1 (drop 8 argv) \<in> {[''tzf''], [''tzvf''], [''czf'']})"

lemmas argv_defs = inspect_argv_def mount_def alpine_tar_def alpine_tar_ro_def alpine_def data_sh_def integrity_argv_def
  key_argv_def copy_argv_def compose_argv_def volume_rm_def volume_create_def snapshot_argv_def rollback_argv_def

text \<open>Evidence for an archive in a log: its listings pass the checks; the staged database and key are
  sound; and the live volume has been saved.\<close>

definition archive_checked :: "string \<Rightarrow> string \<Rightarrow> string \<Rightarrow> log \<Rightarrow> bool" where
  "archive_checked vol dir in_backup log \<longleftrightarrow>
     (\<exists>l v. (alpine_tar vol dir [''tzf'', in_backup], Inr l) \<in> set log \<and> (alpine_tar vol dir [''tzvf'', in_backup], Inr v) \<in> set log \<and>
        check_archive (trim_str l) (trim_str v) = Inr ())"

definition staging_checked :: "string \<Rightarrow> log \<Rightarrow> bool" where
  "staging_checked staging log \<longleftrightarrow>
     (\<exists>o1. (integrity_argv staging, Inr o1) \<in> set log \<and> trim_str (trim_str o1) = ''ok'') \<and>
     (\<exists>o2. (key_argv staging, Inr o2) \<in> set log \<and> trim_str (trim_str o2) = ''32'')"

definition saved :: "string \<Rightarrow> string \<Rightarrow> nat \<Rightarrow> log \<Rightarrow> bool" where
  "saved vol dir now log \<longleftrightarrow> (\<exists>out. (snapshot_argv vol dir now, Inr out) \<in> set log)"

definition permitted :: "string \<Rightarrow> string \<Rightarrow> string \<Rightarrow> nat \<Rightarrow> log \<Rightarrow> string list \<Rightarrow> bool" where
  "permitted vol dir in_backup now log argv \<longleftrightarrow>
     (writes vol argv \<longrightarrow> take 1 argv = [''compose''] \<or>
        archive_checked vol dir in_backup log \<and> staging_checked (vol @ ''-restore-staging'') log \<and> saved vol dir now log)"

fun guarded :: "string \<Rightarrow> string \<Rightarrow> string \<Rightarrow> nat \<Rightarrow> log \<Rightarrow> bool" where
  "guarded vol dir in_backup now [] = True"
| "guarded vol dir in_backup now ((argv, r) # log) \<longleftrightarrow>
     permitted vol dir in_backup now log argv \<and> guarded vol dir in_backup now log"

lemma not_writes:
  "\<not> writes vol (alpine_tar vol dir (''tzf'' # a))" "\<not> writes vol (alpine_tar vol dir (''tzvf'' # a))"
  "\<not> writes vol (snapshot_argv vol dir now)" "\<not> writes vol (inspect_argv vol)"
  "\<not> writes vol (volume_rm (vol @ ''-restore-staging''))" "\<not> writes vol (volume_create (vol @ ''-restore-staging''))"
  "\<not> writes vol (alpine_tar_ro (vol @ ''-restore-staging'') dir a)"
  "\<not> writes vol (integrity_argv (vol @ ''-restore-staging''))" "\<not> writes vol (key_argv (vol @ ''-restore-staging''))"
  by (simp_all add: writes_def argv_defs eval_nat_numeral append_eq_append_conv2)

section \<open>Runs\<close>

lemma evidence_more [simp]:
  "archive_checked vol dir b log \<Longrightarrow> archive_checked vol dir b (x # log)"
  "staging_checked st log \<Longrightarrow> staging_checked st (x # log)"
  "saved vol dir now log \<Longrightarrow> saved vol dir now (x # log)"
  by (auto simp: archive_checked_def staging_checked_def saved_def)

lemma permittedI:
  "\<not> writes vol argv \<Longrightarrow> permitted vol dir b now log argv"
  "permitted vol dir b now log (compose_argv repo a p)"
  "archive_checked vol dir b log \<Longrightarrow> staging_checked (vol @ ''-restore-staging'') log \<Longrightarrow> saved vol dir now log \<Longrightarrow>
     permitted vol dir b now log argv"
  by (simp_all add: permitted_def compose_argv_def)

text \<open>What holds after a program has run: rules for its steps, which are applied backwards.\<close>

definition after :: "('w \<Rightarrow> (string + 'a) \<times> 'w) \<Rightarrow> 'w \<Rightarrow> (string + 'a \<Rightarrow> 'w \<Rightarrow> bool) \<Rightarrow> bool" where
  "after f s Q \<longleftrightarrow> (case f s of (r, s') \<Rightarrow> Q r s')"

named_theorems steps

lemmas cmd_defs = after_def run_cmd_def capture_def expect_volume_def bind_cmd_def ensure_def

lemma logged_step: "\<exists>q s1. logged dk argv s = (q, s1) \<and> snd s1 = (argv, q) # snd s"
  by (cases s; cases "dk argv (fst s)") (simp add: logged_def)

lemma after_run [steps]:
  assumes "\<And>e s1. snd s1 = (argv, Inl e) # snd s \<Longrightarrow> Q (Inl e) s1"
    and "\<And>out s1. snd s1 = (argv, Inr out) # snd s \<Longrightarrow> Q (Inr ()) s1"
  shows "after (run_cmd (logged dk) argv) s Q"
proof -
  obtain q s1 where "logged dk argv s = (q, s1)" "snd s1 = (argv, q) # snd s" using logged_step by blast
  with assms show ?thesis by (cases q) (simp_all add: cmd_defs)
qed

lemma after_bind_run [steps]:
  assumes "\<And>e s1. snd s1 = (argv, Inl e) # snd s \<Longrightarrow> Q (Inl e) s1"
    and "\<And>out s1. snd s1 = (argv, Inr out) # snd s \<Longrightarrow> after (k ()) s1 Q"
  shows "after (bind_cmd (run_cmd (logged dk) argv) k) s Q"
proof -
  obtain q s1 where "logged dk argv s = (q, s1)" "snd s1 = (argv, q) # snd s" using logged_step by blast
  with assms show ?thesis by (cases q) (simp_all add: cmd_defs)
qed

lemma after_bind_capture [steps]:
  assumes "\<And>e s1. snd s1 = (argv, Inl e) # snd s \<Longrightarrow> Q (Inl e) s1"
    and "\<And>out s1. snd s1 = (argv, Inr out) # snd s \<Longrightarrow> after (k (trim_str out)) s1 Q"
  shows "after (bind_cmd (capture (logged dk) argv) k) s Q"
proof -
  obtain q s1 where "logged dk argv s = (q, s1)" "snd s1 = (argv, q) # snd s" using logged_step by blast
  with assms show ?thesis by (cases q) (simp_all add: cmd_defs)
qed

lemma after_bind_expect [steps]:
  assumes "\<And>e e' s1. snd s1 = (inspect_argv vol, Inl e) # snd s \<Longrightarrow> Q (Inl e') s1"
    and "\<And>out s1. snd s1 = (inspect_argv vol, Inr out) # snd s \<Longrightarrow> after (k ()) s1 Q"
  shows "after (bind_cmd (expect_volume (logged dk) vol) k) s Q"
proof -
  obtain q s1 where "logged dk (inspect_argv vol) s = (q, s1)" "snd s1 = (inspect_argv vol, q) # snd s" using logged_step by blast
  with assms show ?thesis by (cases q) (simp_all add: cmd_defs)
qed

lemma after_ensure [steps]:
  assumes "\<not> ok \<Longrightarrow> Q (Inl msg) s" and "ok \<Longrightarrow> Q (Inr ()) s"
  shows "after (ensure ok msg) s Q"
  using assms by (simp add: after_def ensure_def)

lemma after_bind_ensure [steps]:
  assumes "\<not> ok \<Longrightarrow> Q (Inl msg) s" and "ok \<Longrightarrow> after (k ()) s Q"
  shows "after (bind_cmd (ensure ok msg) k) s Q"
  using assms by (simp add: after_def bind_cmd_def ensure_def)

lemma after_bind:
  "after f s (\<lambda>r s1. case r of Inl e \<Rightarrow> Q (Inl e) s1 | Inr x \<Rightarrow> after (k x) s1 Q) \<Longrightarrow> after (bind_cmd f k) s Q"
  by (auto simp: after_def bind_cmd_def split: prod.splits sum.splits)

lemma after_mono: "after f s P \<Longrightarrow> (\<And>r s1. P r s1 \<Longrightarrow> Q r s1) \<Longrightarrow> after f s Q"
  by (auto simp: after_def split: prod.splits)

text \<open>A command whose result is kept or ignored while the program goes on.\<close>

lemma after_try [steps]:
  assumes "\<And>e s1. snd s1 = (argv, Inl e) # snd s \<Longrightarrow> after (k (Inl e)) s1 Q"
    and "\<And>out s1. snd s1 = (argv, Inr out) # snd s \<Longrightarrow> after (k (Inr ())) s1 Q"
  shows "after (\<lambda>s. case run_cmd (logged dk) argv s of (r, s1) \<Rightarrow> k r s1) s Q"
proof -
  obtain q s1 where "logged dk argv s = (q, s1)" "snd s1 = (argv, q) # snd s" using logged_step by blast
  with assms show ?thesis by (cases q) (simp_all add: cmd_defs)
qed

text \<open>The parts of a restore, each adding permitted commands only.\<close>

lemma check_staging_run:
  assumes "guarded vol dir b now (snd s)" "archive_checked vol dir b (snd s)"
  shows "after (check_staging (logged dk) (vol @ ''-restore-staging'') dir ib) s
    (\<lambda>r s'. guarded vol dir b now (snd s') \<and> archive_checked vol dir b (snd s') \<and>
       (r = Inr () \<longrightarrow> staging_checked (vol @ ''-restore-staging'') (snd s')))"
  using assms unfolding check_staging_def
  by (intro steps) (auto simp: permittedI not_writes staging_checked_def)

lemma switch_run:
  assumes "guarded vol dir b now (snd s)" "archive_checked vol dir b (snd s)"
    "staging_checked (vol @ ''-restore-staging'') (snd s)" "saved vol dir now (snd s)"
  shows "after (switch (logged dk) vol (vol @ ''-restore-staging'') dir now) s (\<lambda>r s'. guarded vol dir b now (snd s'))"
  using assms unfolding switch_def
  by (intro steps; simp add: permittedI split: sum.splits; intro conjI impI steps)
     (auto simp: permittedI)

lemma staged_restore_run:
  assumes "guarded vol dir b now (snd s)" "archive_checked vol dir b (snd s)"
  shows "after (staged_restore (logged dk) vol (vol @ ''-restore-staging'') dir ib now) s (\<lambda>r s'. guarded vol dir b now (snd s'))"
  unfolding staged_restore_def
proof (rule after_bind, rule after_mono [OF check_staging_run [OF assms]])
  fix r and s1 :: "'a \<times> log"
  assume r: "guarded vol dir b now (snd s1) \<and> archive_checked vol dir b (snd s1) \<and>
       (r = Inr () \<longrightarrow> staging_checked (vol @ ''-restore-staging'') (snd s1))"
  show "case r of Inl e \<Rightarrow> guarded vol dir b now (snd s1)
    | Inr x \<Rightarrow> after (bind_cmd (capture (logged dk) (snapshot_argv vol dir now))
        (\<lambda>_. switch (logged dk) vol (vol @ ''-restore-staging'') dir now)) s1 (\<lambda>r s'. guarded vol dir b now (snd s'))"
  proof (cases r)
    case (Inr u)
    with r show ?thesis
      by (simp, intro steps) (auto simp: permittedI not_writes saved_def intro!: switch_run)
  qed (use r in simp)
qed

lemma check_listings_run:
  assumes "guarded vol dir ib now (snd s)"
  shows "after (check_listings (logged dk) vol dir ib) s
    (\<lambda>r s'. guarded vol dir ib now (snd s') \<and> (r = Inr () \<longrightarrow> archive_checked vol dir ib (snd s')))"
  unfolding check_listings_def
proof (intro steps)
  fix l v and s1 s2 :: "'a \<times> log"
  assume "snd s1 = (alpine_tar vol dir [''tzf'', ib], Inr l) # snd s" "snd s2 = (alpine_tar vol dir [''tzvf'', ib], Inr v) # snd s1"
  then show "after (\<lambda>w. (check_archive (trim_str l) (trim_str v), w)) s2
    (\<lambda>r s'. guarded vol dir ib now (snd s') \<and> (r = Inr () \<longrightarrow> archive_checked vol dir ib (snd s')))"
    using assms by (auto simp: after_def permittedI not_writes archive_checked_def)
qed (use assms in \<open>auto simp: permittedI not_writes\<close>)

lemma after_case: "after f s (\<lambda>r s1. after (k r) s1 Q) \<Longrightarrow> after (\<lambda>s. case f s of (r, s1) \<Rightarrow> k r s1) s Q"
  by (simp add: after_def case_prod_beta)

lemma prepare_staging_run:
  "after (prepare_staging (logged dk) vol st) s
     (\<lambda>r s'. \<exists>q1 q2 q3. snd s' = (inspect_argv vol, q1) # snd s \<and> isl r \<or>
        snd s' = (volume_create st, q3) # (volume_rm st, q2) # (inspect_argv vol, q1) # snd s)"
  unfolding prepare_staging_def by (intro steps) auto

lemma while_stopped_run:
  assumes "\<And>out s1. snd s1 = (compose_argv repo ''stop'' project, Inr out) # snd s \<Longrightarrow> after f s1 (\<lambda>r s2. P r (snd s2))"
  shows "after (while_stopped (logged dk) repo project st f) s
    (\<lambda>r s'. (\<exists>e. r = Inl e \<and> snd s' = (compose_argv repo ''stop'' project, Inl e) # snd s) \<or>
       (\<exists>result l q1 q2. P result l \<and> snd s' = (compose_argv repo ''start'' project, q2) # (volume_rm st, q1) # l \<and>
          r = (case q2 of Inl e \<Rightarrow> Inl e | Inr _ \<Rightarrow> result)))"
proof -
  obtain q s1 where q: "logged dk (compose_argv repo ''stop'' project) s = (q, s1)"
    "snd s1 = (compose_argv repo ''stop'' project, q) # snd s" using logged_step by blast
  show ?thesis
  proof (cases q)
    case (Inl e)
    with q show ?thesis by (simp add: cmd_defs while_stopped_def)
  next
    case (Inr out)
    obtain result s2 where f: "f s1 = (result, s2)" by (cases "f s1")
    obtain q1 s3 where q1: "logged dk (volume_rm st) s2 = (q1, s3)" "snd s3 = (volume_rm st, q1) # snd s2" using logged_step by blast
    obtain q2 s4 where q2: "logged dk (compose_argv repo ''start'' project) s3 = (q2, s4)"
      "snd s4 = (compose_argv repo ''start'' project, q2) # snd s3" using logged_step by blast
    have "P result (snd s2)" using assms [of s1 out] q f Inr by (simp add: after_def)
    moreover have "while_stopped (logged dk) repo project st f s = (case q2 of Inl e \<Rightarrow> Inl e | Inr _ \<Rightarrow> result, s4)"
      using q Inr f q1 q2 by (cases q1; cases q2) (simp_all add: cmd_defs while_stopped_def)
    ultimately show ?thesis using q1 q2 by (auto simp: after_def)
  qed
qed

lemma restore_guarded:
  assumes "guarded (volume project) dir (''/backup/'' @ name) now (snd s)"
  shows "after (restore (logged dk) repo project dir name now) s
    (\<lambda>r s'. guarded (volume project) dir (''/backup/'' @ name) now (snd s'))"
proof -
  define b where "b = ''/backup/'' @ name"
  let ?v = "volume project"
  let ?st = "?v @ ''-restore-staging''"
  have stopped: "after (while_stopped (logged dk) repo project ?st (staged_restore (logged dk) ?v ?st dir b now)) s1
      (\<lambda>r s'. guarded ?v dir b now (snd s'))" if "guarded ?v dir b now (snd s1)" "archive_checked ?v dir b (snd s1)" for s1
  proof (rule after_mono [OF while_stopped_run [where P = "\<lambda>r l. guarded ?v dir b now l"]])
    fix out and s2 :: "'a \<times> log"
    assume "snd s2 = (compose_argv repo ''stop'' project, Inr out) # snd s1"
    with that show "after (staged_restore (logged dk) ?v ?st dir b now) s2 (\<lambda>r s2. guarded ?v dir b now (snd s2))"
      by (intro staged_restore_run) (simp_all add: permittedI)
  qed (use that in \<open>auto simp: permittedI not_writes\<close>)
  have prepared: "after (bind_cmd (prepare_staging (logged dk) ?v ?st)
      (\<lambda>_. while_stopped (logged dk) repo project ?st (staged_restore (logged dk) ?v ?st dir b now))) s1
      (\<lambda>r s'. guarded ?v dir b now (snd s'))" if "guarded ?v dir b now (snd s1)" "archive_checked ?v dir b (snd s1)" for s1
    by (rule after_bind, rule after_mono [OF prepare_staging_run])
       (use that in \<open>auto simp: permittedI not_writes intro!: stopped split: sum.splits\<close>)
  show ?thesis
    unfolding restore_def Let_def b_def [symmetric]
    by (rule after_bind, rule after_mono [OF check_listings_run [OF assms [folded b_def]]]) (auto intro!: prepared split: sum.splits)
qed

section \<open>How a restore ends\<close>

definition untouched :: "string \<Rightarrow> string \<Rightarrow> nat \<Rightarrow> log \<Rightarrow> bool" where
  "untouched vol dir now log \<longleftrightarrow> (\<forall>(argv, q) \<in> set log. argv \<noteq> integrity_argv vol \<and> argv \<noteq> rollback_argv vol dir now)"

definition outcome :: "string \<Rightarrow> string \<Rightarrow> string \<Rightarrow> nat \<Rightarrow> string + unit \<Rightarrow> log \<Rightarrow> bool" where
  "outcome vol st dir now r log \<longleftrightarrow>
     (r = Inr () \<longrightarrow> (\<exists>c out rest. log = (integrity_argv vol, Inr out) # (copy_argv st vol, Inr c) # rest \<and> trim_str (trim_str out) = ''ok'')) \<and>
     (\<forall>out. (integrity_argv vol, Inr out) \<in> set log \<and> trim_str (trim_str out) \<noteq> ''ok'' \<longrightarrow>
        isl r \<and> rollback_argv vol dir now \<notin> fst ` set log)"

lemma argv_neq:
  "integrity_argv (vol @ ''-restore-staging'') \<noteq> integrity_argv vol" "key_argv (vol @ ''-restore-staging'') \<noteq> integrity_argv vol"
  "alpine_tar_ro st dir a \<noteq> integrity_argv vol" "alpine_tar vol dir a \<noteq> integrity_argv vol" "alpine vol dir c \<noteq> integrity_argv vol"
  "copy_argv st vol \<noteq> integrity_argv vol" "compose_argv repo c p \<noteq> integrity_argv vol" "inspect_argv vol \<noteq> integrity_argv vol"
  "volume_rm st \<noteq> integrity_argv vol" "volume_create st \<noteq> integrity_argv vol" "snapshot_argv vol dir now \<noteq> integrity_argv vol"
  "rollback_argv vol dir now \<noteq> integrity_argv vol"
  "integrity_argv st \<noteq> rollback_argv vol dir now" "key_argv st \<noteq> rollback_argv vol dir now"
  "alpine_tar_ro st dir a \<noteq> rollback_argv vol dir now" "alpine vol dir c \<noteq> rollback_argv vol dir now"
  "copy_argv st vol \<noteq> rollback_argv vol dir now" "compose_argv repo c p \<noteq> rollback_argv vol dir now"
  "inspect_argv vol \<noteq> rollback_argv vol dir now" "volume_rm st \<noteq> rollback_argv vol dir now"
  "volume_create st \<noteq> rollback_argv vol dir now" "snapshot_argv vol dir now \<noteq> rollback_argv vol dir now"
  "alpine_tar vol dir (''tzf'' # a) \<noteq> rollback_argv vol dir now" "alpine_tar vol dir (''tzvf'' # a) \<noteq> rollback_argv vol dir now"
  by (simp_all add: argv_defs)

lemma check_staging_untouched:
  assumes "untouched vol dir now (snd s)"
  shows "after (check_staging (logged dk) (vol @ ''-restore-staging'') dir ib) s (\<lambda>r s'. untouched vol dir now (snd s'))"
  using assms unfolding check_staging_def by (intro steps) (simp_all add: untouched_def argv_neq)

lemma untouched_outcome: "untouched vol dir now log \<Longrightarrow> isl r \<Longrightarrow> outcome vol st dir now r log"
  by (auto simp: untouched_def outcome_def)

lemma switch_outcome:
  assumes "untouched vol dir now (snd s)"
  shows "after (switch (logged dk) vol (vol @ ''-restore-staging'') dir now) s
    (\<lambda>r s'. outcome vol (vol @ ''-restore-staging'') dir now r (snd s'))"
  using assms unfolding switch_def
  by (intro steps; (simp only: sum.case)?; (intro steps)?)
     (auto simp: outcome_def untouched_def argv_neq argv_neq [symmetric])

lemma staged_restore_outcome:
  assumes "untouched vol dir now (snd s)"
  shows "after (staged_restore (logged dk) vol (vol @ ''-restore-staging'') dir ib now) s
    (\<lambda>r s'. outcome vol (vol @ ''-restore-staging'') dir now r (snd s'))"
  unfolding staged_restore_def
proof (rule after_bind, rule after_mono [OF check_staging_untouched [OF assms]])
  fix r :: "string + unit" and s1 :: "'a \<times> log"
  assume r: "untouched vol dir now (snd s1)"
  show "case r of Inl e \<Rightarrow> outcome vol (vol @ ''-restore-staging'') dir now (Inl e) (snd s1)
    | Inr x \<Rightarrow> after (bind_cmd (capture (logged dk) (snapshot_argv vol dir now))
        (\<lambda>_. switch (logged dk) vol (vol @ ''-restore-staging'') dir now)) s1
        (\<lambda>r s'. outcome vol (vol @ ''-restore-staging'') dir now r (snd s'))"
    using r by (cases r; simp add: untouched_outcome; intro steps)
      (auto simp: untouched_def argv_neq intro!: untouched_outcome switch_outcome)
qed

text \<open>Keeping the log changes nothing else.\<close>

definition same_run :: "('w \<times> log \<Rightarrow> (string + 'a) \<times> 'w \<times> log) \<Rightarrow> ('w \<Rightarrow> (string + 'a) \<times> 'w) \<Rightarrow> bool" where
  "same_run f g \<longleftrightarrow> (\<forall>s. fst (f s) = fst (g (fst s)) \<and> fst (snd (f s)) = snd (g (fst s)))"

named_theorems runs

lemma same_run_logged [runs]: "same_run (logged dk argv) (dk argv)"
  by (simp add: same_run_def logged_def case_prod_beta)

lemma same_run_pure [runs]: "same_run (\<lambda>s. (x, s)) (\<lambda>w. (x, w))" "same_run (ensure ok msg) (ensure ok msg)"
  by (simp_all add: same_run_def ensure_def)

lemma same_run_case [runs]:
  "same_run f g \<Longrightarrow> (\<And>r. same_run (k r) (l r)) \<Longrightarrow>
     same_run (\<lambda>s. case f s of (r, s1) \<Rightarrow> k r s1) (\<lambda>w. case g w of (r, w1) \<Rightarrow> l r w1)"
  by (simp add: same_run_def case_prod_beta) (metis prod.collapse)

lemma same_run_sum [runs]:
  "(\<And>e. same_run (a e) (a' e)) \<Longrightarrow> (\<And>x. same_run (b x) (b' x)) \<Longrightarrow>
     same_run (case r of Inl e \<Rightarrow> a e | Inr x \<Rightarrow> b x) (case r of Inl e \<Rightarrow> a' e | Inr x \<Rightarrow> b' x)"
  by (cases r) simp_all

lemma bind_cmd_alt: "bind_cmd f k = (\<lambda>w. case f w of (r, w1) \<Rightarrow> (case r of Inl e \<Rightarrow> (\<lambda>w. (Inl e, w)) | Inr x \<Rightarrow> k x) w1)"
  by (rule ext) (simp add: bind_cmd_def split: prod.splits sum.splits)

lemma same_run_bind [runs]:
  "same_run f g \<Longrightarrow> (\<And>x. same_run (k x) (l x)) \<Longrightarrow> same_run (bind_cmd f k) (bind_cmd g l)"
  unfolding bind_cmd_alt by (intro same_run_case same_run_sum same_run_pure)

lemma same_run_cmds [runs]:
  "same_run (run_cmd (logged dk) argv) (run_cmd dk argv)" "same_run (capture (logged dk) argv) (capture dk argv)"
  unfolding run_cmd_def capture_def by (intro runs)+

lemma same_run_expect [runs]: "same_run (expect_volume (logged dk) vol) (expect_volume dk vol)"
  by (auto simp: same_run_def expect_volume_def logged_def split: prod.splits sum.splits)

lemma same_run_restore: "same_run (restore (logged dk) repo project dir name now) (restore dk repo project dir name now)"
  unfolding restore_def Let_def check_listings_def prepare_staging_def while_stopped_def staged_restore_def check_staging_def
    switch_def
  by (intro runs)

lemma restore_logged:
  obtains log where "restore (logged dk) repo project dir name now (w, []) =
    (fst (restore dk repo project dir name now w), snd (restore dk repo project dir name now w), log)"
proof -
  obtain r w' log where "restore (logged dk) repo project dir name now (w, []) = (r, w', log)"
    by (cases "restore (logged dk) repo project dir name now (w, [])") auto
  with same_run_restore [of dk repo project dir name now] that show thesis by (simp add: same_run_def) (metis fst_conv snd_conv)
qed

text \<open>The log of a whole restore: either the services have not been stopped, or the log ends with their
  start.\<close>

lemma stop_neq:
  "inspect_argv vol \<noteq> compose_argv repo c p" "alpine_tar vol dir a \<noteq> compose_argv repo c p"
  "volume_rm st \<noteq> compose_argv repo c p" "volume_create st \<noteq> compose_argv repo c p"
  by (simp_all add: argv_defs)

definition not_stopped :: "string \<Rightarrow> string \<Rightarrow> log \<Rightarrow> bool" where
  "not_stopped repo project log \<longleftrightarrow> (\<forall>(argv, q) \<in> set log. argv = compose_argv repo ''stop'' project \<longrightarrow> isl q)"

lemma check_listings_log:
  assumes "untouched vol dir now (snd s)" "not_stopped repo project (snd s)"
  shows "after (check_listings (logged dk) vol dir ib) s (\<lambda>r s'. untouched vol dir now (snd s') \<and> not_stopped repo project (snd s'))"
  unfolding check_listings_def
proof (intro steps)
  fix l v and s1 s2 :: "'a \<times> log"
  assume "snd s1 = (alpine_tar vol dir [''tzf'', ib], Inr l) # snd s" "snd s2 = (alpine_tar vol dir [''tzvf'', ib], Inr v) # snd s1"
  then show "after (\<lambda>w. (check_archive (trim_str l) (trim_str v), w)) s2
    (\<lambda>r s'. untouched vol dir now (snd s') \<and> not_stopped repo project (snd s'))"
    using assms by (auto simp: after_def untouched_def not_stopped_def argv_neq stop_neq)
qed (use assms in \<open>auto simp: untouched_def not_stopped_def argv_neq stop_neq\<close>)

definition ended :: "string \<Rightarrow> string \<Rightarrow> string \<Rightarrow> nat \<Rightarrow> string + unit \<Rightarrow> log \<Rightarrow> bool" where
  "ended repo project dir now r log \<longleftrightarrow>
     not_stopped repo project log \<and> untouched (volume project) dir now log \<and> isl r \<or>
     (\<exists>result l q1 q2. outcome (volume project) (volume project @ ''-restore-staging'') dir now result l \<and>
        log = (compose_argv repo ''start'' project, q2) # (volume_rm (volume project @ ''-restore-staging''), q1) # l \<and>
        r = (case q2 of Inl e \<Rightarrow> Inl e | Inr _ \<Rightarrow> result))"

lemma ended_early: "not_stopped repo project log \<Longrightarrow> untouched (volume project) dir now log \<Longrightarrow> isl r \<Longrightarrow> ended repo project dir now r log"
  by (simp add: ended_def)

lemma ended_late:
  "outcome (volume project) (volume project @ ''-restore-staging'') dir now result l \<Longrightarrow>
     ended repo project dir now (case q2 of Inl e \<Rightarrow> Inl e | Inr _ \<Rightarrow> result)
       ((compose_argv repo ''start'' project, q2) # (volume_rm (volume project @ ''-restore-staging''), q1) # l)"
  unfolding ended_def by blast

lemma ended_cases:
  assumes "ended repo project dir now r log"
  obtains (early) "not_stopped repo project log" "untouched (volume project) dir now log" "isl r"
  | (late) result l q1 q2 where "outcome (volume project) (volume project @ ''-restore-staging'') dir now result l"
      "log = (compose_argv repo ''start'' project, q2) # (volume_rm (volume project @ ''-restore-staging''), q1) # l"
      "r = (case q2 of Inl e \<Rightarrow> Inl e | Inr _ \<Rightarrow> result)"
  using assms unfolding ended_def by blast

lemma restore_log:
  assumes "restore (logged dk) repo project dir name now (w, []) = (r, w', log)"
  shows "ended repo project dir now r log"
proof -
  define b where "b = ''/backup/'' @ name"
  let ?v = "volume project"
  let ?st = "?v @ ''-restore-staging''"
  let ?E = "\<lambda>r s'. ended repo project dir now r (snd s')"
  have stopped: "after (while_stopped (logged dk) repo project ?st (staged_restore (logged dk) ?v ?st dir b now)) s1 ?E"
    if "untouched ?v dir now (snd s1)" "not_stopped repo project (snd s1)" for s1
  proof (rule after_mono [OF while_stopped_run [where P = "outcome ?v ?st dir now"]])
    fix out and s2 :: "'a \<times> log"
    assume "snd s2 = (compose_argv repo ''stop'' project, Inr out) # snd s1"
    with that show "after (staged_restore (logged dk) ?v ?st dir b now) s2 (\<lambda>r s2. outcome ?v ?st dir now r (snd s2))"
      by (intro staged_restore_outcome) (simp add: untouched_def argv_neq)
  next
    fix r :: "string + unit" and s2 :: "'a \<times> log"
    assume "(\<exists>e. r = Inl e \<and> snd s2 = (compose_argv repo ''stop'' project, Inl e) # snd s1) \<or>
      (\<exists>result l q1 q2. outcome ?v ?st dir now result l \<and> snd s2 = (compose_argv repo ''start'' project, q2) # (volume_rm ?st, q1) # l \<and>
         r = (case q2 of Inl e \<Rightarrow> Inl e | Inr _ \<Rightarrow> result))"
    then show "ended repo project dir now r (snd s2)"
    proof (elim disjE exE conjE)
      fix e
      assume e: "r = Inl e" "snd s2 = (compose_argv repo ''stop'' project, Inl e) # snd s1"
      show ?thesis
        by (rule ended_early) (use that e in \<open>simp_all add: untouched_def not_stopped_def argv_neq\<close>)
    qed (simp add: ended_late)
  qed
  have prepared: "after (bind_cmd (prepare_staging (logged dk) ?v ?st)
      (\<lambda>_. while_stopped (logged dk) repo project ?st (staged_restore (logged dk) ?v ?st dir b now))) s1 ?E"
    if "untouched ?v dir now (snd s1)" "not_stopped repo project (snd s1)" for s1
    by (rule after_bind, rule after_mono [OF prepare_staging_run])
       (use that in \<open>auto simp: untouched_def not_stopped_def argv_neq stop_neq intro!: stopped ended_early split: sum.splits\<close>)
  have "after (restore (logged dk) repo project dir name now) (w, []) ?E"
    unfolding restore_def Let_def b_def [symmetric]
    by (rule after_bind, rule after_mono [OF check_listings_log [where vol = ?v and dir = dir and now = now and repo = repo and project = project]])
       (auto simp: untouched_def not_stopped_def intro!: prepared ended_early split: sum.splits)
  with assms show ?thesis by (simp add: after_def)
qed

section \<open>Where entries of an archive go\<close>

lemma walk_down: "''..'' \<notin> set segs \<Longrightarrow> walk here segs = here @ filter (\<lambda>s. s \<noteq> [] \<and> s \<noteq> ''.'') segs"
  by (induction segs arbitrary: here) auto

lemma walk_trim: "walk here (split_on (CHR ''/'') (trim_dot_slash e)) = walk here (split_on (CHR ''/'') e)"
  by (induction e rule: trim_dot_slash.induct) auto

lemma safe_entry_below:
  assumes "\<not> unsafe_entry e"
  shows "\<exists>ss. place (path_join ''/data'' e) = ''data'' # ss"
proof -
  have "place (path_join ''/data'' e) = walk [''data''] (split_on (CHR ''/'') (trim_dot_slash e))"
    by (simp add: place_def walk_join walk_trim)
  with assms show ?thesis by (simp add: unsafe_entry_def walk_down)
qed

lemma first_missing_none: "first_missing lines rs = None \<longleftrightarrow> set rs \<subseteq> trim_dot_slash ` set lines"
  by (induction rs) auto

section \<open>Properties\<close>

text \<open>C13: A restore does not touch the live data before everything has been checked and saved. Whatever
  docker answers, and whichever step fails: a command that may write the data volume is run only
  after the archive's listings have passed the checks, the unpacked database and master key have
  been found sound in the staging volume, and the live volume has been packed into the rollback
  archive; only stopping and starting the services needs none of that. (The log is the record of
  the commands of the run, the newest first; keeping it does not change the run.)\<close>

theorem restore_checks_first:
  "\<exists>log. restore (logged dk) repo project dir name now (w, []) =
      (fst (restore dk repo project dir name now w), snd (restore dk repo project dir name now w), log) \<and>
    guarded (volume project) dir (''/backup/'' @ name) now log"
proof -
  obtain log where "restore (logged dk) repo project dir name now (w, []) =
      (fst (restore dk repo project dir name now w), snd (restore dk repo project dir name now w), log)"
    by (rule restore_logged)
  with restore_guarded [of project dir name now "(w, [])" dk repo] show ?thesis by (simp add: after_def)
qed

text \<open>How a restore ends. Once the services have been stopped, starting them is the last command
  that is run. A restore that reports success has copied the staged data over the live volume,
  has found the live database sound afterwards, and has started the services.\<close>

theorem restore_ends:
  assumes "restore (logged dk) repo project dir name now (w, []) = (r, w', log)"
  shows "((compose_argv repo ''stop'' project, Inr out) \<in> set log \<longrightarrow> fst (hd log) = compose_argv repo ''start'' project) \<and>
    (r = Inr () \<longrightarrow>
       (\<exists>c out u. (copy_argv (volume project @ ''-restore-staging'') (volume project), Inr c) \<in> set log \<and>
          (integrity_argv (volume project), Inr out) \<in> set log \<and> trim_str (trim_str out) = ''ok'' \<and>
          hd log = (compose_argv repo ''start'' project, Inr u)))"
  using restore_log [OF assms]
proof (cases rule: ended_cases)
  case early
  then show ?thesis by (auto simp: not_stopped_def)
next
  case (late result l q1 q2)
  then show ?thesis by (cases q2) (auto simp: outcome_def)
qed

text \<open>C18: A restore that has damaged the live data starts the services on it. If the database is found
  unsound after the copy, the restore reports an error, but it does not unpack the rollback
  archive, and the last command is the start of the services.\<close>

theorem corrupt_restore_started:
  assumes "restore (logged dk) repo project dir name now (w, []) = (r, w', log)"
    and "(integrity_argv (volume project), Inr out) \<in> set log" and "trim_str (trim_str out) \<noteq> ''ok''"
  shows "isl r \<and> rollback_argv (volume project) dir now \<notin> fst ` set log \<and> fst (hd log) = compose_argv repo ''start'' project"
  using restore_log [OF assms(1)]
proof (cases rule: ended_cases)
  case early
  with assms(2) show ?thesis by (auto simp: untouched_def)
next
  case (late result l q1 q2)
  have n: "compose_argv repo ''start'' project \<noteq> integrity_argv (volume project)"
    "volume_rm (volume project @ ''-restore-staging'') \<noteq> integrity_argv (volume project)"
    "compose_argv repo ''start'' project \<noteq> rollback_argv (volume project) dir now"
    "volume_rm (volume project @ ''-restore-staging'') \<noteq> rollback_argv (volume project) dir now" by (rule argv_neq)+
  with late(2) assms(2) have "(integrity_argv (volume project), Inr out) \<in> set l" by auto
  with late(1) assms(3) have "isl result" "rollback_argv (volume project) dir now \<notin> fst ` set l" by (auto simp: outcome_def)
  with late n show ?thesis by (cases q2) auto
qed

text \<open>C31: What the checks on an archive mean. Every entry of an accepted archive is unpacked below
  \<open>/data\<close>: walking its path from there never leaves the directory. No entry is listed as a symbolic
  or hard link, and the database and the master key are among the entries.\<close>

theorem accepted_archive_confined:
  assumes "check_archive listing verbose = Inr ()"
  shows "list_all (\<lambda>e. \<not> starts_with ''/'' e \<and> (\<exists>ss. place (path_join ''/data'' e) = ''data'' # ss)) (str_lines listing) \<and>
    list_all (\<lambda>l. \<not> link_line l) (str_lines verbose) \<and>
    {''warpdeck.db'', ''master.key''} \<subseteq> trim_dot_slash ` set (str_lines listing)"
proof -
  have "find unsafe_entry (str_lines listing) = None" "find link_line (str_lines verbose) = None"
    and required: "first_missing (str_lines listing) [''warpdeck.db'', ''master.key''] = None"
    using assms by (auto simp: check_archive_def simp del: first_missing.simps split: option.splits)
  then have "\<forall>e \<in> set (str_lines listing). \<not> unsafe_entry e" "\<forall>l \<in> set (str_lines verbose). \<not> link_line l"
    by (auto simp: find_None_iff)
  moreover have "unsafe_entry e" if "starts_with ''/'' e" for e using that by (simp add: unsafe_entry_def)
  ultimately show ?thesis
    using required [unfolded first_missing_none] by (auto simp: list_all_iff safe_entry_below)
qed

theorem accepted_archive_confined_witness:
  "\<exists>ss. place (path_join ''/data'' ''./././warpdeck.db'') = ''data'' # ss"
proof -
  have "check_archive (''./././warpdeck.db'' @ [CHR 0x0A] @ ''./master.key'') ''-rw-r--r-- 0/0 ./master.key'' = Inr ()"
    by code_simp
  note ok = this
  have lines: "str_lines (''./././warpdeck.db'' @ [CHR 0x0A] @ ''./master.key'') = [''./././warpdeck.db'', ''./master.key'']" by code_simp
  from accepted_archive_confined [OF ok, THEN conjunct1]
  have "list_all (\<lambda>e. \<not> starts_with ''/'' e \<and> (\<exists>ss. place (path_join ''/data'' e) = ''data'' # ss)) [''./././warpdeck.db'', ''./master.key'']"
    unfolding lines .
  then show ?thesis by simp
qed

text \<open>A docker whose archive is in order and whose live database is found to be \<open>db\<close> after the copy.\<close>

definition sample_docker :: "string \<Rightarrow> unit docker" where
  "sample_docker db argv w =
     (Inr (if argv = alpine_tar (volume ''p'') ''/b'' [''tzf'', ''/backup/a.tar.gz''] then ''warpdeck.db'' @ CHR 0x0A # ''master.key''
           else if argv = integrity_argv (volume ''p'') then db
           else if argv = integrity_argv (volume ''p'' @ ''-restore-staging'') then ''ok''
           else if argv = key_argv (volume ''p'' @ ''-restore-staging'') then ''32'' else []), w)"

lemma sample_archive:
  "check_archive (trim_str (''warpdeck.db'' @ CHR 0x0A # ''master.key'')) (trim_str []) = Inr ()"
  by code_simp

lemma sample_ok: "trim_str ''ok'' = ''ok''" "trim_str ''32'' = ''32''" "trim_str ''bad'' = ''bad''"
  by code_simp+

lemmas sample_run = restore_def Let_def check_listings_def prepare_staging_def while_stopped_def staged_restore_def check_staging_def
  switch_def cmd_defs logged_def sample_docker_def argv_defs volume_def wipe_script_def sample_ok

lemma sample_good:
  "\<exists>l. restore (logged (sample_docker ''ok'')) ''/r'' ''p'' ''/b'' ''a.tar.gz'' 0 ((), []) = (Inr (), (), l) \<and>
     (compose_argv ''/r'' ''stop'' ''p'', Inr []) \<in> set l"
  using sample_archive by (simp add: sample_run)

lemma sample_bad:
  "\<exists>l. restore (logged (sample_docker ''bad'')) ''/r'' ''p'' ''/b'' ''a.tar.gz'' 0 ((), []) =
       (Inl (''post-copy sqlite integrity_check failed: bad''), (), l) \<and>
     (integrity_argv (volume ''p''), Inr ''bad'') \<in> set l"
  using sample_archive by (simp add: sample_run)

theorem restore_ends_witness:
  "\<exists>log. restore (logged (sample_docker ''ok'')) ''/r'' ''p'' ''/b'' ''a.tar.gz'' 0 ((), []) = (Inr (), (), log) \<and>
     (\<exists>u. hd log = (compose_argv ''/r'' ''start'' ''p'', Inr u)) \<and>
     (\<exists>c. (copy_argv (volume ''p'' @ ''-restore-staging'') (volume ''p''), Inr c) \<in> set log)"
proof -
  obtain log where log: "restore (logged (sample_docker ''ok'')) ''/r'' ''p'' ''/b'' ''a.tar.gz'' 0 ((), []) = (Inr (), (), log)"
    using sample_good by blast
  from restore_ends [OF log] log show ?thesis by blast
qed

theorem corrupt_restore_started_witness:
  "\<exists>e log. restore (logged (sample_docker ''bad'')) ''/r'' ''p'' ''/b'' ''a.tar.gz'' 0 ((), []) = (Inl e, (), log) \<and>
     rollback_argv (volume ''p'') ''/b'' 0 \<notin> fst ` set log \<and> fst (hd log) = compose_argv ''/r'' ''start'' ''p''"
proof -
  obtain log where log: "restore (logged (sample_docker ''bad'')) ''/r'' ''p'' ''/b'' ''a.tar.gz'' 0 ((), []) =
      (Inl ''post-copy sqlite integrity_check failed: bad'', (), log)"
    and "(integrity_argv (volume ''p''), Inr ''bad'') \<in> set log"
    using sample_bad by blast
  moreover have "trim_str (trim_str ''bad'') \<noteq> ''ok''" by (simp add: sample_ok)
  ultimately show ?thesis using corrupt_restore_started [OF log] by blast
qed

end
