(* ===== verification/Process.thy ===== *)
theory Process
  imports Logs Lifecycle
begin

text \<open>
  Child processes and the files that logs are written to: \<open>src/runtime/process.rs\<close> (how a child's
  output is set up, the pumps that write it to a file, and the handle of a running child) and
  \<open>src/observability/file_logger.rs\<close> (the manager's own log). Files are a map from paths to contents.
  Opening a file, starting a child and the operations on a running child are the operating system's
  and come as arguments.
\<close>

section \<open>Files\<close>

type_synonym files = "string \<Rightarrow> bytes option"

text \<open>\<open>denied\<close> gives the error of a path that cannot be opened for writing. A file that is created anew
  is emptied; one that is opened for appending is created when it is missing.\<close>

definition open_truncate :: "(string \<Rightarrow> string option) \<Rightarrow> string \<Rightarrow> files \<Rightarrow> (string + unit) \<times> files" where
  "open_truncate denied path fs = (case denied path of Some e \<Rightarrow> (Inl e, fs) | None \<Rightarrow> (Inr (), fs(path \<mapsto> [])))"

definition contents :: "files \<Rightarrow> string \<Rightarrow> bytes" where
  "contents fs path = (case fs path of None \<Rightarrow> [] | Some b \<Rightarrow> b)"

definition open_append :: "(string \<Rightarrow> string option) \<Rightarrow> string \<Rightarrow> files \<Rightarrow> (string + unit) \<times> files" where
  "open_append denied path fs =
     (case denied path of Some e \<Rightarrow> (Inl e, fs) | None \<Rightarrow> (Inr (), fs(path \<mapsto> contents fs path)))"

definition append_to :: "string \<Rightarrow> bytes \<Rightarrow> files \<Rightarrow> files" where
  "append_to path b fs = fs(path \<mapsto> contents fs path @ b)"

section \<open>Building a command\<close>

definition command_simple :: "string \<Rightarrow> spawn_command" where
  "command_simple program =
     \<lparr>sc_program = program, sc_args = [], sc_envs = [], sc_stderr_log = None, sc_stdout_log = None\<rparr>"

definition with_args :: "string list \<Rightarrow> spawn_command \<Rightarrow> spawn_command" where
  "with_args args cmd = cmd\<lparr>sc_args := args\<rparr>"

definition with_env :: "string \<Rightarrow> string \<Rightarrow> spawn_command \<Rightarrow> spawn_command" where
  "with_env key val cmd = cmd\<lparr>sc_envs := sc_envs cmd @ [(key, val)]\<rparr>"

definition with_stderr_log :: "string \<Rightarrow> spawn_command \<Rightarrow> spawn_command" where
  "with_stderr_log path cmd = cmd\<lparr>sc_stderr_log := Some path\<rparr>"

definition with_stdout_log :: "string \<Rightarrow> spawn_command \<Rightarrow> spawn_command" where
  "with_stdout_log path cmd = cmd\<lparr>sc_stdout_log := Some path\<rparr>"

section \<open>Starting a child\<close>

datatype stdio = Inherited | Piped

datatype pump_target = PumpStdout | PumpStderr

text \<open>\<open>so_clone\<close> is the error of duplicating the file's handle, \<open>so_start\<close> the start of the child itself.\<close>

record spawn_os =
  so_denied :: "string \<Rightarrow> string option"
  so_clone :: "string option"
  so_start :: "spawn_command \<Rightarrow> stdio \<Rightarrow> stdio \<Rightarrow> string + pid"

definition merged_logs :: "spawn_command \<Rightarrow> bool" where
  "merged_logs cmd \<longleftrightarrow> sc_stdout_log cmd \<noteq> None \<and> sc_stdout_log cmd = sc_stderr_log cmd"

text \<open>The file that is opened, and the pumps with the path they write to.\<close>

definition open_output :: "spawn_os \<Rightarrow> spawn_command \<Rightarrow> string \<Rightarrow> files \<Rightarrow> (string + unit) \<times> files" where
  "open_output os cmd path fs =
     (case open_truncate (so_denied os) path fs of
        (Inl e, fs1) \<Rightarrow> (Inl e, fs1)
      | (Inr _, fs1) \<Rightarrow> if merged_logs cmd then open_append (so_denied os) path fs1 else (Inr (), fs1))"

definition plan_pumps :: "spawn_os \<Rightarrow> spawn_command \<Rightarrow> string \<Rightarrow> string + (pump_target \<times> string) list" where
  "plan_pumps os cmd path =
     (case (if sc_stdout_log cmd = None then Inr []
            else case so_clone os of Some e \<Rightarrow> Inl e | None \<Rightarrow> Inr [(PumpStdout, path)]) of
        Inl e \<Rightarrow> Inl e
      | Inr pipes \<Rightarrow> Inr (pipes @ (if sc_stderr_log cmd = None then [] else [(PumpStderr, path)])))"

definition stdio_of :: "string option \<Rightarrow> stdio" where
  "stdio_of log = (case log of None \<Rightarrow> Inherited | Some _ \<Rightarrow> Piped)"

definition start_child :: "spawn_os \<Rightarrow> spawn_command \<Rightarrow> (pump_target \<times> string) list \<Rightarrow> string + pid \<times> (pump_target \<times> string) list" where
  "start_child os cmd pipes =
     (case so_start os cmd (stdio_of (sc_stdout_log cmd)) (stdio_of (sc_stderr_log cmd)) of
        Inl e \<Rightarrow> Inl e
      | Inr p \<Rightarrow> Inr (p, pipes))"

definition spawn_process :: "spawn_os \<Rightarrow> spawn_command \<Rightarrow> files \<Rightarrow> (string + pid \<times> (pump_target \<times> string) list) \<times> files" where
  "spawn_process os cmd fs =
     (case (case sc_stdout_log cmd of Some path \<Rightarrow> Some path | None \<Rightarrow> sc_stderr_log cmd) of
        None \<Rightarrow> (start_child os cmd [], fs)
      | Some path \<Rightarrow>
          (case open_output os cmd path fs of
             (Inl e, fs1) \<Rightarrow> (Inl e, fs1)
           | (Inr _, fs1) \<Rightarrow>
               (case plan_pumps os cmd path of
                  Inl e \<Rightarrow> (Inl e, fs1)
                | Inr pipes \<Rightarrow> (start_child os cmd pipes, fs1))))"

section \<open>The output of a child\<close>

text \<open>The writes of one pump, in order. \<open>writeln!\<close> on a file without a buffer makes two of each line:
  the text, and the line feed.\<close>

definition line_writes :: "patterns \<Rightarrow> bytes \<Rightarrow> bytes list" where
  "line_writes rx l = filter (\<lambda>b. b \<noteq> []) [scrub_line rx (from_utf8_lossy l), [CHR 0x0A]]"

function pump_writes :: "patterns \<Rightarrow> bytes \<Rightarrow> bytes list" where
  "pump_writes rx stream =
     (if stream = [] then []
      else (case split_once (CHR 0x0A) stream of
              Some (l, rest) \<Rightarrow> line_writes rx (strip_cr l) @ pump_writes rx rest
            | None \<Rightarrow> line_writes rx stream))"
  by pat_completeness auto
termination
  by (relation "measure (\<lambda>(rx, s). length s)") (auto simp: split_once_Some)

declare pump_writes.simps [simp del]

definition target_writes :: "patterns \<Rightarrow> (pump_target \<times> string) list \<Rightarrow> pump_target \<Rightarrow> bytes \<Rightarrow> bytes list" where
  "target_writes rx pipes t stream = (if t \<in> fst ` set pipes then pump_writes rx stream else [])"

text \<open>The pumps are tasks of their own: their writes to the file come in any order that keeps each
  pump's. \<open>ws\<close> is the order of a run.\<close>

definition after_output :: "(pump_target \<times> string) list \<Rightarrow> bytes list \<Rightarrow> files \<Rightarrow> files" where
  "after_output pipes ws fs = (case pipes of [] \<Rightarrow> fs | (_, path) # _ \<Rightarrow> append_to path (concat ws) fs)"

section \<open>The handle of a child\<close>

datatype exit_status = ExitedWith int | KilledBy int

text \<open>\<open>status.code().or_else(|| status.signal())\<close>\<close>

fun to_process_status :: "exit_status \<Rightarrow> process_status" where
  "to_process_status (ExitedWith c) = Some c"
| "to_process_status (KilledBy s) = Some s"

definition status_success :: "process_status \<Rightarrow> bool" where
  "status_success st \<longleftrightarrow> st = Some 0"

text \<open>A child of the runtime library keeps the status of its end and has no process identifier any
  more; the handle loses the child when it has been waited for.\<close>

datatype child = ChildRunning pid | ChildDone exit_status

type_synonym handle = "child option"

record 'e child_ops =
  ko_term :: "pid \<Rightarrow> ('e, string + string option) ext"
  ko_kill :: "pid \<Rightarrow> ('e, string + unit) ext"
  ko_kill_done :: string
  ko_wait :: "pid \<Rightarrow> ('e, string + exit_status) ext"
  ko_poll :: "pid \<Rightarrow> ('e, string + exit_status option) ext"

text \<open>\<open>None\<close> is a panic.\<close>

definition handle_pid :: "handle \<Rightarrow> pid option" where
  "handle_pid h = (case h of Some (ChildRunning p) \<Rightarrow> Some p | _ \<Rightarrow> None)"

text \<open>The result of \<open>kill -TERM\<close> is \<open>None\<close> for success and otherwise the exit status in words.\<close>

definition handle_terminate :: "'e child_ops \<Rightarrow> handle \<Rightarrow> 'e world \<Rightarrow> (string + unit) \<times> 'e world" where
  "handle_terminate ops h w =
     (case h of
        Some (ChildRunning p) \<Rightarrow>
          (case call (ko_term ops p) w of
             (Inl e, w1) \<Rightarrow> (Inl e, w1)
           | (Inr None, w1) \<Rightarrow> (Inr (), w1)
           | (Inr (Some st), w1) \<Rightarrow> (Inl (''kill -TERM '' @ show_nat p @ '' exited with '' @ st), w1))
      | _ \<Rightarrow> (Inl ''child already reaped'', w))"

definition handle_kill :: "'e child_ops \<Rightarrow> handle \<Rightarrow> 'e world \<Rightarrow> (string + unit) \<times> 'e world" where
  "handle_kill ops h w =
     (case h of
        None \<Rightarrow> (Inl ''child already reaped'', w)
      | Some (ChildDone _) \<Rightarrow> (Inl (ko_kill_done ops), w)
      | Some (ChildRunning p) \<Rightarrow> call (ko_kill ops p) w)"

definition handle_wait :: "'e child_ops \<Rightarrow> handle \<Rightarrow> 'e world \<Rightarrow> process_status \<times> handle \<times> 'e world" where
  "handle_wait ops h w =
     (case h of
        None \<Rightarrow> (Some 0, None, w)
      | Some (ChildDone st) \<Rightarrow> (to_process_status st, None, w)
      | Some (ChildRunning p) \<Rightarrow>
          (case call (ko_wait ops p) w of
             (Inl _, w1) \<Rightarrow> (None, None, w1)
           | (Inr st, w1) \<Rightarrow> (to_process_status st, None, w1)))"

definition handle_try_wait :: "'e child_ops \<Rightarrow> handle \<Rightarrow> 'e world \<Rightarrow> (string + process_status option) \<times> handle \<times> 'e world" where
  "handle_try_wait ops h w =
     (case h of
        None \<Rightarrow> (Inr (Some (Some 0)), None, w)
      | Some (ChildDone st) \<Rightarrow> (Inr (Some (to_process_status st)), h, w)
      | Some (ChildRunning p) \<Rightarrow>
          (case call (ko_poll ops p) w of
             (Inl e, w1) \<Rightarrow> (Inl e, h, w1)
           | (Inr None, w1) \<Rightarrow> (Inr None, h, w1)
           | (Inr (Some st), w1) \<Rightarrow> (Inr (Some (to_process_status st)), Some (ChildDone st), w1)))"

text \<open>What the wrapper of the service makes of them: a failed poll counts as running, and a forced end
  sends the signal and waits. These are the operations behind \<open>po_try_exited\<close> and \<open>po_force_kill\<close> of
  the theory Lifecycle.\<close>

definition try_exited :: "'e child_ops \<Rightarrow> handle \<Rightarrow> 'e world \<Rightarrow> process_status option \<times> handle \<times> 'e world" where
  "try_exited ops h w =
     (case handle_try_wait ops h w of (r, h1, w1) \<Rightarrow> (case r of Inl _ \<Rightarrow> None | Inr st \<Rightarrow> st, h1, w1))"

definition force_kill :: "'e child_ops \<Rightarrow> handle \<Rightarrow> 'e world \<Rightarrow> process_status \<times> handle \<times> 'e world" where
  "force_kill ops h w = (case handle_kill ops h w of (_, w1) \<Rightarrow> handle_wait ops h w1)"

section \<open>The log of the manager\<close>

definition manager_log_max_bytes :: nat where "manager_log_max_bytes = 10 * 1024 * 1024"

definition manager_log_path :: "string \<Rightarrow> string" where
  "manager_log_path data_dir = path_join (path_join data_dir ''logs'') ''manager.log''"

definition manager_log_open :: "(string \<Rightarrow> string option) \<Rightarrow> string option \<Rightarrow> string \<Rightarrow> files \<Rightarrow> (string + string) \<times> files" where
  "manager_log_open denied mkdir_error data_dir fs =
     (let path = manager_log_path data_dir in
      case mkdir_error of
        Some e \<Rightarrow> (Inl e, fs)
      | None \<Rightarrow>
     (case (if manager_log_max_bytes < length (contents fs path) then open_truncate denied path fs else (Inr (), fs)) of
        (Inl e, fs1) \<Rightarrow> (Inl e, fs1)
      | (Inr _, fs1) \<Rightarrow>
          (case open_append denied path fs1 of
             (Inl e, fs2) \<Rightarrow> (Inl e, fs2)
           | (Inr _, fs2) \<Rightarrow> (Inr path, fs2))))"

text \<open>A line is dropped when the mutex is poisoned.\<close>

definition append_line :: "bool \<Rightarrow> string \<Rightarrow> string \<Rightarrow> files \<Rightarrow> files" where
  "append_line poisoned path line fs = (if poisoned then fs else append_to path (line @ [CHR 0x0A]) fs)"

text \<open>A write of the logging layer reports how many bytes the file has taken, \<open>n\<close> at most. The copy to
  the standard error stream, whose result the code ignores, is taken to be complete.\<close>

definition write_buf :: "bool \<Rightarrow> nat \<Rightarrow> string \<Rightarrow> bytes \<Rightarrow> files \<Rightarrow> (string + nat) \<times> files" where
  "write_buf poisoned n path buf fs =
     (if poisoned then (Inl ''manager log mutex poisoned'', fs)
      else (Inr (min n (length buf)), append_to path (take n buf) fs))"

definition dual_write :: "bool \<Rightarrow> nat \<Rightarrow> string \<Rightarrow> bytes \<Rightarrow> files \<times> bytes \<Rightarrow> (string + nat) \<times> files \<times> bytes" where
  "dual_write poisoned n path buf = (\<lambda>(fs, err).
     case write_buf poisoned n path buf fs of (res, fs1) \<Rightarrow> (res, fs1, err @ buf))"

section \<open>Lemmas\<close>

lemma concat_line_writes: "concat (line_writes rx l) = scrub_line rx (from_utf8_lossy l) @ [CHR 0x0A]"
  by (simp add: line_writes_def)

lemma concat_pump_writes: "concat (pump_writes rx s) = pump_redacted rx s"
proof (induction rx s rule: pump_writes.induct)
  case (1 rx s)
  then show ?case
    by (subst pump_writes.simps, subst pump_redacted.simps) (auto simp: concat_line_writes split: option.splits)
qed

text \<open>What a pump may write.\<close>

definition redacted_write :: "patterns \<Rightarrow> bytes \<Rightarrow> bool" where
  "redacted_write rx b \<longleftrightarrow> b = [CHR 0x0A] \<or> (\<exists>l. CHR 0x0A \<notin> set l \<and> b = scrub_line rx (from_utf8_lossy l))"

lemma set_strip_cr: "set (strip_cr l) \<subseteq> set l"
  by (auto simp: strip_cr_def dest: in_set_butlastD)

lemma line_writes_redacted: "CHR 0x0A \<notin> set l \<Longrightarrow> b \<in> set (line_writes rx l) \<Longrightarrow> redacted_write rx b"
  by (auto simp: line_writes_def redacted_write_def split: if_splits)

lemma pump_writes_redacted: "b \<in> set (pump_writes rx s) \<Longrightarrow> redacted_write rx b"
proof (induction rx s rule: pump_writes.induct)
  case (1 rx s)
  show ?case
  proof (cases "split_once (CHR 0x0A) s")
    case None
    then have "CHR 0x0A \<notin> set s" by (simp add: split_once_None)
    with 1(2) None show ?thesis
      by (subst (asm) pump_writes.simps) (auto intro: line_writes_redacted split: if_splits)
  next
    case (Some p)
    then obtain l rest where p: "split_once (CHR 0x0A) s = Some (l, rest)" by (cases p) auto
    then have "s \<noteq> []" "CHR 0x0A \<notin> set (strip_cr l)" using set_strip_cr by (auto simp: split_once_Some)
    moreover have "b \<in> set (line_writes rx (strip_cr l)) \<or> b \<in> set (pump_writes rx rest)"
      using 1(2) p \<open>s \<noteq> []\<close> by (subst (asm) pump_writes.simps) auto
    ultimately show ?thesis using 1(1) [OF \<open>s \<noteq> []\<close> p refl] line_writes_redacted by blast
  qed
qed

lemmas spawn_defs = spawn_process_def open_output_def open_truncate_def open_append_def plan_pumps_def start_child_def
  merged_logs_def

lemma spawn_Inr:
  assumes "spawn_process os cmd fs = (Inr (p, pipes), fs1)"
  shows "pipes = (case sc_stdout_log cmd of
       Some path \<Rightarrow> (PumpStdout, path) # (if sc_stderr_log cmd = None then [] else [(PumpStderr, path)])
     | None \<Rightarrow> (case sc_stderr_log cmd of Some path \<Rightarrow> [(PumpStderr, path)] | None \<Rightarrow> []))"
    and "fs1 = (case pipes of [] \<Rightarrow> fs | (_, path) # _ \<Rightarrow> fs(path \<mapsto> []))"
    and "so_start os cmd (stdio_of (sc_stdout_log cmd)) (stdio_of (sc_stderr_log cmd)) = Inr p"
  using assms by (auto simp: spawn_defs contents_def split: option.splits sum.splits if_splits prod.splits)

section \<open>Properties\<close>

text \<open>C30: What a child writes reaches its log file only redacted, and the file holds nothing else.
  Starting a child with a log connects each redirected stream to a pump and empties the file;
  whatever the child writes, and in whatever order the two pumps come to write, the file then
  consists of line feeds and of lines that have been through the redaction, and no other file
  changes. With one pump the file is the redacted text of its stream.\<close>

theorem child_log_redacted:
  assumes "spawn_process os cmd fs = (Inr (p, pipes), fs1)" and "pipes \<noteq> []"
    and "ws \<in> shuffles (target_writes rx pipes PumpStdout out) (target_writes rx pipes PumpStderr err)"
  shows "\<exists>path. Some path \<in> {sc_stdout_log cmd, sc_stderr_log cmd} \<and>
    after_output pipes ws fs1 = fs(path \<mapsto> concat ws) \<and> (\<forall>b \<in> set ws. redacted_write rx b) \<and>
    (sc_stderr_log cmd = None \<longrightarrow> concat ws = pump_redacted rx out) \<and>
    (sc_stdout_log cmd = None \<longrightarrow> concat ws = pump_redacted rx err)"
proof -
  note pipes = spawn_Inr [OF assms(1)]
  have "\<forall>b \<in> set ws. redacted_write rx b"
    using assms(3) by (auto simp: set_shuffles target_writes_def pump_writes_redacted split: if_splits)
  moreover have "sc_stderr_log cmd = None \<Longrightarrow> ws = pump_writes rx out"
    using assms(2,3) pipes(1) by (auto simp: target_writes_def split: option.splits)
  moreover have "sc_stdout_log cmd = None \<Longrightarrow> ws = pump_writes rx err"
    using assms(2,3) pipes(1) by (auto simp: target_writes_def split: option.splits)
  moreover obtain path where "Some path \<in> {sc_stdout_log cmd, sc_stderr_log cmd}" "snd (hd pipes) = path"
    using assms(2) pipes(1) by (auto split: option.splits)
  moreover have "after_output pipes ws fs1 = fs(snd (hd pipes) \<mapsto> concat ws)"
    using assms(2) pipes(2) by (cases pipes) (auto simp: after_output_def append_to_def contents_def)
  ultimately show ?thesis by (auto simp: concat_pump_writes)
qed

text \<open>A command with two different log files gets one: the file for the error stream is not opened, and
  its lines go to the file for the standard output.\<close>

lemma stderr_log_ignored:
  assumes "spawn_process os cmd fs = (Inr (p, pipes), fs1)"
    and "sc_stdout_log cmd = Some a" and "sc_stderr_log cmd = Some b" and "a \<noteq> b"
  shows "pipes = [(PumpStdout, a), (PumpStderr, a)] \<and> after_output pipes ws fs1 b = fs b"
  using spawn_Inr [OF assms(1)] assms(2-4) by (simp add: after_output_def append_to_def)

text \<open>The service of an instance writes both streams to the log of the instance.\<close>

lemma svc_command_merged:
  assumes "spawn_process os (svc_command ctx) fs = (Inr (p, pipes), fs1)"
  shows "merged_logs (svc_command ctx) \<and>
    pipes = [(PumpStdout, ip_log_path (cx_paths ctx)), (PumpStderr, ip_log_path (cx_paths ctx))]"
  using spawn_Inr(1) [OF assms] by (simp add: svc_command_def merged_logs_def)

text \<open>Lines of a service can run into each other in its log. Each pump writes a line in two pieces,
  the text and the line feed, so for a child that writes a line to each of its two streams there is
  a run after which the log has the two texts on one line, and an empty line.\<close>

theorem service_log_lines_torn:
  assumes "spawn_process os (svc_command ctx) fs = (Inr (p, pipes), fs1)"
    and "a = scrub_line rx (from_utf8_lossy l)" and "b = scrub_line rx (from_utf8_lossy k)"
    and "CHR 0x0A \<notin> set l \<union> set k" and "strip_cr l = l" and "strip_cr k = k" and "a \<noteq> []" and "b \<noteq> []"
  shows "\<exists>ws \<in> shuffles (target_writes rx pipes PumpStdout (l @ [CHR 0x0A])) (target_writes rx pipes PumpStderr (k @ [CHR 0x0A])).
    after_output pipes ws fs1 (ip_log_path (cx_paths ctx)) = Some (a @ b @ [CHR 0x0A, CHR 0x0A])"
proof (intro bexI [of _ "[a, b, [CHR 0x0A], [CHR 0x0A]]"])
  have w: "pump_writes rx (s @ [CHR 0x0A]) = [scrub_line rx (from_utf8_lossy s), [CHR 0x0A]]"
    if "CHR 0x0A \<notin> set s" "strip_cr s = s" "scrub_line rx (from_utf8_lossy s) \<noteq> []" for s
  proof -
    have "split_once (CHR 0x0A) (s @ [CHR 0x0A]) = Some (s, [])" using that(1) by (simp add: split_once_Some)
    with that show ?thesis
      by (subst pump_writes.simps) (simp add: line_writes_def pump_writes.simps [of rx "[]"])
  qed
  have t: "target_writes rx pipes PumpStdout s = pump_writes rx s" "target_writes rx pipes PumpStderr s = pump_writes rx s" for s
    using svc_command_merged [OF assms(1)] by (simp_all add: target_writes_def)
  show "[a, b, [CHR 0x0A], [CHR 0x0A]] \<in>
      shuffles (target_writes rx pipes PumpStdout (l @ [CHR 0x0A])) (target_writes rx pipes PumpStderr (k @ [CHR 0x0A]))"
    using assms(2-8) by (simp add: t w)
  show "after_output pipes [a, b, [CHR 0x0A], [CHR 0x0A]] fs1 (ip_log_path (cx_paths ctx)) = Some (a @ b @ [CHR 0x0A, CHR 0x0A])"
    using spawn_Inr(2) [OF assms(1)] svc_command_merged [OF assms(1)]
    by (simp add: after_output_def append_to_def contents_def)
qed

text \<open>A handle tells how its child ended until it has been waited for, and no longer. What a poll has
  reported is what the wait reports; a child ended by a signal has the signal's number for its exit
  code, never none. After the wait the identifier is a panic, signals are refused without a call to
  the system, and a further wait or poll reports success, however the child ended.\<close>

theorem handle_reports_end:
  assumes "handle_wait ops h w = (st, h', w')"
  shows "h' = None \<and> handle_pid h' = None \<and>
    isl (fst (handle_terminate ops h' w'')) \<and> snd (handle_terminate ops h' w'') = w'' \<and>
    isl (fst (handle_kill ops h' w'')) \<and> snd (handle_kill ops h' w'') = w'' \<and>
    handle_wait ops h' w'' = (Some 0, None, w'') \<and> handle_try_wait ops h' w'' = (Inr (Some (Some 0)), None, w'') \<and>
    (\<forall>h0 w0. handle_try_wait ops h0 w0 = (Inr (Some st0), h, w) \<longrightarrow> st = st0 \<and> w' = w \<and> st0 \<noteq> None)"
proof -
  have h: "h' = None" using assms by (auto simp: handle_wait_def split: option.splits child.splits prod.splits sum.splits)
  have c: "to_process_status e \<noteq> None" for e by (cases e) simp_all
  have "st = st0 \<and> w' = w \<and> st0 \<noteq> None" if "handle_try_wait ops h0 w0 = (Inr (Some st0), h, w)" for h0 w0
    using that assms c
    by (auto simp: handle_try_wait_def handle_wait_def split: option.splits child.splits prod.splits sum.splits)
  with h show ?thesis
    by (simp add: handle_pid_def handle_terminate_def handle_kill_def handle_wait_def handle_try_wait_def)
qed

text \<open>The manager's log is cut when it is opened, and then only grows. When opening it succeeds it
  holds at most 10 MiB; it is emptied if it was larger and kept as it was if not; every line logged
  afterwards is added at its end, without any limit, and no other file changes.\<close>

theorem manager_log_grows:
  assumes "manager_log_open denied mkdir_error dir fs = (Inr path, fs1)"
  shows "path = manager_log_path dir \<and> length (contents fs1 path) \<le> 10485760 \<and>
    fold (append_line False path) lines fs1 =
      fs(path \<mapsto> (if 10485760 < length (contents fs path) then [] else contents fs path) @
        concat (List.map (\<lambda>l. l @ [CHR 0x0A]) lines))"
proof -
  have path: "path = manager_log_path dir"
    and fs1: "fs1 = fs(path \<mapsto> (if 10485760 < length (contents fs path) then [] else contents fs path))"
    using assms
    by (auto simp: manager_log_open_def open_truncate_def open_append_def contents_def manager_log_max_bytes_def Let_def
        split: option.splits if_splits prod.splits sum.splits)
  have grow: "fold (append_line False path) lines (fs(path \<mapsto> b)) = fs(path \<mapsto> b @ concat (List.map (\<lambda>l. l @ [CHR 0x0A]) lines))" for b
    by (induction lines arbitrary: b) (simp_all add: append_line_def append_to_def contents_def)
  show ?thesis by (intro conjI path) (simp_all add: fs1 grow, simp add: contents_def)
qed

section \<open>Witnesses\<close>

definition demo_os :: spawn_os where
  "demo_os = \<lparr>so_denied = (\<lambda>_. None), so_clone = None, so_start = (\<lambda>_ _ _. Inr 11)\<rparr>"

lemma demo_spawn:
  "\<exists>fs1. spawn_process demo_os (with_stderr_log ''/d/x.log'' (command_simple ''x'')) fs = (Inr (11, [(PumpStderr, ''/d/x.log'')]), fs1)"
  "\<exists>fs1. spawn_process demo_os (svc_command ctx) fs =
     (Inr (11, [(PumpStdout, ip_log_path (cx_paths ctx)), (PumpStderr, ip_log_path (cx_paths ctx))]), fs1)"
  by (simp_all add: spawn_defs demo_os_def with_stderr_log_def command_simple_def svc_command_def)

theorem child_log_redacted_witness:
  "\<exists>fs1. spawn_process demo_os (with_stderr_log ''/d/x.log'' (command_simple ''x'')) (\<lambda>_. None) = (Inr (11, [(PumpStderr, ''/d/x.log'')]), fs1) \<and>
     after_output [(PumpStderr, ''/d/x.log'')] (pump_writes demo_patterns ''up'') fs1 =
       [''/d/x.log'' \<mapsto> pump_redacted demo_patterns ''up'']"
proof -
  obtain fs1 where sp: "spawn_process demo_os (with_stderr_log ''/d/x.log'' (command_simple ''x'')) (\<lambda>_. None) =
      (Inr (11, [(PumpStderr, ''/d/x.log'')]), fs1)" using demo_spawn(1) by blast
  have "pump_writes demo_patterns ''up'' \<in> shuffles (target_writes demo_patterns [(PumpStderr, ''/d/x.log'')] PumpStdout [])
      (target_writes demo_patterns [(PumpStderr, ''/d/x.log'')] PumpStderr ''up'')"
    by (simp add: target_writes_def)
  from child_log_redacted [OF sp _ this] sp show ?thesis
    by (auto simp: with_stderr_log_def command_simple_def)
qed

theorem service_log_lines_torn_witness:
  "\<exists>pipes fs1 ws. spawn_process demo_os (svc_command (demo_ctx 1)) (\<lambda>_. None) = (Inr (11, pipes), fs1) \<and>
     after_output pipes ws fs1 (ip_log_path (cx_paths (demo_ctx 1))) = Some (''up'' @ ''down'' @ [CHR 0x0A, CHR 0x0A])"
proof -
  obtain pipes fs1 where sp: "spawn_process demo_os (svc_command (demo_ctx 1)) (\<lambda>_. None) = (Inr (11, pipes), fs1)"
    using demo_spawn(2) by blast
  have "scrub_line demo_patterns (from_utf8_lossy l) = l" if "is_ascii l" for l
    using that by (simp add: lossy_ascii scrub_line_def demo_patterns_def)
  then have "''up'' = scrub_line demo_patterns (from_utf8_lossy ''up'')" "''down'' = scrub_line demo_patterns (from_utf8_lossy ''down'')"
    by (simp_all add: is_ascii_def)
  moreover have "CHR 0x0A \<notin> set ''up'' \<union> set ''down''" "strip_cr ''up'' = ''up''" "strip_cr ''down'' = ''down''"
    by (simp_all add: strip_cr_def)
  ultimately show ?thesis using service_log_lines_torn [OF sp, of "''up''" demo_patterns "''up''" "''down''" "''down''"] sp by blast
qed

definition demo_child :: "unit child_ops" where
  "demo_child = \<lparr>ko_term = (\<lambda>_ e. (Inr None, 1, e)), ko_kill = (\<lambda>_ e. (Inr (), 1, e)), ko_kill_done = [],
     ko_wait = (\<lambda>_ e. (Inr (KilledBy 9), 1, e)), ko_poll = (\<lambda>_ e. (Inr (Some (KilledBy 9)), 1, e))\<rparr>"

theorem handle_reports_end_witness:
  "\<exists>h' w'. handle_wait demo_child (Some (ChildRunning 11)) \<lparr>w_now = 0, w_env = ()\<rparr> = (Some 9, h', w') \<and>
     handle_wait demo_child h' w' = (Some 0, None, w')"
proof -
  have "handle_wait demo_child (Some (ChildRunning 11)) \<lparr>w_now = 0, w_env = ()\<rparr> = (Some 9, None, \<lparr>w_now = 1, w_env = ()\<rparr>)"
    by (simp add: handle_wait_def demo_child_def call_def)
  with handle_reports_end [OF this] show ?thesis by blast
qed

theorem manager_log_grows_witness:
  "\<exists>path fs1. manager_log_open (\<lambda>_. None) None ''/d'' (\<lambda>_. None) = (Inr path, fs1) \<and>
     fold (append_line False path) [''a'', ''b''] fs1 = [path \<mapsto> ''a'' @ [CHR 0x0A] @ ''b'' @ [CHR 0x0A]]"
proof -
  obtain path fs1 where o: "manager_log_open (\<lambda>_. None) None ''/d'' (\<lambda>_. None) = (Inr path, fs1)"
    by (simp add: manager_log_open_def open_append_def contents_def Let_def)
  from manager_log_grows [OF o, of "[''a'', ''b'']"] o show ?thesis by (auto simp: contents_def)
qed

end
