(* ===== verification/LogService.thy ===== *)
theory LogService
  imports Process "HOL-Library.List_Lexorder"
begin

text \<open>
  The services around the log files: the list of sources (\<open>src/api/logs.rs\<close>), the supervisor that starts
  one follower for each source (\<open>src/runtime/log_tail.rs\<close>), the bus that the followers publish on
  (\<open>src/runtime/logs.rs\<close>), and the wrapper for values that must not be printed
  (\<open>src/observability/redactor.rs\<close>).
\<close>

section \<open>The list of sources\<close>

record log_source_view =
  sv_source :: string
  sv_kind :: string
  sv_instance :: "instance_id option"
  sv_exists :: bool

definition source_view :: "files \<Rightarrow> log_source \<times> string \<Rightarrow> log_source_view" where
  "source_view fs = (\<lambda>(s, path).
     \<lparr>sv_source = source_id s,
      sv_kind = (case s of ManagerLog \<Rightarrow> ''manager'' | InstanceLog _ \<Rightarrow> ''instance''),
      sv_instance = (case s of ManagerLog \<Rightarrow> None | InstanceLog i \<Rightarrow> Some i),
      sv_exists = (fs path \<noteq> None)\<rparr>)"

definition sources :: "files \<Rightarrow> string \<Rightarrow> string list \<Rightarrow> log_source_view list" where
  "sources fs data_dir names = List.map (source_view fs) (enumerate_sources data_dir names)"

definition history_default_limit :: nat where "history_default_limit = 200"

section \<open>The order of sources\<close>

text \<open>The code sorts sources by their identifiers as text. This order is an instance of the library's class
  of linear orders, so that its \<open>sort_key\<close> and the facts about it apply.\<close>

lemma str_less_iff: "str_less s t \<longleftrightarrow> List.map of_char s < (List.map of_char t :: nat list)"
  by (induction s t rule: str_less.induct) auto

lemma of_char_nat_inj: "List.map of_char s = (List.map of_char t :: nat list) \<Longrightarrow> s = t"
  by (metis inj_map_eq_map inj_on_def of_char_eq_iff)

lemma show_nat_no_minus: "CHR ''-'' \<notin> set (show_nat n)"
  using show_nat_digits [of n] by (auto simp: list_all_iff is_digit_def)

lemma show_int_eq: "show_int i = show_int j \<longleftrightarrow> i = j"
proof
  assume eq: "show_int i = show_int j"
  have "CHR ''-'' \<in> set (show_int k) \<longleftrightarrow> k < 0" for k using show_nat_no_minus by (simp add: show_int_def)
  with eq have "i < 0 \<longleftrightarrow> j < 0" by metis
  with eq show "i = j" by (auto simp: show_int_def split: if_splits dest!: show_nat_inj)
qed simp

lemma source_id_eq: "source_id s = source_id t \<longleftrightarrow> s = t"
  by (auto simp: source_id_def show_int_eq split: log_source.splits)

instantiation log_source :: linorder
begin

definition less_log_source :: "log_source \<Rightarrow> log_source \<Rightarrow> bool" where
  "s < t \<longleftrightarrow> str_less (source_id s) (source_id t)"

definition less_eq_log_source :: "log_source \<Rightarrow> log_source \<Rightarrow> bool" where
  "s \<le> t \<longleftrightarrow> \<not> str_less (source_id t) (source_id s)"

instance
proof
  fix r s t :: log_source
  show "s < t \<longleftrightarrow> s \<le> t \<and> \<not> t \<le> s" "s \<le> s" "s \<le> t \<or> t \<le> s"
    by (auto simp: less_log_source_def less_eq_log_source_def str_less_iff)
  show "r \<le> s \<Longrightarrow> s \<le> t \<Longrightarrow> r \<le> t" by (simp add: less_eq_log_source_def str_less_iff)
  show "s \<le> t \<Longrightarrow> t \<le> s \<Longrightarrow> s = t"
    by (auto simp: less_eq_log_source_def str_less_iff source_id_eq dest!: of_char_nat_inj antisym)
qed

end

lemma insert_by_id_insort: "insert_by_id x ys = insort_key fst x ys"
  by (induction ys) (simp_all add: less_eq_log_source_def)

section \<open>The supervisor of the followers\<close>

text \<open>The table of followers, by the identifier of their source, and one pass over the sources.\<close>

type_synonym followers = "(string \<times> log_source \<times> string) list"

definition discover_one :: "log_source \<times> string \<Rightarrow> followers \<Rightarrow> followers" where
  "discover_one e ws = (if map_of ws (source_id (fst e)) = None then ws @ [(source_id (fst e), e)] else ws)"

definition discover :: "string \<Rightarrow> string list \<Rightarrow> followers \<Rightarrow> followers" where
  "discover data_dir names ws = fold discover_one (enumerate_sources data_dir names) ws"

text \<open>The loop, given the names that each pass finds in the directory.\<close>

definition supervise :: "string \<Rightarrow> string list list \<Rightarrow> followers" where
  "supervise data_dir passes = fold (discover data_dir) passes []"

section \<open>The bus\<close>

text \<open>A broadcast channel: a receiver has the lines that were sent after it subscribed, the newest
  \<open>capacity\<close> of them. Sending without a receiver fails, which the code only notes.\<close>

record 'a bus =
  bu_capacity :: nat
  bu_receivers :: "'a list list"

definition bus_new :: "nat \<Rightarrow> 'a bus" where
  "bus_new capacity = \<lparr>bu_capacity = capacity, bu_receivers = []\<rparr>"

definition bus_default :: "'a bus" where "bus_default = bus_new 1024"

definition bus_publish :: "'a \<Rightarrow> 'a bus \<Rightarrow> 'a bus" where
  "bus_publish x b = b\<lparr>bu_receivers := List.map (\<lambda>q. drop (Suc (length q) - bu_capacity b) (q @ [x])) (bu_receivers b)\<rparr>"

definition bus_subscribe :: "'a bus \<Rightarrow> nat \<times> 'a bus" where
  "bus_subscribe b = (length (bu_receivers b), b\<lparr>bu_receivers := bu_receivers b @ [[]]\<rparr>)"

section \<open>Values that are not printed\<close>

datatype 'a sensitive = Sensitive 'a

fun reveal :: "'a sensitive \<Rightarrow> 'a" where "reveal (Sensitive x) = x"

definition sensitive_debug :: "'a sensitive \<Rightarrow> string" where "sensitive_debug _ = redacted"
definition sensitive_display :: "'a sensitive \<Rightarrow> string" where "sensitive_display _ = redacted"

section \<open>Lemmas\<close>

definition followers_ok :: "followers \<Rightarrow> bool" where
  "followers_ok ws \<longleftrightarrow> distinct (List.map fst ws) \<and> (\<forall>(i, s, path) \<in> set ws. i = source_id s)"

lemma discover_one_ok: "followers_ok ws \<Longrightarrow> followers_ok (discover_one e ws)"
  by (auto simp: followers_ok_def discover_one_def map_of_eq_None_iff split: prod.splits)

lemma discover_one_ids: "fst ` set (discover_one e ws) = insert (source_id (fst e)) (fst ` set ws)"
  by (force simp: discover_one_def map_of_eq_None_iff)

lemma discover_ids: "fst ` set (discover d names ws) = fst ` set ws \<union> source_id ` fst ` set (enumerate_sources d names)"
proof -
  have "fst ` set (fold discover_one es ws) = fst ` set ws \<union> source_id ` fst ` set es" for es
    by (induction es arbitrary: ws) (auto simp: discover_one_ids)
  then show ?thesis by (simp add: discover_def)
qed

lemma discover_more: "\<exists>new. discover d names ws = ws @ new"
proof -
  have "\<exists>new. fold discover_one es ws = ws @ new" for es
  proof (induction es arbitrary: ws)
    case (Cons e es)
    have "\<exists>n1. discover_one e ws = ws @ n1" by (simp add: discover_one_def)
    then obtain n1 where "discover_one e ws = ws @ n1" by blast
    with Cons.IH [of "ws @ n1"] show ?case by auto
  qed simp
  then show ?thesis by (simp add: discover_def)
qed

lemma supervise_ok: "followers_ok (supervise d passes)"
proof -
  have "followers_ok ws \<Longrightarrow> followers_ok (fold discover_one es ws)" for es ws
    by (induction es arbitrary: ws) (auto intro: discover_one_ok)
  then have "followers_ok ws \<Longrightarrow> followers_ok (fold (discover d) ps ws)" for ps ws
    by (induction ps arbitrary: ws) (auto simp: discover_def)
  moreover have "followers_ok []" by (simp add: followers_ok_def)
  ultimately show ?thesis by (simp add: supervise_def)
qed

section \<open>Properties\<close>

text \<open>Every source has exactly one follower, from the pass that first sees its file: no line is
  published twice, and the follower stays when the file disappears.\<close>

theorem one_follower_per_source:
  "distinct (List.map (\<lambda>(i, s, path). s) (supervise d passes)) \<and>
   source_id ` (\<lambda>(i, s, path). s) ` set (supervise d passes) =
     (\<Union>names \<in> set passes. source_id ` fst ` set (enumerate_sources d names)) \<and>
   (\<exists>new. supervise d (passes @ [names]) = supervise d passes @ new)"
proof (intro conjI)
  let ?s = "\<lambda>(i :: string, s :: log_source, path :: string). s"
  have ok: "distinct (List.map fst (supervise d passes))" "\<forall>w \<in> set (supervise d passes). fst w = source_id (?s w)"
    using supervise_ok [of d passes] by (auto simp: followers_ok_def)
  from ok(2) have ids: "List.map fst (supervise d passes) = List.map source_id (List.map ?s (supervise d passes))"
    by (auto simp: case_prod_beta)
  with ok(1) show "distinct (List.map ?s (supervise d passes))" by (simp only: distinct_map)
  have "fst ` set (fold (discover d) passes ws) = fst ` set ws \<union> (\<Union>names \<in> set passes. source_id ` fst ` set (enumerate_sources d names))" for ws
    by (induction passes arbitrary: ws) (auto simp: discover_ids)
  from this [of "[]"] ids show "source_id ` ?s ` set (supervise d passes) =
     (\<Union>names \<in> set passes. source_id ` fst ` set (enumerate_sources d names))"
    unfolding supervise_def [symmetric] by (metis Un_empty_left empty_set image_empty image_set)
  show "\<exists>new. supervise d (passes @ [names]) = supervise d passes @ new"
    by (simp add: supervise_def discover_more)
qed

text \<open>A receiver of the bus gets the last lines sent, up to the capacity, in order.\<close>

lemma bus_receives:
  assumes "0 < bu_capacity b" and "bus_subscribe b = (k, b1)"
  shows "bu_receivers (fold bus_publish xs b1) ! k = drop (length xs - bu_capacity b) xs"
proof (induction xs rule: rev_induct)
  case Nil
  then show ?case using assms(2) by (auto simp: bus_subscribe_def)
next
  case (snoc x xs)
  have len: "length (bu_receivers (fold bus_publish xs b1)) = Suc k" for xs
    using assms(2) by (induction xs rule: rev_induct) (auto simp: bus_publish_def bus_subscribe_def)
  have cap: "bu_capacity (fold bus_publish xs b1) = bu_capacity b"
    using assms(2) by (induction xs rule: rev_induct) (auto simp: bus_publish_def bus_subscribe_def)
  show ?case
    using snoc assms(1) len [of xs]
    by (cases "bu_capacity b \<le> length xs") (simp_all add: bus_publish_def [of x] cap Suc_diff_le)
qed

text \<open>The sources come with the manager's log first and then the logs of instances in the order of their
  identifiers; every one of them is a file in the directory with a name of that source.\<close>

theorem sources_listed:
  "\<exists>found. sources fs d names = source_view fs (ManagerLog, path_join (logs_dir d) ''manager.log'') # List.map (source_view fs) (sort_key fst found) \<and>
    sorted (List.map fst (sort_key fst found)) \<and>
    set found = {(InstanceLog i, path_join (logs_dir d) n) | i n. n \<in> set names \<and> source_from_file_name n = Some (InstanceLog i)}"
proof -
  define found where "found = List.map_filter (\<lambda>n. case source_from_file_name n of
      Some (InstanceLog i) \<Rightarrow> Some (InstanceLog i, path_join (logs_dir d) n) | _ \<Rightarrow> None) names"
  have "foldr insert_by_id found [] = sort_key fst found"
    by (simp add: sort_key_def insert_by_id_insort [abs_def])
  then have "sources fs d names = source_view fs (ManagerLog, path_join (logs_dir d) ''manager.log'') # List.map (source_view fs) (sort_key fst found)"
    by (simp add: sources_def enumerate_sources_def Let_def found_def)
  moreover have "set found = {(InstanceLog i, path_join (logs_dir d) n) | i n. n \<in> set names \<and> source_from_file_name n = Some (InstanceLog i)}"
    by (force simp: found_def List.map_filter_def split: option.splits log_source.splits)
  ultimately show ?thesis using sorted_sort_key by blast
qed

end
