(* ===== verification/Probe.thy ===== *)
theory Probe
  imports Health HttpProxy "HOL-Library.Sublist"
begin

text \<open>
  A data plane probe with its traffic: the HTTP proxy client of \<open>src/runtime/probe/http.rs\<close> and the
  probes of the two address families of \<open>src/runtime/probe/mod.rs\<close>, on the parts of the theory
  Health. The network is the record \<open>probe_net\<close>: what the proxy's port answers, what TLS makes of the
  tunnel, and the time that a probe takes. A result of \<open>None\<close> is a panic.
\<close>

section \<open>The HTTP proxy client\<close>

definition max_header_bytes :: nat where "max_header_bytes = 8192"

definition connect_authority :: "string \<Rightarrow> nat \<Rightarrow> string" where
  "connect_authority host p = host @ '':'' @ show_nat p"

definition connect_request :: "string \<Rightarrow> nat \<Rightarrow> bytes" where
  "connect_request host p =
     ''CONNECT '' @ connect_authority host p @ '' HTTP/1.1'' @ [CHR 0x0D, CHR 0x0A] @
     ''Host: '' @ connect_authority host p @ crlf2"

text \<open>\<open>head.windows(4).position(..)\<close>: what stands before the first occurrence.\<close>

fun before :: "string \<Rightarrow> string \<Rightarrow> string option" where
  "before p [] = None"
| "before p (c # cs) = (if starts_with p (c # cs) then Some [] else map_option ((#) c) (before p cs))"

text \<open>The reading of the proxy's answer, up to the blank line.\<close>

definition connect_verdict :: "bytes \<Rightarrow> io_error + unit" where
  "connect_verdict head =
     (let status_line = (case str_lines (from_utf8_lossy head) of [] \<Rightarrow> [] | l # _ \<Rightarrow> l) in
      if \<not> starts_with ''HTTP/1.'' status_line
      then Inl (IoOther (''invalid HTTP proxy CONNECT response: '' @ status_line))
      else (case Option.bind (second_word status_line) parse_u16 of
              None \<Rightarrow> Inl (IoOther ''malformed CONNECT status line'')
            | Some code \<Rightarrow>
                if \<not> (200 \<le> code \<and> code < 300)
                then Inl (IoOther (''HTTP proxy CONNECT rejected ('' @ show_nat code @ ''): '' @ status_line))
                else Inr ()))"

text \<open>The loop of \<open>http_connect\<close>. The list says how many bytes each read finds; after its last element
  nothing more arrives, and the client waits: \<open>None\<close>.\<close>

fun read_connect :: "nat list \<Rightarrow> bytes \<Rightarrow> conn \<Rightarrow> (io_error + conn) option" where
  "read_connect ks head c =
     (if max_header_bytes \<le> length head then Some (Inl (IoOther ''HTTP proxy CONNECT response header too large''))
      else case before crlf2 head of
        Some h \<Rightarrow> Some (case connect_verdict h of Inl e \<Rightarrow> Inl e | Inr _ \<Rightarrow> Inr c)
      | None \<Rightarrow>
     (case ks of
        [] \<Rightarrow> None
      | k # ks' \<Rightarrow>
          (let n = min (max k 1) 1024; chunk = take n (c_in c) in
           if chunk = [] then Some (Inl (IoOther ''HTTP proxy closed connection during CONNECT''))
           else read_connect ks' (head @ chunk) (c\<lparr>c_in := drop n (c_in c)\<rparr>))))"

declare read_connect.simps [simp del]

definition http_connect :: "nat list \<Rightarrow> string \<Rightarrow> nat \<Rightarrow> conn \<Rightarrow> (io_error + conn) option" where
  "http_connect ks host p c =
     (case write_all (connect_request host p) c of
        (False, _) \<Rightarrow> Some (Inl IoBroken)
      | (True, c1) \<Rightarrow> read_connect ks [] c1)"

section \<open>The probe of one family\<close>

datatype probe_proto = ProbeSocks5 | ProbeHttp

datatype connect_error = Refused string | ConnectFailed string

text \<open>\<open>pn_time\<close> is the time that the whole exchange takes: the deadline is compared with it, and it is
  the latency that is reported.\<close>

record probe_net =
  pn_connect :: "port \<Rightarrow> connect_error + conn"
  pn_arrivals :: "nat list"
  pn_tls :: "string \<Rightarrow> conn \<Rightarrow> string + conn"
  pn_read_error :: "string option"
  pn_show :: "io_error \<Rightarrow> string"
  pn_time :: millis

definition trace_path :: string where "trace_path = ''/cdn-cgi/trace''"
definition trace_v4_target :: string where "trace_v4_target = ''1.1.1.1''"
definition trace_v6_target :: string where "trace_v6_target = ''2606:4700:4700::1111''"

definition trace_request :: "string \<Rightarrow> bytes" where
  "trace_request target =
     ''GET '' @ trace_path @ '' HTTP/1.1'' @ [CHR 0x0D, CHR 0x0A] @
     ''Host: '' @ host_header target @ [CHR 0x0D, CHR 0x0A] @
     ''User-Agent: warpdeck-health/0.1'' @ [CHR 0x0D, CHR 0x0A] @
     ''Connection: close'' @ [CHR 0x0D, CHR 0x0A] @ ''Accept: */*'' @ crlf2"

definition show_io :: "probe_net \<Rightarrow> io_error \<Rightarrow> string" where
  "show_io nt e = (case e of IoOther m \<Rightarrow> m | _ \<Rightarrow> pn_show nt e)"

text \<open>The tunnel through the proxy; \<open>None\<close> while the proxy's answer is awaited.\<close>

definition open_tunnel :: "probe_net \<Rightarrow> probe_proto \<Rightarrow> port \<Rightarrow> string \<Rightarrow> (probe_error + conn) option" where
  "open_tunnel nt proto p target =
     (case (pn_connect nt p, proto) of
        (Inl (Refused m), _) \<Rightarrow> Some (Inl (ProxyConnect (m @ '' (port '' @ show_nat (unat p) @ '')'')))
      | (Inl (ConnectFailed m), ProbeSocks5) \<Rightarrow> Some (Inl (Socks5Failed m))
      | (Inl (ConnectFailed m), ProbeHttp) \<Rightarrow> Some (Inl (HttpConnectFailed m))
      | (Inr c, ProbeSocks5) \<Rightarrow> Some (map_err (\<lambda>e. Socks5Failed (show_io nt e)) (handshake target 443 c))
      | (Inr c, ProbeHttp) \<Rightarrow>
          map_option (map_err (\<lambda>e. HttpConnectFailed (show_io nt e))) (http_connect (pn_arrivals nt) target 443 c))"

text \<open>The future under the timeout: what is read from the target.\<close>

definition exchange :: "probe_net \<Rightarrow> probe_proto \<Rightarrow> port \<Rightarrow> string \<Rightarrow> (probe_error + bytes) option" where
  "exchange nt proto p target =
     (case open_tunnel nt proto p target of
        None \<Rightarrow> None
      | Some (Inl e) \<Rightarrow> Some (Inl e)
      | Some (Inr sock) \<Rightarrow> Some
          (bind_res (map_err TlsFailed (pn_tls nt target sock)) (\<lambda>stream.
           (case write_all (trace_request target) stream of
              (False, _) \<Rightarrow> Inl (HttpFailed (pn_show nt IoBroken))
            | (True, stream1) \<Rightarrow>
                (case pn_read_error nt of
                   Some e \<Rightarrow> Inl (HttpFailed e)
                 | None \<Rightarrow> Inr (c_in stream1))))))"

definition trace_probe_one :: "probe_net \<Rightarrow> probe_proto \<Rightarrow> millis \<Rightarrow> port \<Rightarrow> string
    \<Rightarrow> (probe_error + trace_result \<times> nat) option" where
  "trace_probe_one nt proto timeout p target =
     (case exchange nt proto p target of
        None \<Rightarrow> Some (Inl (ProbeTimeout timeout))
      | Some raw \<Rightarrow>
          if timeout < pn_time nt then Some (Inl (ProbeTimeout timeout))
          else (case raw of
                  Inl e \<Rightarrow> Some (Inl e)
                | Inr bytes \<Rightarrow> map_option (\<lambda>r. bind_res r (\<lambda>t. Inr (t, pn_time nt))) (read_response bytes)))"

definition probe :: "probe_net \<Rightarrow> probe_net \<Rightarrow> probe_proto \<Rightarrow> millis \<Rightarrow> port \<Rightarrow> (probe_error + data_plane_report) option" where
  "probe nt4 nt6 proto timeout p =
     (case (trace_probe_one nt4 proto timeout p trace_v4_target, trace_probe_one nt6 proto timeout p trace_v6_target) of
        (Some v4, Some v6) \<Rightarrow> Some (join_families v4 v6)
      | _ \<Rightarrow> None)"

definition probe_timeout_default :: millis where "probe_timeout_default = 10000"

section \<open>Lemmas\<close>

lemma starts_with_more: "starts_with p s \<Longrightarrow> starts_with p (s @ t)"
  by (auto simp: starts_with_def strip_prefix_Some)

lemma starts_with_less: "starts_with p (s @ t) \<Longrightarrow> length p \<le> length s \<Longrightarrow> starts_with p s"
  by (auto simp: starts_with_def strip_prefix_Some append_eq_append_conv2)

lemma before_length: "before p s = Some a \<Longrightarrow> length p \<le> length s"
proof (induction s arbitrary: a)
  case (Cons c s)
  show ?case
  proof (cases "starts_with p (c # s)")
    case True
    then show ?thesis unfolding starts_with_def by (metis length_append le_add1 not_None_eq strip_prefix_Some)
  next
    case False
    with Cons show ?thesis by (auto intro: le_SucI)
  qed
qed simp

lemma before_append: "before p s = Some a \<Longrightarrow> before p (s @ t) = Some a"
proof (induction s arbitrary: a)
  case (Cons c s)
  have "starts_with p (c # s @ t) = starts_with p (c # s)"
    using starts_with_more [of p "c # s" t] starts_with_less [of p "c # s" t] before_length [OF Cons.prems] by auto
  with Cons show ?case by (auto split: if_splits)
qed simp

text \<open>The answer as a whole decides: what the client makes of it does not depend on the pieces in
  which it arrives.\<close>

definition connect_answer :: "conn \<Rightarrow> (io_error + unit)" where
  "connect_answer c =
     (case before crlf2 (c_in c) of
        None \<Rightarrow> Inl (IoOther ''HTTP proxy closed connection during CONNECT'')
      | Some h \<Rightarrow> connect_verdict h)"

lemma read_connect_whole:
  assumes "length (head @ c_in c) < max_header_bytes" and "length (c_in c) < length ks"
  shows "\<exists>rest. suffix rest (c_in c) \<and>
    read_connect ks head c =
      Some (case before crlf2 (head @ c_in c) of
              None \<Rightarrow> Inl (IoOther ''HTTP proxy closed connection during CONNECT'')
            | Some h \<Rightarrow> (case connect_verdict h of Inl e \<Rightarrow> Inl e | Inr _ \<Rightarrow> Inr (c\<lparr>c_in := rest\<rparr>)))"
  using assms
proof (induction ks arbitrary: head c)
  case (Cons k ks)
  define n where "n = min (max k (Suc 0)) 1024"
  have n: "0 < n" by (simp add: n_def)
  show ?case
  proof (cases "before crlf2 head")
    case (Some h)
    then have "before crlf2 (head @ c_in c) = Some h" by (rule before_append)
    moreover have "c\<lparr>c_in := c_in c\<rparr> = c" by simp
    ultimately show ?thesis using Some Cons.prems
      by (intro exI [of _ "c_in c"]) (simp add: read_connect.simps [of "k # ks"] split: sum.splits)
  next
    case None
    show ?thesis
    proof (cases "c_in c = []")
      case True
      with None Cons.prems show ?thesis by (intro exI [of _ "[]"]) (simp add: read_connect.simps [of "k # ks"])
    next
      case False
      let ?c = "c\<lparr>c_in := drop n (c_in c)\<rparr>"
      have upd: "?c\<lparr>c_in := b\<rparr> = c\<lparr>c_in := b\<rparr>" for b by (cases c) simp
      have "take n (c_in c) \<noteq> []" using False n by simp
      with None Cons.prems have "read_connect (k # ks) head c = read_connect ks (head @ take n (c_in c)) ?c"
        by (simp add: read_connect.simps [of "k # ks"] Let_def n_def [symmetric])
      moreover have "\<exists>rest. suffix rest (c_in ?c) \<and>
        read_connect ks (head @ take n (c_in c)) ?c =
           Some (case before crlf2 ((head @ take n (c_in c)) @ c_in ?c) of
              None \<Rightarrow> Inl (IoOther ''HTTP proxy closed connection during CONNECT'')
            | Some h \<Rightarrow> (case connect_verdict h of Inl e \<Rightarrow> Inl e | Inr _ \<Rightarrow> Inr (?c\<lparr>c_in := rest\<rparr>)))"
        by (rule Cons.IH) (use Cons.prems n False in \<open>auto simp: neq_Nil_conv\<close>)
      then obtain rest where "suffix rest (drop n (c_in c))"
        "read_connect ks (head @ take n (c_in c)) ?c =
           Some (case before crlf2 (head @ c_in c) of
              None \<Rightarrow> Inl (IoOther ''HTTP proxy closed connection during CONNECT'')
            | Some h \<Rightarrow> (case connect_verdict h of Inl e \<Rightarrow> Inl e | Inr _ \<Rightarrow> Inr (c\<lparr>c_in := rest\<rparr>)))"
        by (auto simp: upd cong: option.case_cong sum.case_cong)
      ultimately show ?thesis
        by (intro exI [of _ rest]) (simp add: suffix_order.trans [OF _ suffix_drop])
    qed
  qed
qed simp

lemma map_err_eq_Inl: "map_err g r = Inl x \<longleftrightarrow> (\<exists>e. r = Inl e \<and> x = g e)"
  by (cases r) auto

lemma trace_probe_one_ok:
  assumes "trace_probe_one nt proto timeout p target = Some (Inr (t, ms))"
  obtains raw body where "exchange nt proto p target = Some (Inr raw)" "ms = pn_time nt" "ms \<le> timeout"
    "status_ok (fst (split_headers raw))" "decode_http_body (snd (split_headers raw)) = Some body"
    "t = parse_trace (from_utf8_lossy body)"
  using assms
  by (auto simp: trace_probe_one_def read_response_def bind_res_eq_Inr split: option.splits if_splits sum.splits prod.splits)

section \<open>Properties\<close>

text \<open>The verdict on a proxy's answer to CONNECT depends on the bytes alone, not on the pieces in
  which they arrive, for answers below the limit of 8192 bytes: the connection is accepted iff the
  first line of what stands before the first blank line has a status of 2xx; an answer that ends
  without a blank line is an error. An accepted stream goes on somewhere in the bytes that follow.\<close>

theorem connect_answer_unsegmented:
  assumes "length (c_in c) < 8192" and "length (c_in c) < length ks"
  shows "\<exists>rest. suffix rest (c_in c) \<and>
    read_connect ks [] c =
      Some (case connect_answer c of Inl e \<Rightarrow> Inl e | Inr _ \<Rightarrow> Inr (c\<lparr>c_in := rest\<rparr>))"
proof -
  obtain rest where "suffix rest (c_in c)" "read_connect ks [] c =
      Some (case before crlf2 ([] @ c_in c) of
              None \<Rightarrow> Inl (IoOther ''HTTP proxy closed connection during CONNECT'')
            | Some h \<Rightarrow> (case connect_verdict h of Inl e \<Rightarrow> Inl e | Inr _ \<Rightarrow> Inr (c\<lparr>c_in := rest\<rparr>)))"
    using read_connect_whole [of "[]" c ks] assms by (auto simp: max_header_bytes_def)
  then show ?thesis by (intro exI [of _ rest]) (auto simp: connect_answer_def split: option.splits)
qed

text \<open>C28: A probe reports what a target has said in time. When a probe reports that the traffic goes
  through WARP, at least one of the two targets has answered over a tunnel through the proxy within
  the time limit, with a status of 2xx and a trace that says \<open>warp=on\<close>; and the latency that is
  reported is within the limit.\<close>

theorem warp_on_was_answered:
  assumes "probe nt4 nt6 proto timeout p = Some (Inr r)"
  shows "dp_latency r \<le> timeout \<and>
    (warp_on r \<longrightarrow>
      (\<exists>(nt, target) \<in> {(nt4, trace_v4_target), (nt6, trace_v6_target)}. \<exists>sock raw body.
         open_tunnel nt proto p target = Some (Inr sock) \<and> pn_time nt \<le> timeout \<and>
         exchange nt proto p target = Some (Inr raw) \<and> status_ok (fst (split_headers raw)) \<and>
         decode_http_body (snd (split_headers raw)) = Some body \<and>
         tr_warp (parse_trace (from_utf8_lossy body)) = Some ''on''))" (is "_ \<and> (_ \<longrightarrow> ?answered)")
proof -
  from assms obtain v4 v6 where v: "trace_probe_one nt4 proto timeout p trace_v4_target = Some v4"
    "trace_probe_one nt6 proto timeout p trace_v6_target = Some v6" and r: "join_families v4 v6 = Inr r"
    by (auto simp: probe_def split: option.splits)
  have tunnel: "\<exists>sock. open_tunnel nt proto p target = Some (Inr sock)" if "exchange nt proto p target = Some (Inr raw)" for nt target raw
    using that by (auto simp: exchange_def split: option.splits sum.splits)
  have answered: "\<exists>sock raw body. open_tunnel nt proto p target = Some (Inr sock) \<and> pn_time nt \<le> timeout \<and>
         exchange nt proto p target = Some (Inr raw) \<and> status_ok (fst (split_headers raw)) \<and>
         decode_http_body (snd (split_headers raw)) = Some body \<and> t = parse_trace (from_utf8_lossy body)"
    and time: "ms \<le> timeout"
    if "trace_probe_one nt proto timeout p target = Some (Inr (t, ms))" for nt target t ms
    using that by (blast elim: trace_probe_one_ok dest: tunnel)+
  have "(\<exists>t ms. trace_probe_one nt4 proto timeout p trace_v4_target = Some (Inr (t, ms)) \<and> tr_warp t = Some ''on'') \<or>
      (\<exists>t ms. trace_probe_one nt6 proto timeout p trace_v6_target = Some (Inr (t, ms)) \<and> tr_warp t = Some ''on'')"
    if "warp_on r"
    using r v that by (cases v4; cases v6) (auto simp: join_families_def warp_on_def is_on_def split: option.splits)
  then have "warp_on r \<Longrightarrow> ?answered" using answered by fast
  moreover have "dp_latency r \<le> timeout"
    using r v time by (cases v4; cases v6) (auto simp: join_families_def)
  ultimately show ?thesis by blast
qed

lemma authorities:
  "connect_authority trace_v6_target 443 = ''2606:4700:4700::1111:443''"
  "connect_authority trace_v4_target 443 = ''1.1.1.1:443''"
proof -
  have "show_nat 443 = ''443''" by code_simp
  then show "connect_authority trace_v6_target 443 = ''2606:4700:4700::1111:443''"
    "connect_authority trace_v4_target 443 = ''1.1.1.1:443''"
    by (simp_all add: connect_authority_def trace_v6_target_def trace_v4_target_def)
qed

lemmas socket_defs = parser_defs parse_socket_addr_def read_socket_v4_def read_socket_v6_def read_port_def

text \<open>Through an HTTP proxy the IPv6 target is not named properly. The authority of the CONNECT
  request has no brackets around the address, so it is not an address with a port, but reads as
  another IPv6 address, whose last group is the port.\<close>

theorem v6_connect_ambiguous:
  "parse_socket_addr (connect_authority trace_v6_target 443) = None \<and>
   parse_ip (connect_authority trace_v6_target 443) = Some (IpV6 0x26064700470000000000000011110443) \<and>
   parse_socket_addr (connect_authority trace_v4_target 443) \<noteq> None"
  by (simp add: authorities socket_defs)

lemma ok_line:
  "second_word ''HTTP/1.1 200 OK'' = Some ''200''" "str_lines ''HTTP/1.1 200 OK'' = [''HTTP/1.1 200 OK'']"
  "str_lines (''HTTP/1.1 200 OK'' @ crlf2) = [''HTTP/1.1 200 OK'', []]" "str_lines ''warp=on'' = [''warp=on'']"
  "trim_str ''warp'' = ''warp''" "trim_str ''on'' = ''on''" "trim_end ''warp=on'' = ''warp=on''"
  by code_simp+

lemma ok_code: "parse_u16 ''200'' = Some 200"
  by (simp add: parse_uint_def is_digit_def digit_val_def)

lemma ok_text:
  "from_utf8_lossy ''HTTP/1.1 200 OK'' = ''HTTP/1.1 200 OK''" "from_utf8_lossy (''HTTP/1.1 200 OK'' @ crlf2) = ''HTTP/1.1 200 OK'' @ crlf2"
  "from_utf8_lossy ''warp=on'' = ''warp=on''"
  by (rule lossy_ascii, simp add: is_ascii_def crlf2_def)+

theorem connect_answer_unsegmented_witness:
  "\<exists>rest. read_connect (replicate 30 3) [] \<lparr>c_in = ''HTTP/1.1 200 OK'' @ crlf2 @ ''x'', c_out = [], c_wleft = None\<rparr> =
     Some (Inr \<lparr>c_in = rest, c_out = [], c_wleft = None\<rparr>)"
proof -
  let ?c = "\<lparr>c_in = ''HTTP/1.1 200 OK'' @ crlf2 @ ''x'', c_out = [], c_wleft = None\<rparr>"
  have "length (c_in ?c) < 8192" "length (c_in ?c) < length (replicate 30 (3 :: nat))" by (simp_all add: crlf2_def)
  note answer = connect_answer_unsegmented [OF this]
  have "connect_verdict ''HTTP/1.1 200 OK'' = Inr ()"
    by (simp add: connect_verdict_def ok_line ok_code ok_text starts_with_def)
  moreover have "before crlf2 (c_in ?c) = Some ''HTTP/1.1 200 OK''"
    by (simp add: crlf2_def starts_with_def)
  ultimately have "connect_answer ?c = Inr ()" by (simp add: connect_answer_def)
  with answer show ?thesis by auto
qed

text \<open>A proxy that accepts, and a target that answers over it.\<close>

definition demo_net :: "string \<Rightarrow> probe_net" where
  "demo_net trace =
     \<lparr>pn_connect = (\<lambda>_. Inr \<lparr>c_in = [CHR 0x05, CHR 0x00, CHR 0x05, CHR 0x00, CHR 0x00, CHR 0x01] @ replicate 6 (CHR 0x00), c_out = [], c_wleft = None\<rparr>),
      pn_arrivals = [],
      pn_tls = (\<lambda>_ c. Inr \<lparr>c_in = ''HTTP/1.1 200 OK'' @ crlf2 @ trace, c_out = [], c_wleft = None\<rparr>),
      pn_read_error = None, pn_show = (\<lambda>_. []), pn_time = 80\<rparr>"

definition dead_net :: probe_net where
  "dead_net = (demo_net [])\<lparr>pn_connect := \<lambda>_. Inl (Refused ''refused'')\<rparr>"

lemma demo_handshake:
  "\<exists>c. handshake trace_v4_target 443 \<lparr>c_in = [CHR 0x05, CHR 0x00, CHR 0x05, CHR 0x00, CHR 0x00, CHR 0x01] @ replicate 6 (CHR 0x00), c_out = [], c_wleft = None\<rparr> = Inr c"
  by (simp add: handshake_def probe_target_def probe_reply_def read_exact_def trace_v4_target_def parser_defs eval_nat_numeral)

lemma demo_response:
  "read_response (''HTTP/1.1 200 OK'' @ crlf2 @ ''warp=on'') = Some (Inr \<lparr>tr_ip = None, tr_colo = None, tr_warp = Some ''on''\<rparr>)"
proof -
  have "split_headers (''HTTP/1.1 200 OK'' @ crlf2 @ ''warp=on'') = (''HTTP/1.1 200 OK'' @ crlf2, ''warp=on'')"
    by (simp add: crlf2_def)
  moreover have "status_ok (''HTTP/1.1 200 OK'' @ crlf2)"
    unfolding status_ok_def ok_text ok_line by (simp add: ok_line ok_code)
  moreover have "decode_http_body ''warp=on'' = Some ''warp=on''"
    by (simp add: decode_http_body_def ok_text hex_digits_def trim_end_matches_def hex_val_def)
  moreover have "parse_trace ''warp=on'' = \<lparr>tr_ip = None, tr_colo = None, tr_warp = Some ''on''\<rparr>"
    by (simp add: parse_trace_def trace_line_def ok_line)
  ultimately show ?thesis by (simp add: read_response_def ok_text crlf2_def)
qed

theorem warp_on_was_answered_witness:
  "\<exists>r. probe (demo_net ''warp=on'') dead_net ProbeSocks5 probe_timeout_default 40000 = Some (Inr r) \<and>
     warp_on r \<and> dp_latency r \<le> 10000"
proof -
  have "exchange (demo_net ''warp=on'') ProbeSocks5 40000 trace_v4_target = Some (Inr (''HTTP/1.1 200 OK'' @ crlf2 @ ''warp=on''))"
    using demo_handshake by (auto simp: exchange_def open_tunnel_def demo_net_def)
  then have "trace_probe_one (demo_net ''warp=on'') ProbeSocks5 probe_timeout_default 40000 trace_v4_target =
      Some (Inr (\<lparr>tr_ip = None, tr_colo = None, tr_warp = Some ''on''\<rparr>, 80))"
    using demo_response by (simp add: trace_probe_one_def demo_net_def probe_timeout_default_def)
  moreover have "trace_probe_one dead_net ProbeSocks5 probe_timeout_default 40000 trace_v6_target =
      Some (Inl (ProxyConnect (''refused'' @ '' (port '' @ show_nat (unat (40000 :: port)) @ '')'')))"
    by (simp add: trace_probe_one_def exchange_def open_tunnel_def dead_net_def demo_net_def probe_timeout_default_def)
  ultimately obtain r where r: "probe (demo_net ''warp=on'') dead_net ProbeSocks5 probe_timeout_default 40000 = Some (Inr r)"
    and on: "warp_on r"
    by (auto simp: probe_def join_families_def warp_on_def is_on_def)
  from warp_on_was_answered [OF r] r on show ?thesis by (auto simp: probe_timeout_default_def)
qed

end
