(* ===== verification/Spec2Isabelle.thy ===== *)
theory Spec2Isabelle
  imports Auth WebUi Config Logs Status Backup Process LogService Probe
begin

text \<open>
  WarpDeck (\<open>crates/warpdeck-server\<close>, paths below are under its \<open>src/\<close>) runs a number of Cloudflare
  WARP clients as child processes, each with a local proxy port, and puts one authenticated SOCKS5
  and HTTP proxy in front of them. What is to run is kept in an SQLite database (desired state) and
  edited through an HTTP API; a reconciler brings the processes in line with it; a manager starts,
  watches and stops them; a health monitor judges them; the built-in gateway hands each proxy session
  the port of a healthy one.

  \<^bold>\<open>Parts and theories.\<close>

  \<^item> Foundations. \<open>Prelude\<close>: collections of facts, results as sums, fixed-width arithmetic. \<open>RustStr\<close>,
    \<open>RustNet\<close>: the methods of \<open>str\<close> and the address parsers of the standard library that the code calls,
    on byte strings. \<open>Stream\<close>: a TCP connection as bytes in and out. \<open>RuntimeEnv\<close>: the clock, calls to
    the world outside (\<open>world\<close>, \<open>call\<close>), paths and contexts of instances (\<open>runtime/clock.rs\<close>, \<open>context.rs\<close>,
    \<open>paths.rs\<close>, \<open>control.rs\<close>, \<open>credentials.rs\<close>).
  \<^item> Data plane. \<open>Net\<close> (\<open>net.rs\<close>), \<open>Pool\<close>, \<open>SessionLimits\<close>, \<open>Socks5\<close>, \<open>HttpProxy\<close> and \<open>GatewayConfig\<close> and
    \<open>Gateway\<close> (\<open>gateway/pool.rs\<close>, \<open>limits.rs\<close>, \<open>socks5.rs\<close>, \<open>http.rs\<close>, \<open>mod.rs\<close>). A session is a
    function from the client's bytes and the configuration to what it ended with, what was written and
    what was reserved. The gateway's loop is cut at its suspension points; its interleaving with the
    tasks that apply settings and stop it is the step relation of \<open>Gateway\<close>.
  \<^item> Instances. \<open>Instance\<close>, \<open>Registry\<close> (\<open>runtime/instance.rs\<close>, \<open>runtime/registry.rs\<close>), \<open>Backoff\<close>,
    \<open>WarpCli\<close> (\<open>runtime/warp_cli.rs\<close>, \<open>mdm.rs\<close>), \<open>Health\<close> and \<open>Probe\<close> (\<open>runtime/health.rs\<close>, \<open>runtime/probe/\<close>),
    \<open>Lifecycle\<close> (\<open>crash.rs\<close>, \<open>readiness.rs\<close>, \<open>stop.rs\<close>, \<open>flow.rs\<close>, \<open>dbus.rs\<close>, \<open>service.rs\<close>), \<open>Process\<close>
    (\<open>runtime/process.rs\<close>, \<open>observability/file_logger.rs\<close>) and \<open>Manager\<close> (\<open>runtime/manager.rs\<close>,
    \<open>health_monitor.rs\<close>).
  \<^item> Desired state. \<open>Database\<close> (the tables of \<open>migrations/\<close>, statements that may fail, transactions),
    \<open>Repo\<close> (\<open>db/repo.rs\<close>), \<open>Profiles\<close> (\<open>db/account.rs\<close>, \<open>db/profiles.rs\<close>, \<open>db/uow.rs\<close>,
    \<open>crypto/secret_store.rs\<close>) and \<open>Api\<close> (the handlers of \<open>api/\<close> that write, \<open>api/dto.rs\<close>).
  \<^item> Convergence. \<open>Reconciler\<close> (\<open>reconciler/mod.rs\<close>): a round over the database, the manager and the gateway.
  \<^item> Access. \<open>Auth\<close> (\<open>auth/\<close>, \<open>api/auth.rs\<close>, \<open>api/middleware.rs\<close>, \<open>api/setup.rs\<close>, and \<open>serve\<close>, the routing of
    requests through the guard to their handlers).
  \<^item> Around it. \<open>WebUi\<close> (\<open>app.rs\<close>, \<open>observability/mod.rs\<close>), \<open>Config\<close> (\<open>config.rs\<close>, \<open>crypto/master_key.rs\<close>),
    \<open>Logs\<close> and \<open>LogService\<close> (\<open>runtime/logs.rs\<close>, \<open>log_tail.rs\<close>, \<open>observability/redactor.rs\<close>,
    \<open>api/logs.rs\<close>; the order of log sources is an instance of the library's linear orders), \<open>Status\<close>
    (\<open>api/system.rs\<close>, \<open>api/events.rs\<close>), and, of the development tasks, \<open>Timestamp\<close> and \<open>Backup\<close>
    (\<open>crates/xtask/src/tasks/backup.rs\<close>).
  \<^item> This theory: the start and the ordered shutdown of \<open>main.rs\<close> and the properties of all parts together.

  \<^bold>\<open>State and operations.\<close> A struct is a record, an enum a datatype, a table a list of rows. Operations
  pass their state explicitly: \<open>store\<close> for the database with the failures that statements will meet,
  \<open>manager\<close> for the tables and the registry of the manager, \<open>gateway\<close> for the shared state of the proxy,
  \<open>recon\<close> for the three together. A failure is a value (\<open>Inl\<close>), a panic is \<open>None\<close>. Ports and addresses
  are words; counters that saturate or wrap do so in the model.

  \<^bold>\<open>Contracts.\<close> \<open>backoff_policy\<close> (Backoff), \<open>instance_store\<close> (Registry), \<open>proxy_applier\<close> (Gateway) and
  \<open>warp_runtime\<close> (Reconciler) state what a client relies on. Each is interpreted on the code's own
  definitions (\<open>recommended\<close>, \<open>reg\<close>, \<open>gw\<close>, \<open>mgr\<close>), and the clients' properties rest on those facts: the
  round's theorems hold for every runtime that keeps the laws of \<open>warp_runtime\<close>, and the manager does.

  \<^bold>\<open>What the lemmas show.\<close>

  \<^item> The proxy: no session gets anywhere without an admitted peer and, when configured, the exact
    credentials; sessions leave only through healthy instances; rates and numbers of sessions are
    bounded; the gateway serves only settings that were applied, and applies new ones at once.
  \<^item> The tables: every request keeps ids distinct, bindings valid and single-owner profiles single,
    also when statements fail; secrets refine a map; a profile that is accepted resolves; passwords and
    configuration change together.
  \<^item> The runtime: starts are honest, crashes of earlier generations are ignored, health verdicts do not
    resurrect, a round follows the decision table, loses no process and backs off with a cap; a probe
    that says \<open>warp=on\<close> was answered in time.
  \<^item> Access: nothing changes without a session and its token but for the first set-up, which happens
    once; guessing is limited, also when logins come at the same time.
  \<^item> Files: paths of the web UI and of logs are confined, appended lines are published once, output is
    redacted before it is written, a restore checks and saves before it replaces.
  \<^item> Whole server (below): every configuration served was stored, except the one that every start opens
    the gateway with; desired state and processes stay consistent in all reachable states; a shutdown
    accounts for every instance and ends the gateway's loop.

  \<^bold>\<open>Loops and bounds.\<close> Loops over data recurse on it; the loops that wait for a deadline recurse on the
  time that is left (a \<open>termination\<close> proof each), the readiness probe on its number of attempts. Reads in
  pieces take a list that says how much each read finds; its end means that nothing more arrives, and
  the properties hold for every list. No function has fuel. Long-lived tasks (the gateway's loop,
  watchers, the reconciler) are step functions, and properties hold for all sequences of their steps.

  \<^bold>\<open>Granularity.\<close> A request and a round are one step each with respect to each other. Where the code of a
  request gives way to others in a manner that matters, the request is also cut into its parts: the login
  of \<open>Auth\<close> checks the limiter, compares and records in three steps that interleave with those of other
  logins. What watchers and the health monitor report while a round waits for the runtime is the list
  \<open>evs\<close> of steps between its calls. Calls to the token bucket come in the order in which they take its
  lock, with clock readings in any order. The stops of a shutdown are not interleaved with other tasks,
  and its deadline is left out; the shutdown signal is sent before them, so the gateway's loop may meet it
  at any suspension point.

  \<^bold>\<open>Parameters.\<close> SQLite and sqlx (which statement fails), the file system, processes and signals, docker,
  TLS and sockets, AES-GCM (a pair of functions of which only that decryption inverts encryption is
  assumed), Argon2, the random source, the two regular expressions of the redactor, JSON bodies (as their
  parsed values), the printing and parsing of times, Rust's Debug formatting. The bucket's \<open>f64\<close> numbers
  are rationals. tokio's \<open>Notify\<close> wakes those who wait at that moment and nobody else.

  \<^bold>\<open>Not modelled.\<close> Test doubles (\<open>runtime/fake.rs\<close>, the test application in \<open>app.rs\<close>), tests and examples;
  the set-up of tracing; the transport of server-sent events; the migration runner and the pragmas of
  \<open>db/mod.rs\<close>; waiting for signals; password hashing (\<open>auth/password.rs\<close> only calls Argon2); a log file that
  is cut or cannot be read while a page of it is read; the constant health endpoint; the command line and the build,
  release and end-to-end tasks of \<open>crates/xtask\<close>, which only call docker and git.
\<close>

section \<open>The whole server\<close>

text \<open>The tables without users and sessions, and what the requests outside the API's guard leave of
  them.\<close>

definition tables :: "database \<Rightarrow> instance_row list \<times> profile_row list \<times> secret_row list \<times> proxy_row option" where
  "tables d = (db_instances d, db_profiles d, db_secrets d, db_proxy d)"

lemma tables_desired: "desired_part d' = desired_part d \<Longrightarrow> tables d' = tables d"
  by (simp add: tables_def desired_part_def)

lemma tables_api_ok: "tables d' = tables d \<Longrightarrow> api_ok d' = api_ok d"
  by (simp add: tables_def api_ok_def db_ok_def desired_ok_def db_wf_def warp_plus_single_def bound_count_def
      profiles_ok_def profile_exists_def proxy_ok_def split: option.splits)

lemma tables_stored_proxy: "tables d' = tables d \<Longrightarrow> stored_proxy d' = stored_proxy d"
  by (simp add: tables_def stored_proxy_def)

lemma create_admin_tables: "tables (st_db (snd (create_admin env body s))) = tables (st_db s)"
  using create_admin_only_users [where us = "[]" and env = env and body = body and s = s] by (simp add: tables_def desired_part_def)

lemma guard_api_ok:
  assumes "\<And>u c i s. api_ok (st_db s) \<Longrightarrow> api_ok (st_db (snd (k u c i s)))" and "api_ok (st_db s)"
  shows "api_ok (st_db (snd (auth_guard env now rq k s)))"
proof -
  obtain r s' where g: "auth_guard env now rq k s = (r, s')" by fastforce
  then show ?thesis
  proof (cases rule: auth_guard_cases)
    case (refused e)
    with g assms(2) tables_api_ok [OF tables_desired] show ?thesis by (metis snd_conv)
  next
    case (passed sid se u s1)
    from passed(6) have "api_ok (st_db s1)" using assms(2) tables_api_ok [OF tables_desired] by metis
    from assms(1) [OF this, of "\<lparr>au_id = us_id u, au_name = us_name u\<rparr>" "se_csrf se" sid] passed(7) g show ?thesis by simp
  qed
qed

lemma serve_api_ok:
  assumes "api_ok (st_db s)"
  shows "api_ok (st_db (snd (serve env cy (now, rq) (l, s))))"
proof (cases rq)
  case (Setup q)
  then show ?thesis using assms tables_api_ok [OF create_admin_tables] by simp
next
  case SetupStatus
  with assms show ?thesis by (simp add: setup_status_db)
next
  case (Login secure inst ip q)
  have "api_ok (st_db (snd (snd (login env secure now inst ip q l s))))"
    by (rule iffD2 [OF tables_api_ok [OF tables_desired [OF login_desired]] assms])
  with Login show ?thesis by (simp only: serve.simps)
next
  case (Logout r)
  have "api_ok (st_db (snd (logout u c i s)))" if "api_ok (st_db s)" for u c i s
    using that by (rule iffD2 [OF tables_api_ok [OF tables_desired [OF logout_desired]]])
  with Logout assms show ?thesis by (simp add: guard_api_ok)
next
  case (Me r)
  with assms show ?thesis by (simp add: guard_api_ok me_def)
next
  case (Api r c)
  with assms show ?thesis by (simp add: guard_api_ok api_exec_keeps)
qed

text \<open>The start of the server (\<open>serve\<close> of \<open>src/main.rs\<close>): no instance is known, and the gateway is
  given the stored proxy configuration before its loop and the reconciler begin. It fails when
  the configuration cannot be read.\<close>

definition manager_new :: "'e world \<Rightarrow> 'e manager" where
  "manager_new w = \<lparr>mg_world = w, mg_reg = [], mg_bus = [], mg_runs = [], mg_current = []\<rparr>"

definition server_start :: "'s sem_ops \<Rightarrow> nat \<Rightarrow> 'e world \<Rightarrow> store \<Rightarrow> ('e manager, 's gateway) recon option" where
  "server_start sops now w s =
     (case proxy_repo_get s of
        (Inl _, _) \<Rightarrow> None
      | (Inr cfg, s1) \<Rightarrow>
          Some \<lparr>rc_store = s1, rc_mgr = manager_new w,
            rc_gw = snd (apply_config sops now (proxy_settings_from_config cfg) gateway_new),
            rc_apply_error = None, rc_reads = 0\<rparr>)"

lemma server_start_Some:
  assumes "server_start sops now w s = Some st"
  shows "st_db (rc_store st) = st_db s \<and> rc_mgr st = manager_new w \<and>
    rc_gw st = snd (apply_config sops now (proxy_settings_from_config (stored_proxy (st_db s))) gateway_new)"
  using assms by (auto simp: server_start_def dest!: proxy_repo_get_Inr split: prod.splits sum.splits)

text \<open>The server's processes: requests, rounds of the reconciler, reports of watchers and of the
  health monitor, and the gateway's loop. A round may run while tasks report (\<open>evs\<close>); it reads
  the stored proxy configuration once, so it is one step for the requests. The list holds the
  proxy configurations that the database has had, the newest first; the last is that of the
  start.\<close>

inductive sys_reach :: "'s sem_ops \<Rightarrow> 'e manager_ops \<Rightarrow> crypto \<Rightarrow> proxy_config list \<Rightarrow> ('e manager, 's gateway) recon \<Rightarrow> bool"
  for sops mops cy where
  boot: "api_ok (st_db s) \<Longrightarrow> server_start sops now w s = Some st
    \<Longrightarrow> sys_reach sops mops cy [stored_proxy (st_db s)] st"
| request_step: "sys_reach sops mops cy h st \<Longrightarrow> serve env cy (now, rq) (l, rc_store st) = (l', s')
    \<Longrightarrow> sys_reach sops mops cy (stored_proxy (st_db s') # h) (st\<lparr>rc_store := s'\<rparr>)"
| round_step: "sys_reach sops mops cy h st \<Longrightarrow> re_crypto env = cy \<Longrightarrow> re_proxy env = builtin_gateway sops now
    \<Longrightarrow> re_runtime env = manager_runtime mops (fold task_step evs)
    \<Longrightarrow> sys_reach sops mops cy h (reconcile_once env st)"
| task: "sys_reach sops mops cy h st \<Longrightarrow> sys_reach sops mops cy h (st\<lparr>rc_mgr := task_step ev (rc_mgr st)\<rparr>)"
| gateway: "sys_reach sops mops cy h st \<Longrightarrow> loop_step e (rc_gw st) = Some g'
    \<Longrightarrow> sys_reach sops mops cy h (st\<lparr>rc_gw := g'\<rparr>)"

lemma mg_ok_task: "mg_ok m \<Longrightarrow> mg_live m \<subseteq> dom (reg_get (mg_reg m)) \<Longrightarrow>
    mg_ok (task_step ev m) \<and> mg_live (task_step ev m) \<subseteq> dom (reg_get (mg_reg (task_step ev m)))"
  using task_step_frame [where ev = ev and m = m] by (simp add: mg_ok_def mg_live_def same_entries_def)

lemma round_mgr:
  assumes "re_runtime env = manager_runtime mops (fold task_step evs)" "mg_ok (rc_mgr st)"
    "mg_live (rc_mgr st) \<subseteq> dom (reg_get (mg_reg (rc_mgr st)))"
  shows "mg_ok (rc_mgr (reconcile_once env st)) \<and>
    mg_live (rc_mgr (reconcile_once env st)) \<subseteq> dom (reg_get (mg_reg (rc_mgr (reconcile_once env st))))"
proof -
  obtain r s where l: "repo_list (rc_store st) = (r, s)" by fastforce
  show ?thesis
  proof (cases r)
    case (Inl e)
    with l assms(2,3) show ?thesis by (simp add: reconcile_once_def on_store_def)
  next
    case (Inr desired)
    from mgr.round_settled [OF assms(1,2) _ l [unfolded Inr]] assms(3) show ?thesis
      by (simp add: tracked_def settled_def entries_def manager_runtime_def)
  qed
qed

lemma sys_invariants:
  "sys_reach sops mops cy h st \<Longrightarrow> api_ok (st_db (rc_store st)) \<and> mg_ok (rc_mgr st) \<and>
     mg_live (rc_mgr st) \<subseteq> dom (reg_get (mg_reg (rc_mgr st))) \<and> stored_proxy (st_db (rc_store st)) \<in> set h"
proof (induction rule: sys_reach.induct)
  case (boot s now w st)
  with server_start_Some [OF boot(2)] show ?case by (simp add: mg_ok_def mg_live_def manager_new_def)
next
  case (request_step h st env now rq l l' s')
  from serve_api_ok [of "rc_store st" env cy now rq l] request_step show ?case by simp
next
  case (round_step h st env now evs)
  then show ?case
    using round_mgr [of env mops evs st] reconcile_once_store [where st = st and env = env] by (simp add: stored_proxy_def)
next
  case (task h st ev)
  then show ?case by (simp add: mg_ok_task)
qed simp

lemma sys_history: "sys_reach sops mops cy h st \<Longrightarrow> h \<noteq> []"
  by (induction rule: sys_reach.induct) simp_all

text \<open>What the gateway may have been given: settings that render a configuration, or at the start
  those of the stored configuration without credentials.\<close>

definition handed :: "proxy_config list \<Rightarrow> proxy_settings \<Rightarrow> bool" where
  "handed h s \<longleftrightarrow> (\<exists>c \<in> set h. renders c s) \<or> s = proxy_settings_from_config (last h)"

lemma handed_more: "handed h s \<Longrightarrow> h \<noteq> [] \<Longrightarrow> handed (c # h) s"
  by (auto simp: handed_def)

lemma sys_gateway:
  "sys_reach sops mops cy h st \<Longrightarrow> \<exists>hist. gw_reach sops hist (rc_gw st) \<and> (\<forall>(now, s) \<in> set hist. handed h s)"
proof (induction rule: sys_reach.induct)
  case (boot s now w st)
  from gw_reach.apply_step [OF gw_reach.start, of sops now "proxy_settings_from_config (stored_proxy (st_db s))"]
    server_start_Some [OF boot(2)]
  have "gw_reach sops [(now, proxy_settings_from_config (stored_proxy (st_db s)))] (rc_gw st)" by simp
  then show ?case by (intro exI [of _ "[(now, proxy_settings_from_config (stored_proxy (st_db s)))]"]) (simp add: handed_def)
next
  case (request_step h st env now rq l l' s')
  from request_step.IH obtain hist where "gw_reach sops hist (rc_gw st)" "\<forall>(now, s) \<in> set hist. handed h s" by blast
  with handed_more [OF _ sys_history [OF request_step.hyps(1)]] show ?case by (intro exI [of _ hist]) auto
next
  case (round_step h st env now evs)
  then obtain hist where hist: "gw_reach sops hist (rc_gw st)" "\<forall>(now, s) \<in> set hist. handed h s" by blast
  consider "rc_gw (reconcile_once env st) = rc_gw st" | "rc_gw (reconcile_once env st) = snd (gw_stop (rc_gw st))"
    | s where "renders (stored_proxy (st_db (rc_store st))) s"
        "rc_gw (reconcile_once env st) = snd (apply_config sops now s (rc_gw st))"
    using reconcile_once_gw [of env st] round_step.hyps(3) by (auto simp: builtin_gateway_def)
  then show ?case
  proof cases
    case 1
    with hist show ?thesis by auto
  next
    case 2
    with hist gw_reach.stop_step [OF hist(1)] show ?thesis by metis
  next
    case (3 s)
    with gw_reach.apply_step [OF hist(1), of now s] have "gw_reach sops ((now, s) # hist) (rc_gw (reconcile_once env st))" by simp
    moreover have "stored_proxy (st_db (rc_store st)) \<in> set h" using sys_invariants [OF round_step.hyps(1)] by simp
    ultimately show ?thesis using hist(2) 3(1) by (intro exI [of _ "(now, s) # hist"]) (auto simp: handed_def)
  qed
next
  case (gateway h st e g')
  then show ?case using gw_reach.loop_steps by fastforce
qed fastforce+

lemma sync_proxy_unreadable:
  assumes "proxy_repo_get (rc_store st) = (Inr cfg, s1)" "pc_auth cfg" "pc_socks5 cfg \<or> pc_http cfg"
    "secret_get_plaintext (re_crypto env) ProxyPassword s1 = (q, s2)" "\<forall>pw. q \<noteq> Inr (Some pw)"
  shows "rc_gw (sync_proxy env st) = rc_gw st"
  using assms
  by (auto simp: sync_proxy_def on_store_def proxy_settings_from_config_def Let_def split: sum.splits option.splits)

section \<open>The end of the server\<close>

text \<open>After the web server has returned, the health monitor and the reconciler have ended: the gateway
  is stopped, then every instance (\<open>serve\<close> of \<open>src/main.rs\<close>, steps 4 and 5).\<close>

definition server_shutdown :: "'e manager_ops \<Rightarrow> ('e manager, 's gateway) recon \<Rightarrow> ('e manager, 's gateway) recon" where
  "server_shutdown mops st = st\<lparr>rc_gw := snd (gw_stop (rc_gw st)), rc_mgr := stop_all mops (rc_mgr st)\<rparr>"

text \<open>An instance is down when it is not in the table of running instances and the registry knows no
  other state than Stopped for it. The other end of a stop is an entry that is \<open>stuck\<close>.\<close>

definition down :: "instance_id \<Rightarrow> 'e manager \<Rightarrow> bool" where
  "down i m \<longleftrightarrow> i \<notin> mg_live m \<and> (\<forall>e. reg_get (mg_reg m) i = Some e \<longrightarrow> ir_state e = Stopped)"

lemma reg_get_on_stopped [simp]:
  "reg_get (on_stopped i r) j = (if i = j then map_option (\<lambda>e. e\<lparr>ir_state := Stopped, ir_warp_pid := None, ir_dbus_pid := None\<rparr>)
     (reg_get r j) else reg_get r j)"
  by (simp add: on_stopped_def)

lemma rt_stop_effect:
  assumes "mg_ok m"
  shows "stuck i (snd (rt_stop ops i m)) \<or> down i (snd (rt_stop ops i m))"
    and "j \<noteq> i \<Longrightarrow> map_of (mg_runs (snd (rt_stop ops i m))) j = map_of (mg_runs m) j \<and>
      reg_get (mg_reg (snd (rt_stop ops i m))) j = reg_get (mg_reg m) j"
proof -
  obtain q m1 where t: "take_running i m = (q, m1)" by fastforce
  have m1: "q = map_of (mg_runs m) i" "mg_reg m1 = mg_reg m" "map_of (mg_runs m1) = (map_of (mg_runs m))(i := None)"
    using take_running_frame [of i m] take_runs [of i m] t by simp_all
  have "(stuck i (snd (rt_stop ops i m)) \<or> down i (snd (rt_stop ops i m))) \<and>
    (j \<noteq> i \<longrightarrow> map_of (mg_runs (snd (rt_stop ops i m))) j = map_of (mg_runs m) j \<and>
      reg_get (mg_reg (snd (rt_stop ops i m))) j = reg_get (mg_reg m) j)"
  proof (cases q)
    case None
    with t m1 show ?thesis by (auto simp: rt_stop_def down_def mg_live_def Let_def split: option.splits)
  next
    case (Some x)
    then have x: "cx_id (ru_ctx x) = i" using m1 assms by (simp add: mg_ok_def)
    obtain d x' m2 where d: "do_stop ops (ru_ctx x) x m1 = (d, x', m2)" by (cases "do_stop ops (ru_ctx x) x m1") auto
    show ?thesis
    proof (cases d)
      case (Inl e)
      with do_stop_Inl [of ops "ru_ctx x" x m1 e x' m2] d t Some m1 x show ?thesis
        by (simp add: rt_stop_def stuck_def)
    next
      case (Inr oc)
      with do_stop_Inr [of ops "ru_ctx x" x m1 oc x' m2] d t Some m1 x show ?thesis
        by (auto simp: rt_stop_def down_def mg_live_def)
    qed
  qed
  then show "stuck i (snd (rt_stop ops i m)) \<or> down i (snd (rt_stop ops i m))"
    and "j \<noteq> i \<Longrightarrow> map_of (mg_runs (snd (rt_stop ops i m))) j = map_of (mg_runs m) j \<and>
      reg_get (mg_reg (snd (rt_stop ops i m))) j = reg_get (mg_reg m) j" by auto
qed

lemma stop_ids_effect:
  "mg_ok m \<Longrightarrow> (\<forall>i \<in> D. stuck i m \<or> down i m) \<Longrightarrow>
     (\<forall>i \<in> D \<union> set is. stuck i (stop_ids ops is m) \<or> down i (stop_ids ops is m)) \<and>
     mg_live (stop_ids ops is m) \<subseteq> mg_live m"
proof (induction "is" arbitrary: m D)
  case (Cons i "is")
  let ?m = "snd (rt_stop ops i m)"
  have "\<forall>j \<in> insert i D. stuck j ?m \<or> down j ?m"
  proof
    fix j
    assume "j \<in> insert i D"
    then show "stuck j ?m \<or> down j ?m"
      using rt_stop_effect(1) [OF Cons.prems(1), of i ops] rt_stop_effect(2) [OF Cons.prems(1), of j i ops] Cons.prems(2)
      by (cases "j = i") (auto simp: stuck_def down_def mg_live_def dom_def)
  qed
  from Cons.IH [OF rt_stop_ok [OF Cons.prems(1), of ops i] this] have
    "\<forall>j \<in> insert i D \<union> set is. stuck j (stop_ids ops is ?m) \<or> down j (stop_ids ops is ?m)"
    "mg_live (stop_ids ops is ?m) \<subseteq> mg_live ?m" by blast+
  moreover have "mg_live ?m \<subseteq> mg_live m"
    using rt_stop_entries [of ops i m] by (cases "rt_stop ops i m") (auto split: sum.splits)
  ultimately show ?case by auto
qed simp

text \<open>The loop of a gateway that was told to stop moves towards its end with every event: what is left
  of its way, at most.\<close>

fun way_out :: "'s phase \<Rightarrow> nat" where
  "way_out Exited = 0"
| "way_out Top = 1"
| "way_out AwaitConfig = 1"
| "way_out (Sleeping _) = 2"
| "way_out (Serving _ _) = 3"
| "way_out (Binding _) = 4"

lemma stopped_step:
  "loop_step e g = Some g' \<Longrightarrow> gw_stopped g \<Longrightarrow>
     way_out (gw_phase g') < way_out (gw_phase g) \<and> gw_stopped g' \<and> (\<forall>cfg. gw_phase g' \<noteq> Binding cfg)"
  unfolding loop_step_def by (erule loop_at_cases) (auto simp: gw_op_defs)

lemma stopped_run:
  "loop_run es g = Some g' \<Longrightarrow> gw_stopped g \<Longrightarrow> length es + way_out (gw_phase g') \<le> way_out (gw_phase g) \<and> gw_stopped g'"
proof (induction es arbitrary: g)
  case (Cons e es)
  then obtain g1 where g1: "loop_step e g = Some g1" "loop_run es g1 = Some g'" by (auto split: option.splits)
  from stopped_step [OF g1(1) Cons.prems(2)] Cons.IH [OF g1(2)] show ?case by simp
qed simp

lemma loop_alive: "\<exists>e. loop_step e g \<noteq> None" if "gw_phase g \<noteq> Exited"
proof (cases "gw_phase g")
  case Top
  then show ?thesis by (intro exI [of _ CheckTop]) (simp add: loop_step_def)
next
  case (Binding cfg)
  then show ?thesis by (intro exI [of _ "BindOk True"]) (simp add: loop_step_def)
qed (use that in \<open>auto intro!: exI [of _ Shutdown] simp: loop_step_def\<close>)

lemma stop_phase: "gw_phase (snd (gw_stop g)) = (case gw_phase g of Binding cfg \<Rightarrow> Binding cfg | Exited \<Rightarrow> Exited | _ \<Rightarrow> Top)"
  "gw_stopped (snd (gw_stop g))"
  by (simp_all add: gw_stop_def notify_waiters_def split: phase.splits)

lemma stopped_loop_ends:
  assumes "loop_run es (snd (gw_stop g)) = Some g'"
  shows "length es \<le> 4 \<and> (gw_phase g' \<noteq> Exited \<longrightarrow> (\<exists>e. loop_step e g' \<noteq> None)) \<and>
    ((\<forall>cfg. gw_phase g \<noteq> Binding cfg) \<longrightarrow> \<not> socks5_bound g' \<and> \<not> http_bound g' \<and> (es \<noteq> [] \<longrightarrow> gw_phase g' = Exited)) \<and>
    (socks5_bound g' \<or> http_bound g' \<longrightarrow> loop_step Shutdown g' = Some (exit_loop g'))"
proof -
  note run = stopped_run [OF assms stop_phase(2)]
  have "way_out (gw_phase (snd (gw_stop g))) \<le> 4" by (cases "gw_phase (snd (gw_stop g))") simp_all
  with run have "length es \<le> 4" by simp
  moreover have "\<not> socks5_bound g' \<and> \<not> http_bound g' \<and> (es \<noteq> [] \<longrightarrow> gw_phase g' = Exited)"
    if "\<forall>cfg. gw_phase g \<noteq> Binding cfg"
  proof -
    have "way_out (gw_phase (snd (gw_stop g))) \<le> 1" using that by (simp add: stop_phase(1) split: phase.splits)
    with run have "length es + way_out (gw_phase g') \<le> 1" by simp
    then show ?thesis by (cases es; cases "gw_phase g'") (auto simp: socks5_bound_def http_bound_def)
  qed
  moreover have "loop_step Shutdown g' = Some (exit_loop g')" if "socks5_bound g' \<or> http_bound g'"
    using that by (cases "gw_phase g'") (auto simp: socks5_bound_def http_bound_def loop_step_def)
  ultimately show ?thesis using loop_alive by blast
qed

section \<open>Sessions of an open gateway\<close>

text \<open>A configuration without credentials admits every client of its allowlist: a SOCKS5 client that
  offers no authentication gets past the handshake, and an HTTP request past the credential check,
  whatever the limiter's state.\<close>

lemma http_forward_past: "\<not> before_limits (sr_end (http_forward env pool l permit rh c))"
  by (auto simp: http_forward_def before_limits_def Let_def split: option.splits prod.splits sum.splits)

lemma open_socks5:
  assumes "gc_auth cfg = None" "client_allowed (se_peer env) (gc_allowlist cfg)"
    and "c_in c = [CHR 0x05, CHR 0x01, CHR 0x00] @ rest" "c_wleft c = None"
  shows "\<not> before_limits (sr_end (handle_socks5 ops env cfg pool c))"
proof -
  have "\<exists>c1. negotiate (gc_auth cfg) c = (Inr NoAuth, c1)"
    using assms(1,3,4) by (simp add: negotiate_def read_exact_def write_all_def)
  then obtain c1 where c1: "negotiate (gc_auth cfg) c = (Inr NoAuth, c1)" by blast
  show ?thesis
    using assms(2) c1
    by (auto simp: handle_socks5_def authenticate_def before_limits_simps relay_end dest!: read_request_Inl
        split: prod.splits sum.splits)
qed

lemma open_http:
  assumes "gc_auth cfg = None" "client_allowed (se_peer env) (gc_allowlist cfg)"
    and "read_head arrivals [] c = (Some head, c1)"
  shows "\<not> before_limits (sr_end (handle_http ops env cfg pool arrivals c))"
  using assms
  by (auto simp: handle_http_def proxy_auth_ok_def before_limits_simps http_forward_past Let_def split: prod.splits sum.splits)

section \<open>Properties of the whole server\<close>

text \<open>C2: The proxy does only what was asked for, except at the start. In every state the running
  server can reach, however requests, rounds, tasks and the gateway's loop interleave and whatever
  fails, a configuration that the gateway serves has the allowlist and the listeners of a proxy
  configuration that was stored in the database at some time, and it asks clients for credentials
  exactly if that configuration asked for authentication; the one exception is the configuration
  stored at the start, which is also served without credentials.\<close>

theorem served_was_stored:
  assumes "sys_reach sops mops cy h st" and "gw_phase (rc_gw st) = Serving cfg hb"
  shows "\<exists>c \<in> set h. ((gc_auth cfg \<noteq> None \<longleftrightarrow> pc_auth c) \<or> c = last h \<and> gc_auth cfg = None) \<and>
    gc_allowlist cfg = pc_allowed_ips c \<and> gc_socks5 cfg = pc_socks5 c \<and> gc_http cfg = pc_http c \<and>
    (hb \<longrightarrow> pc_http c)"
proof -
  from sys_gateway [OF assms(1)] obtain hist where hist: "gw_reach sops hist (rc_gw st)"
    "\<forall>(now, s) \<in> set hist. handed h s" by blast
  have "cfg \<in> configs_of (rc_gw st)" using assms(2) by (simp add: configs_of_def)
  from gw_reach_configs [OF hist(1) this] obtain now s where s: "(now, s) \<in> set hist" "cfg = config_from_settings sops now s"
    by (auto simp: from_history_def)
  with hist(2) have "handed h s" by auto
  then obtain c where c: "c \<in> set h" "renders c s \<or> c = last h \<and> s = proxy_settings_from_config c"
    using last_in_set [OF sys_history [OF assms(1)]] by (auto simp: handed_def)
  have "hb \<longrightarrow> gc_http cfg" using gw_reach_inv [OF hist(1)] assms(2) by (simp add: gw_inv_def)
  with c s(2) show ?thesis
    by (intro bexI [of _ c])
       (cases s; auto simp: renders_def proxy_settings_from_config_def config_from_settings_def)+
qed

text \<open>C7: Every start opens the proxy. Although the stored configuration asks for authentication,
  the gateway is started with exactly that configuration without its credentials: as soon as its loop
  has bound the listeners it serves it, and then a SOCKS5 client that offers no authentication gets
  past the handshake and an HTTP request past the credential check, for every client that the stored
  allowlist admits, subject to the stored limits only. A round of the reconciler that finds this
  configuration, with a listener enabled, and the password missing or unreadable keeps the gateway
  open.\<close>

theorem startup_opens_proxy:
  assumes "server_start sops now w s = Some st" and "pc_auth (stored_proxy (st_db s))"
    and "cfg = config_from_settings sops now (proxy_settings_from_config (stored_proxy (st_db s)))"
  shows "(\<exists>g h. loop_run [CheckTop, BindOk hb] (rc_gw st) = Some g \<and> gw_phase g = Serving cfg h \<and>
      h = (pc_http (stored_proxy (st_db s)) \<and> hb) \<and>
      (\<forall>env st' s1 q s2. rc_gw st' = g \<and> proxy_repo_get (rc_store st') = (Inr (stored_proxy (st_db s)), s1) \<and>
         (pc_socks5 (stored_proxy (st_db s)) \<or> pc_http (stored_proxy (st_db s))) \<and>
         secret_get_plaintext (re_crypto env) ProxyPassword s1 = (q, s2) \<and> (\<forall>pw. q \<noteq> Inr (Some pw))
         \<longrightarrow> rc_gw (sync_proxy env st') = g)) \<and>
    (\<forall>senv l pool c rest. client_allowed (se_peer senv) (pc_allowed_ips (stored_proxy (st_db s))) \<and>
       c_in c = [CHR 0x05, CHR 0x01, CHR 0x00] @ rest \<and> c_wleft c = None
       \<longrightarrow> \<not> before_limits (sr_end (handle_socks5 sops senv (cfg\<lparr>gc_limits := l\<rparr>) pool c))) \<and>
    (\<forall>senv l pool arrivals c. client_allowed (se_peer senv) (pc_allowed_ips (stored_proxy (st_db s))) \<and>
       fst (read_head arrivals [] c) \<noteq> None
       \<longrightarrow> \<not> before_limits (sr_end (handle_http sops senv (cfg\<lparr>gc_limits := l\<rparr>) pool arrivals c)))"
proof -
  let ?c = "stored_proxy (st_db s)"
  have gw: "rc_gw st = snd (apply_config sops now (proxy_settings_from_config ?c) gateway_new)"
    using server_start_Some [OF assms(1)] by simp
  have cfg: "gc_auth cfg = None" "gc_allowlist cfg = pc_allowed_ips ?c" "gc_http cfg = pc_http ?c"
    by (simp_all add: assms(3) config_from_settings_def proxy_settings_from_config_def)
  have "\<exists>g. loop_run [CheckTop, BindOk hb] (rc_gw st) = Some g \<and> gw_phase g = Serving cfg (gc_http cfg \<and> hb)"
    unfolding gw assms(3)
    by (simp add: apply_config_def set_config_def notify_waiters_def gateway_new_def loop_step_def set_error_def)
  then obtain g where g: "loop_run [CheckTop, BindOk hb] (rc_gw st) = Some g" "gw_phase g = Serving cfg (gc_http cfg \<and> hb)"
    by blast
  have keep: "rc_gw (sync_proxy env st') = g"
    if "rc_gw st' = g" "proxy_repo_get (rc_store st') = (Inr ?c, s1)" "pc_socks5 ?c \<or> pc_http ?c"
      "secret_get_plaintext (re_crypto env) ProxyPassword s1 = (q, s2)" "\<forall>pw. q \<noteq> Inr (Some pw)" for env st' s1 q s2
    using sync_proxy_unreadable [OF that(2) assms(2) that(3,4,5)] that(1) by simp
  then have kept: "\<forall>env st' s1 q s2. rc_gw st' = g \<and> proxy_repo_get (rc_store st') = (Inr ?c, s1) \<and>
         (pc_socks5 ?c \<or> pc_http ?c) \<and>
         secret_get_plaintext (re_crypto env) ProxyPassword s1 = (q, s2) \<and> (\<forall>pw. q \<noteq> Inr (Some pw))
         \<longrightarrow> rc_gw (sync_proxy env st') = g"
    by blast
  have socks: "\<not> before_limits (sr_end (handle_socks5 sops senv (cfg\<lparr>gc_limits := l\<rparr>) pool c))"
    if "client_allowed (se_peer senv) (pc_allowed_ips ?c)" "c_in c = [CHR 0x05, CHR 0x01, CHR 0x00] @ rest" "c_wleft c = None"
    for senv l pool c rest
    by (rule open_socks5 [where rest = rest]) (use that cfg in simp_all)
  have http: "\<not> before_limits (sr_end (handle_http sops senv (cfg\<lparr>gc_limits := l\<rparr>) pool arrivals c))"
    if "client_allowed (se_peer senv) (pc_allowed_ips ?c)" "fst (read_head arrivals [] c) \<noteq> None"
    for senv l pool arrivals c
  proof -
    from that(2) obtain buf where "read_head arrivals [] c = (Some buf, snd (read_head arrivals [] c))"
      by (metis not_None_eq prod.collapse)
    then show ?thesis by (rule open_http [rotated 2]) (use that(1) cfg in simp_all)
  qed
  show ?thesis
  proof (intro conjI)
    show "\<exists>g h. loop_run [CheckTop, BindOk hb] (rc_gw st) = Some g \<and> gw_phase g = Serving cfg h \<and>
      h = (pc_http ?c \<and> hb) \<and>
      (\<forall>env st' s1 q s2. rc_gw st' = g \<and> proxy_repo_get (rc_store st') = (Inr ?c, s1) \<and>
         (pc_socks5 ?c \<or> pc_http ?c) \<and>
         secret_get_plaintext (re_crypto env) ProxyPassword s1 = (q, s2) \<and> (\<forall>pw. q \<noteq> Inr (Some pw))
         \<longrightarrow> rc_gw (sync_proxy env st') = g)"
      by (intro exI [of _ g] exI [of _ "pc_http ?c \<and> hb"] conjI g(1) kept) (simp_all add: g(2) cfg(3))
  qed (intro allI impI; elim conjE; erule socks http; assumption)+
qed


text \<open>C10: A shutdown leaves no instance behind unnoticed, and the gateway ends. Whatever state the
  server has reached, after the shutdown every instance that was running is either down, so out of the
  table and Stopped in the registry, or stuck because its stop failed; no other instance is in the
  table. The gateway reports Stopped. Its loop has at most four more events, whichever they are, and can
  always go on until it has exited. Unless the stop met it while it was binding, both listeners are
  closed from the stop on and the next event is its exit. In that one case the wake-up is lost and the
  listeners may be bound once more; then the shutdown signal, which was sent before, closes them.\<close>

theorem shutdown_stops_everything:
  assumes "sys_reach sops mops cy h st" and "server_shutdown mops st = st'"
  shows "(\<forall>i \<in> mg_live (rc_mgr st). stuck i (rc_mgr st') \<or> down i (rc_mgr st')) \<and>
    mg_live (rc_mgr st') \<subseteq> mg_live (rc_mgr st) \<and> gw_status pid r (rc_gw st') = Some StStopped \<and>
    (\<forall>es g. loop_run es (rc_gw st') = Some g \<longrightarrow>
       length es \<le> 4 \<and> (gw_phase g \<noteq> Exited \<longrightarrow> (\<exists>e. loop_step e g \<noteq> None)) \<and>
       ((\<forall>cfg. gw_phase (rc_gw st) \<noteq> Binding cfg) \<longrightarrow>
          \<not> socks5_bound g \<and> \<not> http_bound g \<and> (es \<noteq> [] \<longrightarrow> gw_phase g = Exited)) \<and>
       (socks5_bound g \<or> http_bound g \<longrightarrow> loop_step Shutdown g = Some (exit_loop g)))"
proof (intro conjI)
  have ok: "mg_ok (rc_mgr st)" using sys_invariants [OF assms(1)] by simp
  have m: "rc_mgr st' = stop_ids mops (List.map fst (mg_current (rc_mgr st))) (rc_mgr st)"
    using assms(2) by (auto simp: server_shutdown_def stop_all_def)
  note e = stop_ids_effect [OF ok, of "{}" "List.map fst (mg_current (rc_mgr st))" mops]
  have "mg_live (rc_mgr st) \<subseteq> fst ` set (mg_current (rc_mgr st))"
    using ok by (force simp: mg_live_def mg_ok_def dest: map_of_SomeD)
  with e show "\<forall>i \<in> mg_live (rc_mgr st). stuck i (rc_mgr st') \<or> down i (rc_mgr st')" by (auto simp: m)
  from e show "mg_live (rc_mgr st') \<subseteq> mg_live (rc_mgr st)" by (auto simp: m)
  have g: "rc_gw st' = snd (gw_stop (rc_gw st))" using assms(2) by (auto simp: server_shutdown_def)
  then show "gw_status pid r (rc_gw st') = Some StStopped" by (simp add: gw_stop_def notify_waiters_def gw_status_def Let_def split: phase.splits)
  show "\<forall>es g. loop_run es (rc_gw st') = Some g \<longrightarrow>
       length es \<le> 4 \<and> (gw_phase g \<noteq> Exited \<longrightarrow> (\<exists>e. loop_step e g \<noteq> None)) \<and>
       ((\<forall>cfg. gw_phase (rc_gw st) \<noteq> Binding cfg) \<longrightarrow>
          \<not> socks5_bound g \<and> \<not> http_bound g \<and> (es \<noteq> [] \<longrightarrow> gw_phase g = Exited)) \<and>
       (socks5_bound g \<or> http_bound g \<longrightarrow> loop_step Shutdown g = Some (exit_loop g))"
    using stopped_loop_ends g by metis
qed

section \<open>The allowlist on its way to the gateway\<close>

lemma proxy_api_update_stores:
  assumes "proxy_api_update cy gst (Some q) s = (Inr v, s')"
  shows "stored_proxy (st_db s') = row_to_proxy_config (proxy_config_row (proxy_request_apply q (stored_proxy (st_db s)))) \<and>
    xv_allowed_ips v = pc_allowed_ips (proxy_request_apply q (stored_proxy (st_db s)))"
proof -
  from assms obtain c s1 p s2 r s3 where g: "proxy_repo_get s = (Inr c, s1)"
    and p: "(case xq_password q of None \<Rightarrow> mapping_err api_secret_error (secret_exists ProxyPassword)
      | Some v \<Rightarrow> ret (v \<noteq> [])) s1 = (Inr p, s2)"
    and u: "update_proxy_with_password cy (proxy_request_apply q c) (xq_password q) s2 = (Inr r, s3)"
    and v: "v = with_actual gst (proxy_view_of (proxy_request_apply q c) p)" "st_db s' = st_db s3"
    by (auto simp: proxy_api_update_def json_body_def from_result_def ok_or_def Let_def andthen_eq_Inr
        mapping_err_eq_Inr notify_change_def split: if_splits)
  have up: "upsert_proxy c d = Inr (x, d') \<Longrightarrow> db_proxy d' = Some (proxy_config_row c)" for c d x d'
    by (auto simp: upsert_proxy_def)
  from u have "db_proxy (st_db s3) = Some (proxy_config_row (proxy_request_apply q c))"
    unfolding update_proxy_with_password_def
    by (elim tx_Inr) (auto simp: andthen_eq_Inr mapping_err_eq_Inr dest!: stmt_Inr up)
  with v proxy_repo_get_Inr [OF g] show ?thesis
    by (simp add: stored_proxy_def with_actual_def proxy_view_of_def)
qed

lemma blank_entries_split:
  "es \<noteq> [] \<Longrightarrow> \<forall>e\<in>set es. CHR '','' \<notin> set e \<Longrightarrow> split_on (CHR '','') (join_with '','' es) = es"
proof (induction es)
  case (Cons e es)
  then show ?case by (cases es) (auto simp: split_on_none split_on_cons)
qed simp

lemma blank_invalid: "trim_str e = [] \<Longrightarrow> \<exists>x. parse_cidr e = Inl x"
proof -
  have p: "parse_ip [] = None" by (simp add: parser_defs)
  assume "trim_str e = []"
  then show ?thesis by (simp only: parse_cidr_def Let_def split_once.simps option.case p) blast
qed

text \<open>An allowlist of blank entries opens the proxy to everyone. A request whose allowlist
  consists of blank strings is accepted and answered with that allowlist, which admits no client;
  but what is stored and handed to the gateway is the empty allowlist, which admits every client.\<close>

theorem blank_allowlist_opens:
  assumes "proxy_api_update cy gst (Some q) s = (Inr v, s')"
    and "xq_allowed_ips q = Some es" and "es \<noteq> []" and "\<forall>e \<in> set es. trim_str e = [] \<and> CHR '','' \<notin> set e"
  shows "xv_allowed_ips v = es \<and> \<not> client_allowed ip (xv_allowed_ips v) \<and>
    client_allowed ip (ps_allowlist (proxy_settings_from_config (stored_proxy (st_db s'))))"
proof -
  let ?c = "proxy_request_apply q (stored_proxy (st_db s))"
  have c: "pc_allowed_ips ?c = es" using assms(2) by (simp add: proxy_request_apply_def opt_or_def)
  have "\<exists>x. parse_cidr e = Inl x" if "e \<in> set es" for e
    using blank_invalid that assms(4) by blast
  then have "\<not> client_allowed ip es" using assms(3) by (force simp: client_allowed_iff)
  moreover have "pc_allowed_ips (row_to_proxy_config (proxy_config_row ?c)) = []"
    using c assms(3,4) by (simp add: row_to_proxy_config_def proxy_config_row_def split_allowed_def blank_entries_split)
  ultimately show ?thesis
    using proxy_api_update_stores [OF assms(1)] c
    by (simp add: proxy_settings_from_config_def client_allowed_def)
qed

section \<open>A concrete server\<close>

definition demo_open :: proxy_config where
  "demo_open = demo_proxy\<lparr>pc_auth := False, pc_http := True\<rparr>"

definition demo_blank :: proxy_request where
  "demo_blank = \<lparr>xq_socks5 = None, xq_http = None, xq_auth = None, xq_username = None, xq_password = None,
     xq_allowed_ips = Some ['' ''], xq_max_connections = None, xq_max_rps = None\<rparr>"

theorem blank_allowlist_opens_witness:
  "\<exists>v s'. proxy_api_update demo_crypto None (Some demo_blank) (demo_store db_migrated) = (Inr v, s') \<and>
     \<not> client_allowed (IpV4 0) (xv_allowed_ips v) \<and>
     client_allowed (IpV4 0) (ps_allowlist (proxy_settings_from_config (stored_proxy (st_db s'))))"
proof -
  have "isl (fst (proxy_api_update demo_crypto None (Some demo_blank) (demo_store db_migrated))) = False" by code_simp
  then obtain v s' where u: "proxy_api_update demo_crypto None (Some demo_blank) (demo_store db_migrated) = (Inr v, s')"
    by (cases "proxy_api_update demo_crypto None (Some demo_blank) (demo_store db_migrated)";
        cases "fst (proxy_api_update demo_crypto None (Some demo_blank) (demo_store db_migrated))") auto
  have "xq_allowed_ips demo_blank = Some ['' '']" "trim_str '' '' = []" by (simp add: demo_blank_def) code_simp
  with blank_allowlist_opens [OF u, of "['' '']" "IpV4 0"] u show ?thesis by auto
qed

text \<open>The server starts on a database with an open proxy configuration, a round applies it again, and
  the gateway's loop binds.\<close>

definition demo_db :: "proxy_config \<Rightarrow> database" where
  "demo_db c = db_migrated\<lparr>db_proxy := Some (proxy_config_row c)\<rparr>"

definition demo_applied :: "proxy_config \<Rightarrow> nat gateway_config" where
  "demo_applied c = config_from_settings nat_semaphore 0 (proxy_settings_from_config c)"

lemma demo_open_stored: "row_to_proxy_config (proxy_config_row demo_open) = demo_open"
  by (rule proxy_row_roundtrip) (use demo_proxy_storable in \<open>simp add: storable_def demo_open_def\<close>)

lemma demo_proxy_stored: "row_to_proxy_config (proxy_config_row demo_proxy) = demo_proxy"
  by (rule proxy_row_roundtrip [OF demo_proxy_storable])

lemma demo_db_ok: "api_ok (demo_db demo_open)"
  by (simp add: demo_db_def api_ok_def db_ok_def desired_ok_def db_wf_def warp_plus_single_def bound_count_def
      profiles_ok_def profile_exists_def proxy_ok_def db_migrated_def default_profile_id_def desired_valid_def
      proxy_config_row_def demo_open_def)

definition demo_boot :: "proxy_config \<Rightarrow> (unit manager, nat gateway) recon" where
  "demo_boot c = \<lparr>rc_store = demo_store (demo_db c), rc_mgr = manager_new \<lparr>w_now = 0, w_env = ()\<rparr>,
     rc_gw = snd (apply_config nat_semaphore 0 (proxy_settings_from_config c) gateway_new),
     rc_apply_error = None, rc_reads = 0\<rparr>"

lemma demo_start:
  assumes "row_to_proxy_config (proxy_config_row c) = c"
  shows "server_start nat_semaphore 0 \<lparr>w_now = 0, w_env = ()\<rparr> (demo_store (demo_db c)) = Some (demo_boot c) \<and>
    proxy_repo_get (demo_store (demo_db c)) = (Inr c, demo_store (demo_db c)) \<and> stored_proxy (demo_db c) = c"
  using assms
  by (simp add: server_start_def demo_boot_def proxy_repo_get_def andthen_def mapping_err_def demo_store_def demo_db_def
      stored_proxy_def)

lemma demo_served:
  "\<exists>st. sys_reach nat_semaphore (demo_ops (Joined None)) demo_crypto [demo_open] st \<and>
     gw_phase (rc_gw st) = Serving (demo_applied demo_open) True"
proof -
  let ?reach = "sys_reach nat_semaphore (demo_ops (Joined None)) demo_crypto [demo_open]"
  let ?g1 = "(rc_gw (demo_boot demo_open))\<lparr>gw_phase := Binding (demo_applied demo_open)\<rparr>"
  let ?st1 = "(demo_boot demo_open)\<lparr>rc_gw := ?g1\<rparr>"
  have "api_ok (st_db (demo_store (demo_db demo_open)))" using demo_db_ok by (simp add: demo_store_def)
  from sys_reach.boot [OF this demo_start [OF demo_open_stored, THEN conjunct1], of "demo_ops (Joined None)" demo_crypto]
    demo_start [OF demo_open_stored]
  have "?reach (demo_boot demo_open)" by (simp add: demo_store_def)
  then have 1: "?reach ?st1"
    by (rule sys_reach.gateway [where e = CheckTop])
       (simp add: demo_boot_def demo_applied_def apply_config_def set_config_def notify_waiters_def loop_step_def gateway_new_def)
  have "\<exists>g2. loop_step (BindOk True) (rc_gw ?st1) = Some g2 \<and> gw_phase g2 = Serving (demo_applied demo_open) True"
    by (simp add: demo_boot_def apply_config_def set_config_def notify_waiters_def loop_step_def gateway_new_def set_error_def
        demo_applied_def config_from_settings_def proxy_settings_from_config_def demo_open_def demo_proxy_def)
  then obtain g2 where g2: "loop_step (BindOk True) (rc_gw ?st1) = Some g2" "gw_phase g2 = Serving (demo_applied demo_open) True"
    by blast
  from sys_reach.gateway [OF 1 g2(1)] g2(2) show ?thesis by (intro exI conjI) auto
qed

theorem served_was_stored_witness: "gc_auth (demo_applied demo_open) = None \<and> gc_http (demo_applied demo_open)"
proof -
  obtain st where "sys_reach nat_semaphore (demo_ops (Joined None)) demo_crypto [demo_open] st"
    "gw_phase (rc_gw st) = Serving (demo_applied demo_open) True" using demo_served by blast
  from served_was_stored [OF this] show ?thesis
    by (cases "gc_auth (demo_applied demo_open)") (auto simp: demo_open_def)
qed


theorem startup_opens_proxy_witness:
  "pc_auth demo_proxy \<and>
   (\<exists>g. loop_run [CheckTop, BindOk True] (rc_gw (demo_boot demo_proxy)) = Some g \<and>
      gw_phase g = Serving (demo_applied demo_proxy) (pc_http demo_proxy) \<and>
      rc_gw (sync_proxy (demo_round (Joined None)) ((demo_boot demo_proxy)\<lparr>rc_gw := g\<rparr>)) = g) \<and>
   \<not> before_limits (sr_end (handle_socks5 nat_semaphore ((demo_env [] [])\<lparr>se_peer := IpV4 0x0A000001\<rparr>) ((demo_applied demo_proxy)\<lparr>gc_limits := None\<rparr>) pool_new
      \<lparr>c_in = [CHR 0x05, CHR 0x01, CHR 0x00] @ [], c_out = [], c_wleft = None\<rparr>))"
proof -
  let ?s = "demo_store (demo_db demo_proxy)" and ?env = "demo_round (Joined None)"
  have q: "secret_get_plaintext (re_crypto ?env) ProxyPassword ?s = (Inr None, ?s)"
    by (simp add: secret_get_plaintext_def plaintext_at_def andthen_def mapping_err_def demo_store_def demo_db_def db_migrated_def)
  have d: "server_start nat_semaphore 0 \<lparr>w_now = 0, w_env = ()\<rparr> ?s = Some (demo_boot demo_proxy)"
    "proxy_repo_get ?s = (Inr demo_proxy, ?s)" "stored_proxy (st_db ?s) = demo_proxy"
    using demo_start [OF demo_proxy_stored] by (auto simp: demo_store_def)
  have a: "pc_auth (stored_proxy (st_db ?s))" "pc_socks5 demo_proxy" "pc_auth demo_proxy"
    by (simp_all add: d(3)) (simp_all add: demo_proxy_def)
  have allowed: "client_allowed (IpV4 0x0A000001) (pc_allowed_ips demo_proxy)" by code_simp
  have c: "demo_applied demo_proxy = config_from_settings nat_semaphore 0 (proxy_settings_from_config (stored_proxy (st_db ?s)))"
    by (simp add: demo_applied_def d(3))
  note t = startup_opens_proxy [OF d(1) a(1) c, of True, unfolded d(3)]
  from t obtain g h where g: "loop_run [CheckTop, BindOk True] (rc_gw (demo_boot demo_proxy)) = Some g"
    "gw_phase g = Serving (demo_applied demo_proxy) h" "h = (pc_http demo_proxy \<and> True)"
    and kept: "\<forall>env (st' :: (unit manager, nat gateway) recon) s1 q s2. rc_gw st' = g \<and> proxy_repo_get (rc_store st') = (Inr demo_proxy, s1) \<and>
      (pc_socks5 demo_proxy \<or> pc_http demo_proxy) \<and>
      secret_get_plaintext (re_crypto env) ProxyPassword s1 = (q, s2) \<and> (\<forall>pw. q \<noteq> Inr (Some pw)) \<longrightarrow>
      rc_gw (sync_proxy env st') = g"
    by (elim conjE exE) blast
  have keep: "rc_gw (sync_proxy env st') = g"
    if "rc_gw st' = g" "proxy_repo_get (rc_store st') = (Inr demo_proxy, s1)"
      "secret_get_plaintext (re_crypto env) ProxyPassword s1 = (q, s2)" "\<forall>pw. q \<noteq> Inr (Some pw)" for env and st' :: "(unit manager, nat gateway) recon" and s1 q s2
    using kept a(2) that by blast
  have "rc_store ((demo_boot demo_proxy)\<lparr>rc_gw := g\<rparr>) = ?s" "rc_gw ((demo_boot demo_proxy)\<lparr>rc_gw := g\<rparr>) = g"
    by (simp_all add: demo_boot_def)
  with keep [of "(demo_boot demo_proxy)\<lparr>rc_gw := g\<rparr>" ?s ?env "Inr None" ?s] d(2) q
  have "rc_gw (sync_proxy ?env ((demo_boot demo_proxy)\<lparr>rc_gw := g\<rparr>)) = g" by simp
  moreover have "\<not> before_limits (sr_end (handle_socks5 nat_semaphore ((demo_env [] [])\<lparr>se_peer := IpV4 0x0A000001\<rparr>) ((demo_applied demo_proxy)\<lparr>gc_limits := None\<rparr>) pool_new
      \<lparr>c_in = [CHR 0x05, CHR 0x01, CHR 0x00] @ [], c_out = [], c_wleft = None\<rparr>))"
    by (rule t [THEN conjunct2, THEN conjunct1, rule_format, of _ _ "[]"]) (simp add: allowed)
  ultimately show ?thesis using g a(3) by simp
qed

text \<open>A server whose database asks for one instance, after its first round.\<close>

definition demo_fleet :: database where
  "demo_fleet = (demo_db demo_open)\<lparr>db_instances := [default_instance 1 ''one'' None]\<rparr>"

lemma demo_fleet_ok: "api_ok demo_fleet"
  by (simp add: demo_fleet_def demo_db_def api_ok_def db_ok_def desired_ok_def db_wf_def warp_plus_single_def bound_count_def
      profiles_ok_def profile_exists_def proxy_ok_def db_migrated_def default_profile_id_def desired_valid_def
      proxy_config_row_def demo_open_def default_instance_def)

lemma demo_fleet_running:
  "\<exists>h st. sys_reach nat_semaphore (demo_ops (Joined None)) demo_crypto h st \<and> 1 \<in> mg_live (rc_mgr st)"
proof -
  let ?s = "demo_store demo_fleet" and ?env = "demo_round (Joined None)"
  have db: "st_db ?s = demo_fleet" by (simp add: demo_store_def)
  obtain st0 where st0: "server_start nat_semaphore 0 \<lparr>w_now = 0, w_env = ()\<rparr> ?s = Some st0"
    "rc_store st0 = ?s" "rc_mgr st0 = manager_new \<lparr>w_now = 0, w_env = ()\<rparr>"
    by (simp add: server_start_def proxy_repo_get_def andthen_def mapping_err_def demo_store_def demo_fleet_def demo_db_def)
  have "sys_reach nat_semaphore (demo_ops (Joined None)) demo_crypto [stored_proxy (st_db ?s)] st0"
    using sys_reach.boot [OF _ st0(1)] demo_fleet_ok by (simp add: db)
  then have r: "sys_reach nat_semaphore (demo_ops (Joined None)) demo_crypto [stored_proxy (st_db ?s)] (reconcile_once ?env st0)"
    by (rule sys_reach.round_step [where now = 0 and evs = "[]"]) (simp_all add: demo_round_def)
  obtain sp where sp: "row_to_spec (default_instance 1 ''one'' None) = Inr sp" "sp_id sp = 1" "should_run sp" "sp_profile sp = None"
    by (simp add: row_to_spec_def default_instance_def desired_parse_def id_from_db_def should_run_def)
  have l: "repo_list ?s = (Inr [sp], ?s)"
    by (simp add: repo_list_def andthen_def mapping_err_def demo_store_def demo_fleet_def demo_db_def db_migrated_def sp(1))
  let ?m = "on_reg (reg_insert 1) (manager_new \<lparr>w_now = 0, w_env = ()\<rparr> :: unit manager)"
  let ?st1 = "insert_missing ?env [sp] (st0\<lparr>rc_store := ?s\<rparr>)"
  have m1: "rc_mgr ?st1 = ?m"
    using st0(3) sp(2)
    by (simp add: insert_missing_def registry_of_def on_registry_def demo_round_def manager_runtime_def manager_new_def reg_get_def)
  have ro: "registry_of ?env st = mg_reg (rc_mgr st)" for st
    by (simp add: registry_of_def demo_round_def manager_runtime_def)
  have reg: "reg_get (registry_of ?env ?st1) 1 = Some rt_stopped" "fst ` set (reg_list (registry_of ?env ?st1)) = {1}"
    by (simp_all add: ro m1 manager_new_def reg_insert_def reg_get_def reg_list_def)
  have reap: "fold (\<lambda>(i, _). reap_orphan ?env [1] i) es st = st" if "fst ` set es \<subseteq> {1}" for es :: registry and st
    using that by (induction es) (auto simp: reap_orphan_def)
  have st2: "reap_orphans ?env [1] ?st1 = ?st1" using reap reg(2) by (simp add: reap_orphans_def)
  have ctx: "context_new ''/d'' ''/r'' 1 = Inr (demo_ctx 1)"
    using instance_port_valid(1) [of 1] by (simp add: context_new_def demo_ctx_def port_defs)
  have id: "cx_id (demo_ctx 1) = 1" "map_of (mg_runs ?m) 1 = None" by (simp_all add: demo_ctx_def manager_new_def)
  obtain r m' where "do_start (demo_ops (Joined None)) (fold task_step []) (demo_ctx 1) None ?m = (Inr r, m')"
    using demo_do_start by blast
  with id have d: "rt_start (demo_ops (Joined None)) (fold task_step []) (demo_ctx 1) None ?m = (Inr (), put_run 1 r m')"
    by (simp add: rt_start_def)
  have env: "re_data_dir ?env = ''/d''" "re_runtime_base ?env = ''/r''"
    "ro_start (re_runtime ?env) ctx p m = map_prod (map_err show_manager_error) id (rt_start (demo_ops (Joined None)) (fold task_step []) ctx p m)"
    for ctx p m
    by (simp_all add: demo_round_def manager_runtime_def)
  have "rc_mgr (reconcile_once ?env st0) = rc_mgr (snd (start_instance ?env sp ?st1))"
    using st0(2) l st2 sp reg(1)
    by (simp add: reconcile_once_def on_store_def mgr.sync_proxy_mgr reconcile_all_def reconcile_instance_def rt_stopped_def)
  also have "\<dots> = put_run 1 r m'"
    by (simp only: start_instance_mgr env sp ctx m1 d sum.case map_prod_simp snd_conv id_apply)
  finally have "1 \<in> mg_live (rc_mgr (reconcile_once ?env st0))" by (simp add: mg_live_def)
  with r show ?thesis by blast
qed

theorem shutdown_stops_everything_witness:
  "\<exists>st. 1 \<in> mg_live (rc_mgr (st :: (unit manager, nat gateway) recon)) \<and>
     (let st' = server_shutdown (demo_ops (Joined None)) st in
        (stuck 1 (rc_mgr st') \<or> down 1 (rc_mgr st')) \<and> gw_status 1 [] (rc_gw st') = Some StStopped \<and>
        (\<forall>es g. loop_run es (rc_gw st') = Some g \<longrightarrow> length es \<le> 4))"
proof -
  obtain h st where r: "sys_reach nat_semaphore (demo_ops (Joined None)) demo_crypto h st" "1 \<in> mg_live (rc_mgr st)"
    using demo_fleet_running by blast
  note t = shutdown_stops_everything [OF r(1) HOL.refl, where pid = 1 and r = "[]"]
  from t r(2) show ?thesis unfolding Let_def by blast
qed

end
